(* ===== verification/Oracles_Prelude.thy ===== *)
theory Oracles_Prelude
  imports Main "HOL-Library.Word"
begin

text \<open>
  The shared layer of the development: names for the machine types of the Rust
  sources, the checked and saturating arithmetic of the standard library, results as
  sums, and the generic list, map and word lemmas the component theories use.

  The workspace is built with the release profile of \<^verbatim>\<open>src/Cargo.toml\<close>, which does not
  enable overflow checks: \<open>+\<close>, \<open>-\<close> and \<open>*\<close> on fixed-width integers wrap
  around and a shift amount is masked to the width of its operand. Fixed-width values
  are therefore \<^typ>\<open>'a word\<close>, whose arithmetic wraps in the same way; a signed
  value is kept as its two's complement bit pattern and read with \<^term>\<open>sint\<close>.
  A \<open>Result<T, E>\<close> is \<open>'e + 't\<close> with the error on the left. An instant of
  \<open>chrono::DateTime<Utc>\<close> is the number of nanoseconds since the epoch, a
  \<open>chrono::Duration\<close> a number of nanoseconds, both \<^typ>\<open>int\<close>.
\<close>

unbundle bit_operations_syntax

type_synonym u8 = "8 word"
type_synonym u32 = "32 word"
type_synonym u64 = "64 word"
type_synonym i32 = "32 word"
type_synonym i64 = "64 word"
type_synonym bytes = "8 word list"
type_synonym pubkey = string
type_synonym timestamp = int
type_synonym duration = int

named_theorems word_nat_simps "facts that move word arithmetic to the natural numbers"
named_theorems result_simps "facts about results as sums"

subsection \<open>Durations\<close>

abbreviation nanos_per_sec :: int where "nanos_per_sec \<equiv> 1000000000"
abbreviation seconds :: "int \<Rightarrow> duration" where "seconds s \<equiv> s * nanos_per_sec"
abbreviation milliseconds :: "int \<Rightarrow> duration" where "milliseconds s \<equiv> s * 1000000"
abbreviation minutes :: "int \<Rightarrow> duration" where "minutes m \<equiv> seconds (m * 60)"
abbreviation hours :: "int \<Rightarrow> duration" where "hours h \<equiv> seconds (h * 3600)"
abbreviation days :: "int \<Rightarrow> duration" where "days d \<equiv> seconds (d * 86400)"

subsection \<open>Results\<close>

fun res_bind :: "'e + 'a \<Rightarrow> ('a \<Rightarrow> 'e + 'b) \<Rightarrow> 'e + 'b" where
  "res_bind (Inl e) f = Inl e"
| "res_bind (Inr a) f = f a"

fun map_err :: "('e \<Rightarrow> 'f) \<Rightarrow> 'e + 'a \<Rightarrow> 'f + 'a" where
  "map_err f (Inl e) = Inl (f e)"
| "map_err f (Inr a) = Inr a"

fun ok_or :: "'e \<Rightarrow> 'a option \<Rightarrow> 'e + 'a" where
  "ok_or e None = Inl e"
| "ok_or e (Some a) = Inr a"

fun is_ok :: "'e + 'a \<Rightarrow> bool" where
  "is_ok (Inl e) = False"
| "is_ok (Inr a) = True"

lemma res_bind_cong [fundef_cong]:
  "r = r' \<Longrightarrow> (\<And>a. r' = Inr a \<Longrightarrow> f a = g a) \<Longrightarrow> res_bind r f = res_bind r' g"
  by (cases r') auto

lemma res_bind_Inr_iff [result_simps]:
  "res_bind r f = Inr b \<longleftrightarrow> (\<exists>a. r = Inr a \<and> f a = Inr b)"
  by (cases r) auto

lemma res_bind_Inl_iff [result_simps]:
  "res_bind r f = Inl e \<longleftrightarrow> r = Inl e \<or> (\<exists>a. r = Inr a \<and> f a = Inl e)"
  by (cases r) auto

lemma map_err_Inr_iff [result_simps]: "map_err f r = Inr a \<longleftrightarrow> r = Inr a"
  by (cases r) auto

lemma ok_or_Inr_iff [result_simps]: "ok_or e x = Inr a \<longleftrightarrow> x = Some a"
  by (cases x) auto

lemma ok_or_Inl_iff [result_simps]: "ok_or e x = Inl e' \<longleftrightarrow> x = None \<and> e' = e"
  by (cases x) auto

text \<open>The errors of a statement sent to Postgres that the models distinguish: a violated
  unique key, an insert or delete without a row, an integer result that does not fit its
  column, a missing column, and a lost connection.\<close>

datatype sqlx_error =
  UniqueViolation | EmptyValues | IntegerOutOfRange | UndefinedColumn | ConnectionLost

subsection \<open>Checked and saturating arithmetic\<close>

definition checked_sub :: "'a::len word \<Rightarrow> 'a word \<Rightarrow> 'a word option" where
  "checked_sub a b = (if b \<le> a then Some (a - b) else None)"

definition checked_add :: "'a::len word \<Rightarrow> 'a word \<Rightarrow> 'a word option" where
  "checked_add a b = (if unat a + unat b < 2 ^ LENGTH('a) then Some (a + b) else None)"

definition saturating_sub :: "'a::len word \<Rightarrow> 'a word \<Rightarrow> 'a word" where
  "saturating_sub a b = (if b \<le> a then a - b else 0)"

definition abs_diff :: "'a::len word \<Rightarrow> 'a word \<Rightarrow> 'a word" where
  "abs_diff a b = (if a \<le> b then b - a else a - b)"

lemma unat_sub_le [word_nat_simps]: "b \<le> a \<Longrightarrow> unat (a - b) = unat a - unat b"
  for a :: "'a::len word"
  by (rule unat_sub)

lemma unat_add_small: "unat a + unat b < 2 ^ LENGTH('a) \<Longrightarrow> unat (a + b) = unat a + unat b"
  for a :: "'a::len word"
  by (simp add: unat_word_ariths)

lemma unat_saturating_sub [word_nat_simps]: "unat (saturating_sub a b) = unat a - unat b"
  by (auto simp: saturating_sub_def unat_sub word_le_nat_alt)

lemma checked_sub_Some_iff [word_nat_simps]:
  "checked_sub a b = Some c \<longleftrightarrow> b \<le> a \<and> c = a - b"
  by (auto simp: checked_sub_def)

lemma checked_sub_None_iff [word_nat_simps]: "checked_sub a b = None \<longleftrightarrow> a < b"
  by (auto simp: checked_sub_def)

lemma unat_abs_diff:
  "unat (abs_diff a b) = (if unat a \<le> unat b then unat b - unat a else unat a - unat b)"
  by (auto simp: abs_diff_def unat_sub word_le_nat_alt)

subsection \<open>Bit fields\<close>

lemma drop_bit_and_field:
  "drop_bit k (a AND push_bit k (mask w)) = take_bit w (drop_bit k a)"
  for a :: "'a::len word"
  by (rule bit_word_eqI) (auto simp: bit_simps dest: bit_imp_le_length)

lemma or_disjoint_add: "a AND b = 0 \<Longrightarrow> a OR b = a + b"
  for a b :: "'a::len word"
  by (simp add: disjunctive_add_eq_or)

lemma bit_unat_div: "bit (a :: 'a::len word) n \<longleftrightarrow> odd (unat a div 2 ^ n)"
proof -
  have "bit a n \<longleftrightarrow> bit (unat a) n"
    by (auto simp: bit_unsigned_iff dest: bit_imp_le_length)
  then show ?thesis by (simp add: bit_iff_odd)
qed

lemma length_takeWhile_eq:
  "t < length xs \<Longrightarrow>
   length (takeWhile P xs) = t \<longleftrightarrow> (\<forall>i<t. P (xs ! i)) \<and> \<not> P (xs ! t)"
proof (induction xs arbitrary: t)
  case (Cons x xs)
  then show ?case
    by (cases t) (auto simp: less_Suc_eq_0_disj)
qed simp

text \<open>A signed value by its bit pattern.\<close>

lemma sint_cases:
  "sint a = (if unat a < 2 ^ (LENGTH('a) - 1) then int (unat a) else int (unat a) - 2 ^ LENGTH('a))"
  for a :: "'a :: len word"
proof -
  let ?n = "LENGTH('a) - 1"
  have n: "Suc ?n = LENGTH('a)" by simp
  have t: "take_bit (Suc ?n) (uint a) = uint a"
    unfolding n using unsigned_less [of a, where ?'a = int] by (intro take_bit_int_eq_self) simp_all
  have "2 ^ LENGTH('a) = (2 :: nat) * 2 ^ ?n" using n by (metis power_Suc)
  then have "unat a div 2 ^ ?n = (if unat a < 2 ^ ?n then 0 else 1)"
    using unsigned_less [of a, where ?'a = nat] by (auto intro: div_nat_eqI)
  moreover have "bit (uint a) ?n \<longleftrightarrow> bit (unat a) ?n" by (simp add: bit_unsigned_iff)
  ultimately have "bit (uint a) ?n \<longleftrightarrow> \<not> unat a < 2 ^ ?n" by (simp add: bit_iff_odd)
  then show ?thesis
    using t n by (simp add: sint_uint signed_take_bit_eq_take_bit_minus)
qed

section \<open>Columns of type bigint\<close>

text \<open>The sum of two values of a column, \<open>None\<close> when it leaves the range of the column: the statement fails.\<close>

definition fits_i64 :: "int \<Rightarrow> bool" where
  "fits_i64 n \<longleftrightarrow> - (2 ^ 63) \<le> n \<and> n < 2 ^ 63"

definition add_i64 :: "i64 \<Rightarrow> i64 \<Rightarrow> i64 option" where
  "add_i64 a b = (if fits_i64 (sint a + sint b) then Some (a + b) else None)"

lemma sint_add_i64: "add_i64 a b = Some c \<Longrightarrow> sint c = sint a + sint b"
  by (auto simp: add_i64_def fits_i64_def sint_word_ariths signed_take_bit_int_eq_self split: if_splits)

end
