(* ===== verification/Lora_Field.thy ===== *)
theory Lora_Field
  imports Oracles_Prelude
begin

text \<open>
  The LoRaWAN address fields of the IoT configuration service
  (\<^verbatim>\<open>src/iot_config/src/lora_field.rs\<close>): fixed-width hexadecimal fields with their
  conversions, printing and parsing; device address ranges and constraints; and the
  mapping between a 24-bit NetID and the block of 32-bit device addresses it owns.

  The const parameter \<open>WIDTH\<close> of \<open>LoraField\<close> is an argument of the two
  operations that read it, printing and parsing. The lemmas show that a printed field
  parses back to itself, that every address of the block of a NetID maps back to that
  NetID, and that distinct NetIDs own disjoint blocks.
\<close>

section \<open>Fields and conversions\<close>

datatype lora_field = LoraField (field_val: u64)

type_synonym net_id_field = lora_field
type_synonym dev_addr_field = lora_field
type_synonym eui_field = lora_field

definition field_le :: "lora_field \<Rightarrow> lora_field \<Rightarrow> bool" where
  "field_le a b \<longleftrightarrow> field_val a \<le> field_val b"

definition field_into_u64 :: "lora_field \<Rightarrow> u64" where
  "field_into_u64 f = field_val f"

definition field_into_i64 :: "lora_field \<Rightarrow> i64" where
  "field_into_i64 f = field_val f"

definition field_into_u32 :: "lora_field \<Rightarrow> u32" where
  "field_into_u32 f = ucast (field_val f)"

definition field_into_i32 :: "lora_field \<Rightarrow> i32" where
  "field_into_i32 f = ucast (field_val f)"

definition field_from_u64 :: "u64 \<Rightarrow> lora_field" where
  "field_from_u64 v = LoraField v"

definition field_from_i64 :: "i64 \<Rightarrow> lora_field" where
  "field_from_i64 v = LoraField v"

definition field_from_u32 :: "u32 \<Rightarrow> lora_field" where
  "field_from_u32 v = LoraField (ucast v)"

definition field_from_i32 :: "i32 \<Rightarrow> lora_field" where
  "field_from_i32 v = LoraField (ucast v)"

definition devaddr :: "u32 \<Rightarrow> dev_addr_field" where
  "devaddr v = field_from_u32 v"

definition eui :: "u64 \<Rightarrow> eui_field" where
  "eui v = field_from_u64 v"

definition net_id :: "u32 \<Rightarrow> net_id_field" where
  "net_id v = field_from_u32 v"

section \<open>Printing and parsing\<close>

datatype int_error_kind = Empty | InvalidDigit | PosOverflow

datatype parse_error = LengthMismatch nat nat | ParseInt int_error_kind

fun hex_digit :: "nat \<Rightarrow> char" where
  "hex_digit d = (if d < 10 then char_of (48 + d) else char_of (55 + d))"

fun to_hex :: "nat \<Rightarrow> string" where
  "to_hex n = (if n < 16 then [hex_digit n] else to_hex (n div 16) @ [hex_digit (n mod 16)])"

declare to_hex.simps [simp del]

text \<open>\<open>{:0>width$X}\<close>: upper case hexadecimal, filled with zeros on the left.\<close>

definition field_fmt :: "nat \<Rightarrow> lora_field \<Rightarrow> string" where
  "field_fmt width f =
     (let s = to_hex (unat (field_val f)) in replicate (width - length s) (CHR ''0'') @ s)"

fun to_digit16 :: "char \<Rightarrow> nat option" where
  "to_digit16 c =
     (let v = of_char c :: nat
      in if 48 \<le> v \<and> v \<le> 57 then Some (v - 48)
         else if 65 \<le> v \<and> v \<le> 70 then Some (v - 55)
         else if 97 \<le> v \<and> v \<le> 102 then Some (v - 87)
         else None)"

fun parse_digits16 :: "nat \<Rightarrow> string \<Rightarrow> int_error_kind + nat" where
  "parse_digits16 acc [] = Inr acc"
| "parse_digits16 acc (c # cs) =
     (case to_digit16 c of
        None \<Rightarrow> Inl InvalidDigit
      | Some d \<Rightarrow>
          if 2 ^ 64 \<le> acc * 16 + d then Inl PosOverflow
          else parse_digits16 (acc * 16 + d) cs)"

text \<open>\<open>u64::from_str_radix(s, 16)\<close> of the standard library: an optional sign \<open>+\<close>,
  then at least one digit.\<close>

definition u64_from_str_radix16 :: "string \<Rightarrow> int_error_kind + u64" where
  "u64_from_str_radix16 s =
     (if s = [] then Inl Empty
      else if s = ''+'' \<or> s = ''-'' then Inl InvalidDigit
      else map_sum id of_nat
             (parse_digits16 0 (if hd s = CHR ''+'' then tl s else s)))"

definition verify_len :: "string \<Rightarrow> nat \<Rightarrow> parse_error + unit" where
  "verify_len input expected_len =
     (if length input = expected_len then Inr ()
      else Inl (LengthMismatch (length input) expected_len))"

definition field_from_str :: "nat \<Rightarrow> string \<Rightarrow> parse_error + lora_field" where
  "field_from_str width s =
     (if s = ''*'' then Inr (LoraField 0)
      else res_bind (verify_len s width) (\<lambda>_.
             map_sum ParseInt LoraField (u64_from_str_radix16 s)))"

datatype net_id_error = NetIdError parse_error
datatype dev_addr_error = DevAddrError parse_error
datatype eui_error = EuiError parse_error

definition validate_net_id :: "string \<Rightarrow> net_id_error + net_id_field" where
  "validate_net_id s = map_err NetIdError (field_from_str 6 s)"

definition validate_devaddr :: "string \<Rightarrow> dev_addr_error + dev_addr_field" where
  "validate_devaddr s = map_err DevAddrError (field_from_str 8 s)"

definition validate_eui :: "string \<Rightarrow> eui_error + eui_field" where
  "validate_eui s = map_err EuiError (field_from_str 16 s)"

section \<open>Ranges and constraints\<close>

record dev_addr_range =
  range_route_id :: string
  range_start_addr :: dev_addr_field
  range_end_addr :: dev_addr_field

definition contains_addr :: "dev_addr_range \<Rightarrow> dev_addr_field \<Rightarrow> bool" where
  "contains_addr r addr \<longleftrightarrow>
     field_le (range_start_addr r) addr \<and> field_le addr (range_end_addr r)"

record dev_addr_constraint =
  start_addr :: dev_addr_field
  end_addr :: dev_addr_field

datatype dev_addr_range_error = EndLessThanStart | NextStartUnavailable | RangeUneven

definition constraint_new ::
  "dev_addr_field \<Rightarrow> dev_addr_field \<Rightarrow> dev_addr_range_error + dev_addr_constraint" where
  "constraint_new s e =
     (if field_le e s then Inl EndLessThanStart
      else if field_val s mod 2 \<noteq> 0 \<or> field_val e mod 2 = 0 then Inl RangeUneven
      else Inr \<lparr>start_addr = s, end_addr = e\<rparr>)"

definition next_start :: "dev_addr_constraint \<Rightarrow> dev_addr_range_error + dev_addr_field" where
  "next_start c = Inr (devaddr (field_into_u32 (end_addr c) + 1))"

definition contains_range :: "dev_addr_constraint \<Rightarrow> dev_addr_range \<Rightarrow> bool" where
  "contains_range c r \<longleftrightarrow>
     field_le (start_addr c) (range_start_addr r) \<and> field_le (range_end_addr r) (end_addr c)"

definition to_range :: "dev_addr_field \<Rightarrow> u64 \<Rightarrow> dev_addr_constraint" where
  "to_range f add = \<lparr>start_addr = f, end_addr = field_from_u64 (field_val f + (add - 1))\<rparr>"

record eui_pair =
  eui_route_id :: string
  app_eui :: eui_field
  dev_eui :: eui_field

record skf =
  skf_route_id :: string
  skf_devaddr :: dev_addr_field
  session_key :: string
  max_copies :: u32

section \<open>NetIDs and their address blocks\<close>

datatype invalid_net_id = InvalidNetId u32

text \<open>Shifts of a \<open>u32\<close> by a \<open>u32\<close> mask the amount to five bits.\<close>

definition shl32 :: "u32 \<Rightarrow> u32 \<Rightarrow> u32" where
  "shl32 a n = push_bit (unat n mod 32) a"

definition shr32 :: "u32 \<Rightarrow> u32 \<Rightarrow> u32" where
  "shr32 a n = drop_bit (unat n mod 32) a"

definition net_id_type :: "net_id_field \<Rightarrow> u32" where
  "net_id_type f = drop_bit (24 - 3) (ucast (field_val f))"

definition nwk_id :: "net_id_field \<Rightarrow> u32" where
  "nwk_id f =
     (let prefix_length = net_id_type f + 1;
          temp = ucast (field_val f);
          temp = shl32 temp (prefix_length + 8)
      in shr32 temp (prefix_length + 8))"

definition devaddr_type_bits :: "u32 \<Rightarrow> invalid_net_id + u32" where
  "devaddr_type_bits id_type =
     (if id_type = 0 then Inr 0
      else if id_type = 1 then Inr (push_bit (32 - 2) 2)
      else if id_type = 2 then Inr (push_bit (32 - 3) 6)
      else if id_type = 3 then Inr (push_bit (32 - 4) 14)
      else if id_type = 4 then Inr (push_bit (32 - 5) 30)
      else if id_type = 5 then Inr (push_bit (32 - 6) 62)
      else if id_type = 6 then Inr (push_bit (32 - 7) 126)
      else if id_type = 7 then Inr (push_bit (32 - 8) 254)
      else Inl (InvalidNetId id_type))"

definition nwk_id_bits :: "u32 \<Rightarrow> u32 \<Rightarrow> invalid_net_id + u32" where
  "nwk_id_bits id_type nwk =
     (if id_type = 0 then Inr (push_bit 25 nwk)
      else if id_type = 1 then Inr (push_bit 24 nwk)
      else if id_type = 2 then Inr (push_bit 20 nwk)
      else if id_type = 3 then Inr (push_bit 17 nwk)
      else if id_type = 4 then Inr (push_bit 15 nwk)
      else if id_type = 5 then Inr (push_bit 13 nwk)
      else if id_type = 6 then Inr (push_bit 10 nwk)
      else if id_type = 7 then Inr (push_bit 7 nwk)
      else Inl (InvalidNetId id_type))"

definition max_nwk_addr_bit :: "u32 \<Rightarrow> invalid_net_id + u32" where
  "max_nwk_addr_bit id_type =
     (if id_type = 0 then Inr (2 ^ 25 - 1)
      else if id_type = 1 then Inr (2 ^ 24 - 1)
      else if id_type = 2 then Inr (2 ^ 20 - 1)
      else if id_type = 3 then Inr (2 ^ 17 - 1)
      else if id_type = 4 then Inr (2 ^ 15 - 1)
      else if id_type = 5 then Inr (2 ^ 13 - 1)
      else if id_type = 6 then Inr (2 ^ 10 - 1)
      else if id_type = 7 then Inr (2 ^ 7 - 1)
      else Inl (InvalidNetId id_type))"

definition range_start :: "net_id_field \<Rightarrow> invalid_net_id + dev_addr_field" where
  "range_start f =
     (let id_type = net_id_type f; nwk = nwk_id f
      in res_bind (devaddr_type_bits id_type) (\<lambda>left.
         res_bind (nwk_id_bits id_type nwk) (\<lambda>middle.
         Inr (devaddr (left OR middle)))))"

definition range_end :: "net_id_field \<Rightarrow> invalid_net_id + dev_addr_field" where
  "range_end f =
     (let id_type = net_id_type f; nwk = nwk_id f
      in res_bind (devaddr_type_bits id_type) (\<lambda>left.
         res_bind (nwk_id_bits id_type nwk) (\<lambda>middle.
         res_bind (max_nwk_addr_bit id_type) (\<lambda>right.
         Inr (devaddr ((left OR middle) OR right))))))"

definition full_range :: "net_id_field \<Rightarrow> invalid_net_id + dev_addr_constraint" where
  "full_range f =
     res_bind (range_start f) (\<lambda>s.
     res_bind (range_end f) (\<lambda>e.
     Inr \<lparr>start_addr = s, end_addr = e\<rparr>))"

definition leading_ones :: "u32 \<Rightarrow> nat" where
  "leading_ones w = length (takeWhile (bit w) (rev [0..<32]))"

definition to_net_id :: "dev_addr_field \<Rightarrow> invalid_net_id + net_id_field" where
  "to_net_id f =
     (let addr = ucast (field_val f) :: u32; n = leading_ones addr
      in if n = 0 then Inr (net_id (drop_bit 25 (addr AND 0b01111110000000000000000000000000)))
         else if n = 1 then
           Inr (net_id (drop_bit 24 (addr AND 0b00111111000000000000000000000000)
                        OR 0b001000000000000000000000))
         else if n = 2 then
           Inr (net_id (drop_bit 20 (addr AND 0b00011111111100000000000000000000)
                        OR 0b010000000000000000000000))
         else if n = 3 then
           Inr (net_id (drop_bit 17 (addr AND 0b00001111111111100000000000000000)
                        OR 0b011000000000000000000000))
         else if n = 4 then
           Inr (net_id (drop_bit 15 (addr AND 0b00000111111111111000000000000000)
                        OR 0b100000000000000000000000))
         else if n = 5 then
           Inr (net_id (drop_bit 13 (addr AND 0b00000011111111111110000000000000)
                        OR 0b101000000000000000000000))
         else if n = 6 then
           Inr (net_id (drop_bit 10 (addr AND 0b00000001111111111111110000000000)
                        OR 0b110000000000000000000000))
         else if n = 7 then
           Inr (net_id (drop_bit 7 (addr AND 0b00000000111111111111111110000000)
                        OR 0b111000000000000000000000))
         else Inl (InvalidNetId (of_nat n)))"

section \<open>Lemmas: leading ones and bit fields\<close>

lemma unat_less_32: "unat (a :: u32) < 2 ^ 32"
  using unsigned_less [of a] by simp

lemma leading_ones_bits:
  "t < 32 \<Longrightarrow>
   leading_ones a = t \<longleftrightarrow> (\<forall>i<t. bit a (31 - i)) \<and> \<not> bit a (31 - t)"
  by (simp add: leading_ones_def length_takeWhile_eq rev_nth)

lemma div_exp_step: "t < 32 \<Longrightarrow> a div 2 ^ (32 - t) = a div 2 ^ (31 - t) div (2::nat)"
proof -
  assume "t < 32"
  then have "32 - t = Suc (31 - t)" by arith
  then show ?thesis by (simp flip: div_mult2_eq add: mult.commute)
qed

lemma high_bits_div:
  fixes a :: u32
  assumes "t \<le> 32"
  shows "(\<forall>i<t. bit a (31 - i)) \<longleftrightarrow> unat a div 2 ^ (32 - t) = 2 ^ t - 1"
  using assms
proof (induction t)
  case 0
  then show ?case using unat_less_32 [of a] by simp
next
  case (Suc t)
  define q where "q = unat a div 2 ^ (31 - t)"
  have q2: "unat a div 2 ^ (32 - t) = q div 2"
    using Suc.prems by (simp add: q_def div_exp_step)
  have "(\<forall>i<Suc t. bit a (31 - i)) \<longleftrightarrow> (\<forall>i<t. bit a (31 - i)) \<and> bit a (31 - t)"
    by (auto simp: less_Suc_eq)
  also have "\<dots> \<longleftrightarrow> q div 2 = 2 ^ t - 1 \<and> odd q"
    using Suc by (simp add: q2 bit_unat_div q_def) 
  also have "\<dots> \<longleftrightarrow> q = 2 ^ Suc t - 1"
    by (cases "2 ^ t :: nat") (auto elim!: oddE)
  finally show ?case by (simp add: q_def)
qed

lemma leading_ones_iff:
  assumes "t < 32"
  shows "leading_ones a = t \<longleftrightarrow> unat a div 2 ^ (31 - t) = 2 ^ Suc t - 2"
proof -
  define q where "q = unat a div 2 ^ (31 - t)"
  have "leading_ones a = t \<longleftrightarrow> q div 2 = 2 ^ t - 1 \<and> even q"
    using assms high_bits_div [of t a] bit_unat_div [of a "31 - t"]
    by (simp only: leading_ones_bits q_def div_exp_step) simp
  also have "\<dots> \<longleftrightarrow> q = 2 ^ Suc t - 2"
    by (cases "2 ^ t :: nat") (auto elim!: evenE)
  finally show ?thesis by (simp add: q_def)
qed

lemma or_shifted_add:
  fixes y :: "'a::len word"
  assumes "unat y < 2 ^ p"
  shows "push_bit p c OR y = push_bit p c + y"
proof (rule or_disjoint_add)
  show "push_bit p c AND y = 0"
  proof (rule bit_word_eqI)
    fix n
    have "\<not> bit y n" if "p \<le> n"
      using assms that order_less_le_trans [OF assms power_increasing [OF that, of 2]]
      by (simp add: bit_unat_div)
    then show "bit (push_bit p c AND y) n \<longleftrightarrow> bit 0 n"
      by (auto simp: bit_simps)
  qed
qed

lemma unat_push_bit: "unat (push_bit k (x :: 'a::len word)) = unat x * 2 ^ k mod 2 ^ LENGTH('a)"
  by (simp only: unsigned_push_bit_eq) (simp add: push_bit_eq_mult take_bit_eq_mod)

lemma unat_block_or:
  fixes nwk :: u32
  assumes k: "unat nwk * 2 ^ k mod 2 ^ 32 = m * 2 ^ k" and m: "m < 2 ^ w"
    and len: "k + w + Suc t = 32" and c: "unat c < 2 ^ Suc t"
  shows "unat (push_bit (31 - t) c OR push_bit k nwk) = (unat c * 2 ^ w + m) * 2 ^ k"
proof -
  have p: "31 - t = k + w" using len by arith
  have mid: "unat (push_bit k nwk) = m * 2 ^ k" using k by (simp add: unat_push_bit)
  also have "\<dots> < 2 ^ (k + w)" using m by (simp add: power_add)
  finally have small: "unat (push_bit k nwk) < 2 ^ (31 - t)" by (simp add: p)
  have pow: "2 ^ Suc t * 2 ^ w * 2 ^ k = (2 :: nat) ^ 32"
    unfolding len [symmetric] by (simp add: power_add)
  have "unat c * 2 ^ (k + w) < 2 ^ Suc t * 2 ^ (k + w)" using c by simp
  also have "\<dots> = 2 ^ 32" using pow by (simp add: power_add ac_simps)
  finally have cs: "unat c * 2 ^ (k + w) < 2 ^ 32" .
  have left: "unat (push_bit (k + w) c) = unat c * 2 ^ (k + w)" using cs by (simp add: unat_push_bit)
  have "(unat c * 2 ^ w + m) * 2 ^ k < 2 ^ Suc t * 2 ^ w * 2 ^ k"
  proof -
    have "unat c * 2 ^ w + m < (unat c + 1) * 2 ^ w" using m by simp
    also have "\<dots> \<le> 2 ^ Suc t * 2 ^ w" using c by (intro mult_right_mono) auto
    finally show ?thesis by simp
  qed
  also note pow
  finally have lt: "(unat c * 2 ^ w + m) * 2 ^ k < 2 ^ 32" .
  have sum: "unat (push_bit (k + w) c) + unat (push_bit k nwk) = (unat c * 2 ^ w + m) * 2 ^ k"
    unfolding left mid power_add add_mult_distrib by (simp only: ac_simps)
  have "unat (push_bit (k + w) c + push_bit k nwk) = (unat c * 2 ^ w + m) * 2 ^ k"
    using unat_add_small [of "push_bit (k + w) c" "push_bit k nwk"] lt unfolding sum by simp
  then show ?thesis
    using or_shifted_add [OF small, of c] unfolding p by simp
qed

section \<open>Lemmas: address blocks\<close>

definition addr_bits :: "nat \<Rightarrow> nat" where
  "addr_bits t = [25, 24, 20, 17, 15, 13, 10, 7] ! t"

definition nwk_width :: "nat \<Rightarrow> nat" where
  "nwk_width t = [6, 6, 9, 11, 12, 13, 15, 17] ! t"

definition wf_net_id :: "net_id_field \<Rightarrow> bool" where
  "wf_net_id f \<longleftrightarrow>
     (let n = unat (field_val f); t = n div 2 ^ 21; m = n mod 2 ^ 21
      in n < 2 ^ 24 \<and> m < 2 ^ nwk_width t \<and> (t = 7 \<longrightarrow> m < 2 ^ 16))"

lemma type_cases:
  fixes t :: nat
  assumes "t < 8"
  obtains "t = 0" | "t = 1" | "t = 2" | "t = 3" | "t = 4" | "t = 5" | "t = 6" | "t = 7"
  using assms by linarith



lemma width_sum: "t < 8 \<Longrightarrow> addr_bits t + nwk_width t + Suc t = 32"
  by (erule type_cases) (simp_all add: addr_bits_def nwk_width_def numeral_2_eq_2 numeral_3_eq_3 nth_Cons')

lemma unat_ucast_32: "unat (ucast (v :: u64) :: u32) = unat v mod 2 ^ 32"
  by (simp add: unsigned_ucast_eq take_bit_eq_mod)

lemma unat_drop_bit: "unat (drop_bit n (w :: 'a::len word)) = unat w div 2 ^ n"
  by (simp only: unsigned_drop_bit_eq take_bit_nat_eq_self [OF unsigned_less]) (simp only: drop_bit_eq_div)

lemma unat_take_bit: "unat (take_bit n (w :: 'a::len word)) = unat w mod 2 ^ n"
  by (simp only: unsigned_take_bit_eq) (simp only: take_bit_eq_mod)

lemma unat_net_id_type:
  "unat (field_val f) < 2 ^ 24 \<Longrightarrow> unat (net_id_type f) = unat (field_val f) div 2 ^ 21"
  by (simp only: net_id_type_def unat_drop_bit unat_ucast_32) simp

lemma shift_out:
  "unat k < 32 \<Longrightarrow> unat (shr32 (shl32 x k) k) = unat x mod 2 ^ (32 - unat k)"
proof -
  assume k: "unat k < 32"
  have "shr32 (shl32 x k) k = take_bit (32 - unat k) x"
    using k by (intro bit_word_eqI) (auto simp: shr32_def shl32_def bit_simps)
  then show ?thesis by (simp only: unat_take_bit)
qed

lemma unat_nwk_id:
  assumes "unat (field_val f) < 2 ^ 24"
  shows "unat (nwk_id f) = unat (field_val f) mod 2 ^ (23 - unat (field_val f) div 2 ^ 21)"
proof -
  let ?t = "net_id_type f"
  have t: "unat ?t < 8" using assms by (simp add: unat_net_id_type less_mult_imp_div_less)
  have k: "unat (?t + 1 + 8) = unat ?t + 9" using t by (simp add: unat_word_ariths)
  have "unat (nwk_id f) = unat (ucast (field_val f) :: u32) mod 2 ^ (32 - (unat ?t + 9))"
    using t k by (simp add: nwk_id_def Let_def shift_out)
  then show ?thesis using assms by (simp add: unat_ucast_32 unat_net_id_type)
qed

lemma mod_drop_multiple: "c dvd a \<Longrightarrow> (a + m) mod c = m mod c" for a c m :: nat
  by (metis add.commute dvd_def mod_mult_self2)

lemma block_shift:
  fixes t m :: nat
  assumes "t < 8" and "m < 2 ^ nwk_width t" and "t = 7 \<longrightarrow> m < 2 ^ 16"
  shows "(t * 2 ^ 21 + m) mod 2 ^ (23 - t) * 2 ^ addr_bits t mod 2 ^ 32 = m * 2 ^ addr_bits t"
  by (rule type_cases [OF assms(1)]; insert assms(2,3);
      simp add: addr_bits_def nwk_width_def nth_Cons' mod_drop_multiple)

lemma range_start_block:
  assumes "wf_net_id f"
  defines "t \<equiv> unat (field_val f) div 2 ^ 21" and "m \<equiv> unat (field_val f) mod 2 ^ 21"
  obtains s e where "range_start f = Inr (devaddr s)" and "range_end f = Inr (devaddr e)"
    and "unat s = ((2 ^ Suc t - 2) * 2 ^ nwk_width t + m) * 2 ^ addr_bits t"
    and "e = s OR (2 ^ addr_bits t - 1)"
proof -
  let ?n = "unat (field_val f)"
  have n: "?n < 2 ^ 24" and m: "m < 2 ^ nwk_width t"
    and m7: "t = 7 \<Longrightarrow> m < 2 ^ 16"
    using assms by (simp_all add: wf_net_id_def Let_def)
  have t8: "t < 8" using n by (simp add: t_def less_mult_imp_div_less)
  have ty: "net_id_type f = of_nat t"
    using unat_net_id_type [OF n] by (metis t_def of_nat_unat ucast_id)
  have nw: "unat (nwk_id f) = ?n mod 2 ^ (23 - t)"
    using unat_nwk_id [OF n] by (simp add: t_def)
  have nt: "?n = t * 2 ^ 21 + m" by (simp add: t_def m_def)
  have mid: "unat (nwk_id f) * 2 ^ addr_bits t mod 2 ^ 32 = m * 2 ^ addr_bits t"
    unfolding nw nt using block_shift [OF t8 m] m7 by blast
  define c :: u32 where "c = of_nat (2 ^ Suc t - 2)"
  have c: "unat c = 2 ^ Suc t - 2"
    using t8 by (cases rule: type_cases) (simp_all add: c_def)
  have left: "devaddr_type_bits (net_id_type f) = Inr (push_bit (31 - t) c)"
    using t8 unfolding ty c_def by (cases rule: type_cases) (simp_all add: devaddr_type_bits_def)
  have middle: "nwk_id_bits (net_id_type f) (nwk_id f) = Inr (push_bit (addr_bits t) (nwk_id f))"
    using t8 unfolding ty
    by (cases rule: type_cases) (simp_all add: nwk_id_bits_def addr_bits_def nth_Cons')
  have right: "max_nwk_addr_bit (net_id_type f) = Inr (2 ^ addr_bits t - 1)"
    using t8 unfolding ty
    by (cases rule: type_cases) (simp_all add: max_nwk_addr_bit_def addr_bits_def nth_Cons')
  let ?s = "push_bit (31 - t) c OR push_bit (addr_bits t) (nwk_id f)"
  have "unat ?s = ((2 ^ Suc t - 2) * 2 ^ nwk_width t + m) * 2 ^ addr_bits t"
    using unat_block_or [OF mid m width_sum [OF t8], of c] by (simp add: c)
  moreover have "range_start f = Inr (devaddr ?s)"
    by (simp add: range_start_def left middle)
  moreover have "range_end f = Inr (devaddr (?s OR (2 ^ addr_bits t - 1)))"
    by (simp add: range_end_def left middle right or.assoc)
  ultimately show thesis
    by (rule that [OF _ _ _ refl, rotated 2])
qed

lemma field_val_devaddr: "unat (field_val (devaddr a)) = unat a"
  by (simp add: devaddr_def field_from_u32_def unsigned_ucast_eq take_bit_nat_eq_self
      order_less_trans [OF unsigned_less])

lemma range_end_unat:
  assumes "unat (s :: u32) = b * 2 ^ k" and "k \<le> 32" and "b < 2 ^ (32 - k)"
  shows "unat (s OR (2 ^ k - 1)) = b * 2 ^ k + (2 ^ k - 1)"
proof (cases "k = 32")
  case True
  with assms(3) have "b = 0" by simp
  with assms True have "s = 0" by (simp add: unat_eq_zero)
  with \<open>b = 0\<close> True show ?thesis by simp
next
  case False
  with assms(2) have k: "k < 32" by simp
  have "b * 2 ^ k < 2 ^ 32"
    using unat_less_32 [of s] assms(1) by simp
  note s32 = this
  have lt: "b * 2 ^ k + (2 ^ k - 1) < 2 ^ 32"
  proof -
    have "b * 2 ^ k + (2 ^ k - 1) < Suc b * 2 ^ k" by (cases "2 ^ k :: nat") auto
    also have "\<dots> \<le> 2 ^ (32 - k) * 2 ^ k" using assms(3) by (intro mult_right_mono) auto
    also have "\<dots> = 2 ^ 32" using k by (simp flip: power_add)
    finally show ?thesis .
  qed
  have "b < 2 ^ LENGTH(32)" using assms(3) by (rule order_less_le_trans) (rule power_increasing; simp)
  then have "s = push_bit k (of_nat b)"
    using assms(1) lt s32
    by (simp add: word_unat_eq_iff unat_push_bit unat_of_nat)
  moreover have p: "unat (2 ^ k :: u32) = 2 ^ k"
    using unat_of_nat [of "2 ^ k", where 'a = 32] k power_strict_increasing [OF k, of "2 :: nat"]
    by simp
  then have o: "unat (2 ^ k - 1 :: u32) = 2 ^ k - 1"
    by (subst unat_sub) (simp_all add: word_le_nat_alt)
  ultimately have "s OR (2 ^ k - 1) = s + (2 ^ k - 1)"
    using or_shifted_add [of "2 ^ k - 1 :: u32" k "of_nat b"] by simp
  then show ?thesis using unat_add_small [of s "2 ^ k - 1"] lt by (simp add: assms(1) o)
qed

lemma field_reads:
  fixes a :: u32
  shows
  "drop_bit 25 (a AND 0b01111110000000000000000000000000) = take_bit 6 (drop_bit 25 a)"
  "drop_bit 24 (a AND 0b00111111000000000000000000000000) = take_bit 6 (drop_bit 24 a)"
  "drop_bit 20 (a AND 0b00011111111100000000000000000000) = take_bit 9 (drop_bit 20 a)"
  "drop_bit 17 (a AND 0b00001111111111100000000000000000) = take_bit 11 (drop_bit 17 a)"
  "drop_bit 15 (a AND 0b00000111111111111000000000000000) = take_bit 12 (drop_bit 15 a)"
  "drop_bit 13 (a AND 0b00000011111111111110000000000000) = take_bit 13 (drop_bit 13 a)"
  "drop_bit 10 (a AND 0b00000001111111111111110000000000) = take_bit 15 (drop_bit 10 a)"
  "drop_bit 7 (a AND 0b00000000111111111111111110000000) = take_bit 17 (drop_bit 7 a)"
  by (simp_all add: mask_eq_exp_minus_1 flip: drop_bit_and_field)

lemma to_net_id_eq:
  assumes t: "leading_ones a = t" "t < 8"
  shows "to_net_id (devaddr a) =
    Inr (net_id (of_nat (t * 2 ^ 21 + unat a div 2 ^ addr_bits t mod 2 ^ nwk_width t)))"
proof -
  let ?x = "take_bit (nwk_width t) (drop_bit (addr_bits t) a)"
  let ?m = "unat a div 2 ^ addr_bits t mod 2 ^ nwk_width t"
  have val: "ucast (field_val (devaddr a)) = a" 
    by (rule bit_word_eqI) (simp add: devaddr_def field_from_u32_def bit_simps)
  have x: "unat ?x = ?m" by (simp only: unat_take_bit unat_drop_bit)
  have "to_net_id (devaddr a) = Inr (net_id (?x OR push_bit 21 (of_nat t)))"
    using t unfolding to_net_id_def Let_def val field_reads
    by (elim type_cases) (simp_all add: addr_bits_def nwk_width_def nth_Cons')
  moreover have "unat ?x < 2 ^ 21"
  proof -
    have "nwk_width t \<le> 21" using t(2) by (rule type_cases) (simp_all add: nwk_width_def nth_Cons')
    then show ?thesis unfolding x
      by (metis mod_less_divisor order_less_le_trans power_increasing_iff one_less_numeral_iff
          semiring_norm(76) zero_less_numeral zero_less_power)
  qed
  then have "?x OR push_bit 21 (of_nat t) = push_bit 21 (of_nat t) + ?x"
    by (subst or.commute) (rule or_shifted_add)
  moreover have "push_bit 21 (of_nat t) + ?x = of_nat (t * 2 ^ 21 + ?m)"
    by (simp add: push_bit_eq_mult flip: x) 
  ultimately show ?thesis by simp
qed

lemma block_div_iff:
  assumes "t < 8" and "m < 2 ^ nwk_width t"
  shows "unat a div 2 ^ addr_bits t = (2 ^ Suc t - 2) * 2 ^ nwk_width t + m \<longleftrightarrow>
    leading_ones a = t \<and> unat a div 2 ^ addr_bits t mod 2 ^ nwk_width t = m"
proof -
  let ?q = "unat a div 2 ^ addr_bits t"
  have "31 - t = addr_bits t + nwk_width t" using width_sum [OF assms(1)] by arith
  then have "leading_ones a = t \<longleftrightarrow> ?q div 2 ^ nwk_width t = 2 ^ Suc t - 2"
    using assms(1) by (simp add: leading_ones_iff power_add div_mult2_eq)
  moreover have "?q = c * 2 ^ nwk_width t + m \<longleftrightarrow>
      ?q div 2 ^ nwk_width t = c \<and> ?q mod 2 ^ nwk_width t = m" for c
    using assms(2) div_mult_mod_eq [of ?q "2 ^ nwk_width t"] by auto
  ultimately show ?thesis by blast
qed

lemma full_range_block:
  assumes "wf_net_id f"
  defines "t \<equiv> unat (field_val f) div 2 ^ 21" and "m \<equiv> unat (field_val f) mod 2 ^ 21"
  obtains c where "full_range f = Inr c"
    and "t < 8" and "m < 2 ^ nwk_width t"
    and "unat (field_val (start_addr c)) =
           ((2 ^ Suc t - 2) * 2 ^ nwk_width t + m) * 2 ^ addr_bits t"
    and "unat (field_val (end_addr c)) =
           ((2 ^ Suc t - 2) * 2 ^ nwk_width t + m) * 2 ^ addr_bits t + (2 ^ addr_bits t - 1)"
proof -
  let ?b = "(2 ^ Suc t - 2) * 2 ^ nwk_width t + m"
  have t8: "t < 8" and m: "m < 2 ^ nwk_width t"
    using assms by (auto simp: wf_net_id_def Let_def less_mult_imp_div_less)
  obtain s e where r: "range_start f = Inr (devaddr s)" "range_end f = Inr (devaddr e)"
    and s: "unat s = ?b * 2 ^ addr_bits t" and e: "e = s OR (2 ^ addr_bits t - 1)"
    using range_start_block [OF assms(1)] unfolding t_def m_def by blast
  have k: "addr_bits t \<le> 32" using width_sum [OF t8] by arith
  have "?b < 2 ^ (32 - addr_bits t)"
  proof -
    have "?b < (2 ^ Suc t - 2 + 1) * 2 ^ nwk_width t" using m by simp
    also have "\<dots> \<le> 2 ^ Suc t * 2 ^ nwk_width t"
      by (intro mult_right_mono) (cases "2 ^ t :: nat"; simp)+
    also have "\<dots> = 2 ^ (32 - addr_bits t)"
      using width_sum [OF t8] by (simp flip: power_add power_Suc)
    finally show ?thesis .
  qed
  then have "unat e = ?b * 2 ^ addr_bits t + (2 ^ addr_bits t - 1)"
    unfolding e by (rule range_end_unat [OF s k])
  then show thesis
    using that [of "\<lparr>start_addr = devaddr s, end_addr = devaddr e\<rparr>"] t8 m s
    by (simp add: full_range_def r field_val_devaddr)
qed

lemma block_range_iff:
  fixes A b k :: nat
  shows "b * 2 ^ k \<le> A \<and> A \<le> b * 2 ^ k + (2 ^ k - 1) \<longleftrightarrow> A div 2 ^ k = b"
proof
  assume "b * 2 ^ k \<le> A \<and> A \<le> b * 2 ^ k + (2 ^ k - 1)"
  then have "2 ^ k * b \<le> A" and "A < 2 ^ k * Suc b"
    by (cases "2 ^ k :: nat"; simp add: algebra_simps)+
  then show "A div 2 ^ k = b" by (rule div_nat_eqI)
next
  assume b: "A div 2 ^ k = b"
  have "A = b * 2 ^ k + A mod 2 ^ k" unfolding b [symmetric] by (rule div_mult_mod_eq [symmetric])
  moreover have "A mod 2 ^ k < 2 ^ k" by simp
  ultimately show "b * 2 ^ k \<le> A \<and> A \<le> b * 2 ^ k + (2 ^ k - 1)" by linarith
qed

lemma devaddr_of_small:
  assumes "unat (field_val a) < 2 ^ 32"
  obtains x where "a = devaddr x" and "unat x = unat (field_val a)"
proof -
  let ?x = "ucast (field_val a) :: u32"
  have x: "unat ?x = unat (field_val a)" using assms by (simp add: unat_ucast_32)
  then have "unat (field_val (devaddr ?x)) = unat (field_val a)" by (simp add: field_val_devaddr)
  then have "a = devaddr ?x" by (simp add: lora_field.expand word_unat_eq_iff)
  then show thesis using x by (rule that)
qed

lemma field_val_net_id: "unat (field_val (net_id x)) = unat x"
  using field_val_devaddr [of x] by (simp add: net_id_def devaddr_def)

lemma nwk_width_le: "t < 8 \<Longrightarrow> nwk_width t \<le> 17"
  by (erule type_cases) (simp_all add: nwk_width_def nth_Cons')

lemma nwk_mod_less: "t < 8 \<Longrightarrow> q mod 2 ^ nwk_width t < (2 :: nat) ^ 21"
  using nwk_width_le [of t]
  by (intro order_less_le_trans [OF mod_less_divisor power_increasing]) auto

lemma to_net_id_type:
  assumes "to_net_id (devaddr x) = Inr f"
  shows "leading_ones x < 8"
proof (rule ccontr)
  assume "\<not> leading_ones x < 8"
  moreover have "ucast (field_val (devaddr x)) = x"
    by (rule bit_word_eqI) (simp add: devaddr_def field_from_u32_def bit_simps)
  ultimately show False using assms by (simp add: to_net_id_def Let_def)
qed

lemma to_net_id_Inr_iff:
  "to_net_id (devaddr x) = Inr f \<longleftrightarrow>
   (let t = leading_ones x; m = unat x div 2 ^ addr_bits t mod 2 ^ nwk_width t
    in t < 8 \<and> unat (field_val f) = t * 2 ^ 21 + m)"
proof (cases "leading_ones x < 8")
  case True
  let ?t = "leading_ones x"
  let ?m = "unat x div 2 ^ addr_bits ?t mod 2 ^ nwk_width ?t"
  have "?t * 2 ^ 21 + ?m < 2 ^ 32"
    using True nwk_mod_less [OF True, of "unat x div 2 ^ addr_bits ?t"] by simp
  then have "unat (of_nat (?t * 2 ^ 21 + ?m) :: u32) = ?t * 2 ^ 21 + ?m"
    by (subst unat_of_nat) simp
  then show ?thesis
    using True by (auto simp: to_net_id_eq [OF refl True] Let_def lora_field.expand word_unat_eq_iff
        field_val_net_id)
next
  case False
  then show ?thesis using to_net_id_type by (auto simp: Let_def)
qed

lemma type_and_id_unique:
  fixes t m n :: nat
  assumes "m < 2 ^ 21"
  shows "n = t * 2 ^ 21 + m \<longleftrightarrow> t = n div 2 ^ 21 \<and> m = n mod 2 ^ 21"
  using assms by auto

lemma in_block_iff:
  assumes wf: "wf_net_id f" and c: "full_range f = Inr c" and a: "unat (field_val a) < 2 ^ 32"
  shows "field_le (start_addr c) a \<and> field_le a (end_addr c) \<longleftrightarrow> to_net_id a = Inr f"
proof -
  let ?n = "unat (field_val f)" let ?t = "?n div 2 ^ 21" and ?m = "?n mod 2 ^ 21"
  obtain x where x: "a = devaddr x" "unat x = unat (field_val a)"
    using devaddr_of_small [OF a] by blast
  let ?b = "(2 ^ Suc ?t - 2) * 2 ^ nwk_width ?t + ?m"
  have t8: "?t < 8" and m: "?m < 2 ^ nwk_width ?t"
    and s: "unat (field_val (start_addr c)) = ?b * 2 ^ addr_bits ?t"
    and e: "unat (field_val (end_addr c)) = ?b * 2 ^ addr_bits ?t + (2 ^ addr_bits ?t - 1)"
    using full_range_block [OF wf] c by auto
  have n: "?n = ?t * 2 ^ 21 + ?m" by simp
  have "field_le (start_addr c) a \<and> field_le a (end_addr c) \<longleftrightarrow> unat x div 2 ^ addr_bits ?t = ?b"
    unfolding field_le_def word_le_nat_alt s e x(2) by (rule block_range_iff)
  also have "\<dots> \<longleftrightarrow> leading_ones x = ?t \<and> unat x div 2 ^ addr_bits ?t mod 2 ^ nwk_width ?t = ?m"
    by (rule block_div_iff [OF t8 m])
  also have "\<dots> \<longleftrightarrow> to_net_id a = Inr f"
  proof (cases "leading_ones x < 8")
    case True
    note u = type_and_id_unique [OF nwk_mod_less [OF True]]
    show ?thesis
      using True unfolding x(1) to_net_id_Inr_iff Let_def u by metis
  next
    case False
    then show ?thesis using t8 to_net_id_type unfolding x(1) by metis
  qed
  finally show ?thesis .
qed

section \<open>Lemmas: printing and parsing\<close>

lemma to_digit16_hex_digit: "d < 16 \<Longrightarrow> to_digit16 (hex_digit d) = Some d"
  by (auto simp: Let_def of_char_of take_bit_nat_def)

lemma parse_digits16_append:
  "parse_digits16 acc (xs @ ys) = res_bind (parse_digits16 acc xs) (\<lambda>a. parse_digits16 a ys)"
  by (induction acc xs rule: parse_digits16.induct)
    (auto split: option.split simp del: to_digit16.simps)

lemma parse_zeros: "acc < 2 ^ 64 \<Longrightarrow> acc = 0 \<Longrightarrow> parse_digits16 acc (replicate n (CHR ''0'')) = Inr 0"
  by (induction n) (auto simp: Let_def)

lemma parse_to_hex: "n < 2 ^ 64 \<Longrightarrow> parse_digits16 0 (to_hex n) = Inr n"
proof (induction n rule: to_hex.induct)
  case (1 n)
  show ?case
  proof (cases "n < 16")
    case True
    then show ?thesis by (simp add: to_hex.simps [of n] to_digit16_hex_digit del: hex_digit.simps to_digit16.simps)
  next
    case False
    have "n mod 16 < 16" by simp
    note d = to_digit16_hex_digit [OF this]
    have "n div 16 < 2 ^ 64" using "1.prems" by simp
    with False "1.IH" have "parse_digits16 0 (to_hex (n div 16)) = Inr (n div 16)" by simp
    with False "1.prems" show ?thesis
      by (simp add: to_hex.simps [of n] parse_digits16_append d del: hex_digit.simps to_digit16.simps)
  qed
qed

lemma length_to_hex: "n < 16 ^ Suc k \<Longrightarrow> length (to_hex n) \<le> Suc k"
proof (induction k arbitrary: n)
  case 0
  then show ?case by (simp add: to_hex.simps [of n])
next
  case (Suc k)
  have "n div 16 < 16 ^ Suc k" using Suc.prems by (simp add: less_mult_imp_div_less mult.commute)
  from Suc.IH [OF this] show ?case by (simp add: to_hex.simps [of n])
qed

lemma to_hex_nonempty: "to_hex n \<noteq> []"
  by (simp add: to_hex.simps [of n])

lemma to_digit16_sign: "to_digit16 c \<noteq> None \<Longrightarrow> c \<notin> {CHR ''+'', CHR ''-'', CHR ''*''}"
  by auto

lemma set_to_hex: "c \<in> set (to_hex n) \<Longrightarrow> to_digit16 c \<noteq> None"
proof (induction n rule: to_hex.induct)
  case (1 n)
  have "to_digit16 (hex_digit (n mod 16)) \<noteq> None"
    using to_digit16_hex_digit [of "n mod 16"] by (simp del: hex_digit.simps to_digit16.simps)
  with 1 show ?case
    by (cases "n < 16")
      (auto simp: to_hex.simps [of n] to_digit16_hex_digit simp del: hex_digit.simps to_digit16.simps)
qed

section \<open>Lemmas: constraints\<close>

lemma even_word_iff: "w mod 2 = 0 \<longleftrightarrow> even (unat w)" for w :: u64
  by (simp add: word_unat_eq_iff unat_mod even_iff_mod_2_eq_zero)

lemma constraint_new_iff:
  "constraint_new s e = Inr c \<longleftrightarrow>
     c = \<lparr>start_addr = s, end_addr = e\<rparr> \<and> unat (field_val s) < unat (field_val e) \<and>
     even (unat (field_val s)) \<and> odd (unat (field_val e))"
  by (auto simp: constraint_new_def field_le_def word_le_nat_alt even_word_iff)

lemma full_range_wf:
  assumes "wf_net_id f" and c: "full_range f = Inr c"
  shows "constraint_new (start_addr c) (end_addr c) = Inr c"
proof (rule full_range_block [OF assms(1)])
  fix d
  let ?t = "unat (field_val f) div 2 ^ 21"
  let ?b = "(2 ^ Suc ?t - 2) * 2 ^ nwk_width ?t + unat (field_val f) mod 2 ^ 21"
  assume t: "?t < 8" and d: "full_range f = Inr d"
    "unat (field_val (start_addr d)) = ?b * 2 ^ addr_bits ?t"
    "unat (field_val (end_addr d)) = ?b * 2 ^ addr_bits ?t + (2 ^ addr_bits ?t - 1)"
  have "0 < addr_bits ?t" using t by (rule type_cases) (simp_all add: addr_bits_def nth_Cons')
  then obtain j where "addr_bits ?t = Suc j" by (cases "addr_bits ?t") auto
  then show ?thesis using c d by (cases "2 ^ j :: nat") (auto simp: constraint_new_iff)
qed

lemma full_range_end_less:
  assumes "full_range f = Inr c"
  shows "unat (field_val (end_addr c)) < 2 ^ 32"
  using assms unat_less_32
  by (auto simp: full_range_def range_end_def Let_def field_val_devaddr result_simps)

lemma rev_upt_32:
  "rev [0..<32] = [31, 30, 29, 28, 27, 26, 25, 24, 23, 22, 21, 20, 19, 18, 17, 16, 15, 14, 13,
     12, 11, 10, 9, 8, 7, 6, 5, 4, 3, 2, 1, 0 :: nat]"
  by (simp add: upt_conv_Cons)

section \<open>Properties\<close>

text \<open>C16: a NetID of the supported form owns a well-formed block of device addresses
  (\<open>full_range\<close> succeeds and its bounds pass \<open>DevAddrConstraint::new\<close>), and the
  32-bit addresses inside that block are exactly those that \<open>to_net_id\<close> maps to it.\<close>

theorem net_id_block_exact:
  assumes "wf_net_id f"
  shows "\<exists>c. full_range f = Inr c \<and> constraint_new (start_addr c) (end_addr c) = Inr c \<and>
    (\<forall>a. unat (field_val a) < 2 ^ 32 \<longrightarrow>
       (field_le (start_addr c) a \<and> field_le a (end_addr c) \<longleftrightarrow> to_net_id a = Inr f))"
proof -
  obtain c where "full_range f = Inr c" by (rule full_range_block [OF assms])
  then show ?thesis using full_range_wf [OF assms] in_block_iff [OF assms] by blast
qed

theorem net_id_block_exact_witness:
  "wf_net_id (net_id 0xc00053) \<and>
   (\<exists>c. full_range (net_id 0xc00053) = Inr c \<and> constraint_new (start_addr c) (end_addr c) = Inr c \<and>
    (field_le (start_addr c) (devaddr 0xfc014c00) \<and> field_le (devaddr 0xfc014c00) (end_addr c)
      \<longleftrightarrow> to_net_id (devaddr 0xfc014c00) = Inr (net_id 0xc00053)))"
proof -
  have wf: "wf_net_id (net_id 0xc00053)"
    by (simp add: wf_net_id_def field_val_net_id nwk_width_def)
  moreover have "unat (field_val (devaddr 0xfc014c00)) < 2 ^ 32" by (simp add: field_val_devaddr)
  ultimately show ?thesis using net_id_block_exact [OF wf] by blast
qed

text \<open>Distinct NetIDs of the supported form own disjoint blocks of device addresses.\<close>

theorem net_id_blocks_disjoint:
  assumes "wf_net_id f" and "wf_net_id g" and "f \<noteq> g"
    and "full_range f = Inr c" and "full_range g = Inr d"
  shows "\<not> (field_le (start_addr c) a \<and> field_le a (end_addr c) \<and>
             field_le (start_addr d) a \<and> field_le a (end_addr d))"
proof
  assume a: "field_le (start_addr c) a \<and> field_le a (end_addr c) \<and>
             field_le (start_addr d) a \<and> field_le a (end_addr d)"
  then have lt: "unat (field_val a) < 2 ^ 32"
    using full_range_end_less [OF assms(4)] by (simp add: field_le_def word_le_nat_alt)
  show False
    using a in_block_iff [OF assms(1,4) lt] in_block_iff [OF assms(2,5) lt] assms(3) by auto
qed

lemmas net_id_eval = full_range_def range_start_def range_end_def net_id_type_def nwk_id_def
  net_id_def devaddr_def field_from_u32_def shl32_def shr32_def devaddr_type_bits_def
  nwk_id_bits_def max_nwk_addr_bit_def

theorem net_id_blocks_disjoint_witness:
  "\<not> (field_le (devaddr 0xfc014c00) (devaddr 0xfc014c01) \<and>
       field_le (devaddr 0xfc014c01) (devaddr 0xfc014fff) \<and>
       field_le (devaddr 0x78000000) (devaddr 0xfc014c01) \<and>
       field_le (devaddr 0xfc014c01) (devaddr 0x79ffffff))"
proof -
  have wf: "wf_net_id (net_id 0xc00053)" "wf_net_id (net_id 0x00003c)"
    by (simp_all add: wf_net_id_def field_val_net_id nwk_width_def)
  have ne: "net_id 0xc00053 \<noteq> net_id 0x00003c"
    by (simp add: net_id_def field_from_u32_def)
  have c: "full_range (net_id 0xc00053) =
      Inr \<lparr>start_addr = devaddr 0xfc014c00, end_addr = devaddr 0xfc014fff\<rparr>"
    and d: "full_range (net_id 0x00003c) =
      Inr \<lparr>start_addr = devaddr 0x78000000, end_addr = devaddr 0x79ffffff\<rparr>"
    by (simp_all add: net_id_eval)
  from net_id_blocks_disjoint [OF wf ne c d, of "devaddr 0xfc014c01"] show ?thesis by simp
qed

text \<open>A field that fits in its width prints to a string that parses back to it.\<close>

theorem field_print_parse:
  assumes "unat (field_val f) < 16 ^ w" and "0 < w"
  shows "field_from_str w (field_fmt w f) = Inr f"
proof -
  let ?n = "unat (field_val f)"
  let ?s = "field_fmt w f"
  obtain k where w: "w = Suc k" using assms(2) by (cases w) auto
  have n64: "?n < 2 ^ 64" using unsigned_less [of "field_val f"] by simp
  have len: "length ?s = w"
    using length_to_hex [of ?n k] assms(1) w by (simp add: field_fmt_def Let_def)
  have zero: "to_digit16 (CHR ''0'') = Some 0" by simp
  have "to_digit16 c \<noteq> None" if "c \<in> set ?s" for c
    using that set_to_hex [of c ?n] zero by (auto simp: field_fmt_def Let_def simp del: to_digit16.simps)
  then have "c \<notin> {CHR ''+'', CHR ''-'', CHR ''*''}" if "c \<in> set ?s" for c
    using that to_digit16_sign by blast
  moreover have ne: "?s \<noteq> []" using len assms(2) by auto
  ultimately have "hd ?s \<noteq> CHR ''+''" and "?s \<noteq> ''*''" and "?s \<noteq> ''+''" and "?s \<noteq> ''-''"
    by (metis hd_in_set insertCI list.set_intros(1))+
  moreover have "parse_digits16 0 ?s = Inr ?n"
    by (simp add: field_fmt_def Let_def parse_digits16_append parse_zeros parse_to_hex [OF n64])
  ultimately show ?thesis
    using ne len by (simp add: field_from_str_def verify_len_def u64_from_str_radix16_def of_nat_unat ucast_id)
qed

theorem field_print_parse_witness:
  "field_from_str 6 (field_fmt 6 (net_id 0xc00053)) = Inr (net_id 0xc00053)"
  by (rule field_print_parse) (simp_all add: field_val_net_id)

text \<open>The restriction of \<^const>\<open>wf_net_id\<close> on type 7 is needed: \<open>nwk_id\<close> clears
  \<open>net_id_type + 1\<close> bits of the NetID although its type field has three, so bit 16 of
  a type 7 identifier is lost and two NetIDs share one block; the address that
  \<open>to_net_id\<close> maps to the second one lies outside it. For type 1 the same
  computation leaves a type bit in the identifier.\<close>

theorem type7_net_ids_collide:
  "net_id 0xe00040 \<noteq> net_id 0xe10040 \<and>
   full_range (net_id 0xe00040) = full_range (net_id 0xe10040) \<and>
   full_range (net_id 0xe10040) =
     Inr \<lparr>start_addr = devaddr 0xfe002000, end_addr = devaddr 0xfe00207f\<rparr> \<and>
   to_net_id (devaddr 0xfe802000) = Inr (net_id 0xe10040) \<and>
   nwk_id (net_id 0x200001) = 0x200001"
  by (simp add: net_id_eval to_net_id_def leading_ones_def rev_upt_32)

end
