(* ===== verification/Helium_Netids.thy ===== *)
theory Helium_Netids
  imports Lora_Field
begin

text \<open>
  The allocation of Helium device addresses
  (\<^verbatim>\<open>src/iot_config/src/helium_netids.rs\<close>): the three Helium NetIDs with their address
  ranges, the store of used addresses, the checkout of a number of free addresses or of
  a requested block, and the grouping of the claimed addresses into constraints.

  The trait \<open>AddressStore\<close> is the locale \<open>address_store\<close>; the checkout
  functions take its operations as arguments, as the source is generic over it. The
  implementation over the table \<open>helium_used_devaddrs\<close> is the list of its rows
  and interprets the locale. The lemmas show that a checkout claims exactly the lowest
  free addresses of the range, fails only when there are too few, and that the
  constraints it returns cover exactly the claimed addresses whenever the used
  addresses come in even-odd pairs, which the checkout preserves.
\<close>

section \<open>Helium NetIDs\<close>

datatype helium_net_id = Type0_0x00003c | Type3_0x60002d | Type6_0xc00053

abbreviation TYPE_0_ID :: net_id_field where "TYPE_0_ID \<equiv> LoraField 0x00003c"
abbreviation TYPE_3_ID :: net_id_field where "TYPE_3_ID \<equiv> LoraField 0x60002d"
abbreviation TYPE_6_ID :: net_id_field where "TYPE_6_ID \<equiv> LoraField 0xc00053"

fun helium_id :: "helium_net_id \<Rightarrow> net_id_field" where
  "helium_id Type0_0x00003c = TYPE_0_ID"
| "helium_id Type3_0x60002d = TYPE_3_ID"
| "helium_id Type6_0xc00053 = TYPE_6_ID"

fun addr_range :: "helium_net_id \<Rightarrow> u32 \<times> u32" where
  "addr_range Type0_0x00003c = (2013265920, 2046820351)"
| "addr_range Type3_0x60002d = (3763994624, 3764125695)"
| "addr_range Type6_0xc00053 = (4227943424, 4227944447)"

definition helium_try_from :: "net_id_field \<Rightarrow> string + helium_net_id" where
  "helium_try_from field =
     (if field = TYPE_0_ID then Inr Type0_0x00003c
      else if field = TYPE_3_ID then Inr Type3_0x60002d
      else if field = TYPE_6_ID then Inr Type6_0xc00053
      else Inl ''not a helium id'')"

definition is_helium_netid :: "net_id_field \<Rightarrow> bool" where
  "is_helium_netid f \<longleftrightarrow> f \<in> set [TYPE_0_ID, TYPE_3_ID, TYPE_6_ID]"

section \<open>The table of used addresses\<close>

text \<open>A row of \<open>helium_used_devaddrs\<close> is a device address and its NetID, both
  stored as \<open>int\<close>; the address is the primary key. An insert without rows is not a
  valid statement.\<close>

type_synonym used_devaddrs = "(i32 \<times> i32) list"

definition pg_get_used_addrs :: "used_devaddrs \<Rightarrow> helium_net_id \<Rightarrow> sqlx_error + u32 list" where
  "pg_get_used_addrs db nid =
     Inr (sort_key sint (map fst (filter (\<lambda>(_, n). n = field_into_i32 (helium_id nid)) db)))"

definition pg_claim_addrs ::
  "used_devaddrs \<Rightarrow> helium_net_id \<Rightarrow> u32 list \<Rightarrow> sqlx_error + used_devaddrs" where
  "pg_claim_addrs db nid new_addrs =
     (if new_addrs = [] then Inl EmptyValues
      else if distinct new_addrs \<and> set new_addrs \<inter> fst ` set db = {}
      then Inr (db @ map (\<lambda>a. (a, field_into_i32 (helium_id nid))) new_addrs)
      else Inl UniqueViolation)"

definition pg_release_addrs ::
  "used_devaddrs \<Rightarrow> helium_net_id \<Rightarrow> u32 list \<Rightarrow> sqlx_error + used_devaddrs" where
  "pg_release_addrs db nid released =
     (if released = [] then Inl EmptyValues
      else Inr (filter (\<lambda>(a, n). \<not> (a \<in> set released \<and> n = field_into_i32 (helium_id nid))) db))"

section \<open>Checkout\<close>

datatype constraints_build_error =
  StartAddr | EndAddr | InvalidConstraint dev_addr_range_error

datatype 'e dev_addr_constraints_error =
  AddressStore 'e
| NoAvailableAddrs
| InvalidConstraints constraints_build_error
| ConstraintAddrInUse "u32 list"

text \<open>The inclusive range \<open>s..=e\<close>.\<close>

definition range32 :: "u32 \<Rightarrow> u32 \<Rightarrow> u32 list" where
  "range32 s e = map of_nat [unat s..<Suc (unat e)]"

text \<open>The body of the loop over the addresses, with the state
  \<open>(constraints, start_addr, end_addr)\<close>.\<close>

fun constraints_loop ::
  "dev_addr_constraint list \<Rightarrow> u32 option \<Rightarrow> u32 option \<Rightarrow> u32 list \<Rightarrow>
   constraints_build_error + (dev_addr_constraint list \<times> u32 option \<times> u32 option)" where
  "constraints_loop cs s e [] = Inr (cs, s, e)"
| "constraints_loop cs None None (a # as) = constraints_loop cs (Some a) None as"
| "constraints_loop cs (Some s) None (a # as) = constraints_loop cs (Some s) (Some a) as"
| "constraints_loop cs (Some s) (Some e) (a # as) =
     (if a = e + 1 then constraints_loop cs (Some s) (Some a) as
      else if a > e + 1 then
        res_bind (map_err InvalidConstraint (constraint_new (devaddr s) (devaddr e)))
          (\<lambda>c. constraints_loop (cs @ [c]) (Some a) None as)
      else Inl EndAddr)"
| "constraints_loop cs None (Some e) (a # as) = Inl StartAddr"

definition constraints_from_addrs ::
  "u32 list \<Rightarrow> constraints_build_error + dev_addr_constraint list" where
  "constraints_from_addrs addrs =
     res_bind (constraints_loop [] None None addrs)
       (\<lambda>(cs, s, e). case (s, e) of
          (Some s, Some e) \<Rightarrow>
            res_bind (map_err InvalidConstraint (constraint_new (devaddr s) (devaddr e)))
              (\<lambda>c. Inr (cs @ [c]))
        | _ \<Rightarrow> Inl EndAddr)"

text \<open>The loop that extends the claimed addresses past the last used one.\<close>

function claim_next :: "nat \<Rightarrow> u32 \<Rightarrow> u32 \<Rightarrow> u32 list \<Rightarrow> u32 list option" where
  "claim_next count r_end next_addr claimed =
     (if length claimed < count then
        (if next_addr \<le> r_end
         then claim_next count r_end (next_addr + 1) (claimed @ [next_addr])
         else None)
      else Some claimed)"
  by pat_completeness auto
termination
  by (relation "measure (\<lambda>(count, _, _, claimed). count - length claimed)") auto

declare claim_next.simps [simp del]

definition select_addrs :: "helium_net_id \<Rightarrow> u32 list \<Rightarrow> u64 \<Rightarrow> u32 list option" where
  "select_addrs nid used_addrs count =
     (let r_start = fst (addr_range nid);
          r_end = snd (addr_range nid);
          last_used = (if used_addrs = [] then r_start else last used_addrs);
          available_diff = filter (\<lambda>a. a \<notin> set used_addrs) (range32 r_start last_used);
          claimed = take (min (unat count) (length available_diff)) available_diff
      in claim_next (unat count) r_end (last_used + 1) claimed)"

definition checkout_devaddr_constraints ::
  "('s \<Rightarrow> helium_net_id \<Rightarrow> 'e + u32 list) \<Rightarrow> ('s \<Rightarrow> helium_net_id \<Rightarrow> u32 list \<Rightarrow> 'e + 's) \<Rightarrow>
   's \<Rightarrow> u64 \<Rightarrow> helium_net_id \<Rightarrow>
   'e dev_addr_constraints_error + ('s \<times> dev_addr_constraint list)" where
  "checkout_devaddr_constraints get_used claim st count nid =
     res_bind (map_err AddressStore (get_used st nid)) (\<lambda>used_addrs.
     res_bind (ok_or NoAvailableAddrs (select_addrs nid used_addrs count)) (\<lambda>claimed_addrs.
     res_bind (map_err AddressStore (claim st nid claimed_addrs)) (\<lambda>st'.
     res_bind (map_err InvalidConstraints (constraints_from_addrs claimed_addrs)) (\<lambda>cs.
     Inr (st', cs)))))"

definition checkout_specified_devaddr_constraint ::
  "('s \<Rightarrow> helium_net_id \<Rightarrow> 'e + u32 list) \<Rightarrow> ('s \<Rightarrow> helium_net_id \<Rightarrow> u32 list \<Rightarrow> 'e + 's) \<Rightarrow>
   's \<Rightarrow> helium_net_id \<Rightarrow> dev_addr_constraint \<Rightarrow> 'e dev_addr_constraints_error + 's" where
  "checkout_specified_devaddr_constraint get_used claim st nid requested =
     res_bind (map_err AddressStore (get_used st nid)) (\<lambda>used_addrs.
       let request_addrs =
             range32 (field_into_u32 (start_addr requested)) (field_into_u32 (end_addr requested))
       in if list_ex (\<lambda>a. a \<in> set used_addrs) request_addrs
          then Inl (ConstraintAddrInUse request_addrs)
          else map_err AddressStore (claim st nid request_addrs))"

section \<open>The free addresses of a range\<close>

definition free_addrs :: "helium_net_id \<Rightarrow> u32 set \<Rightarrow> u32 list" where
  "free_addrs nid used =
     filter (\<lambda>a. a \<notin> used) (range32 (fst (addr_range nid)) (snd (addr_range nid)))"

definition in_range :: "helium_net_id \<Rightarrow> u32 set" where
  "in_range nid = {fst (addr_range nid)..snd (addr_range nid)}"

lemma set_range32: "set (range32 s e) = {s..e}"
proof -
  have "x \<in> of_nat ` {unat s..unat e}" if "s \<le> x" "x \<le> e" for x
    using that by (intro image_eqI [of _ _ "unat x"]) (auto simp: word_le_nat_alt)
  moreover have "s \<le> of_nat n \<and> (of_nat n :: u32) \<le> e" if "unat s \<le> n" "n \<le> unat e" for n
  proof -
    have "n < 2 ^ 32" using that unat_less_32 [of e] by simp
    then have "unat (of_nat n :: u32) = n" by (simp add: unat_of_nat)
    then show ?thesis using that by (simp add: word_le_nat_alt)
  qed
  ultimately show ?thesis
    unfolding range32_def set_map set_upt atLeastLessThanSuc_atLeastAtMost by auto
qed

lemma map_unat_range32: "map unat (range32 s e) = [unat s..<Suc (unat e)]"
proof -
  have "unat (of_nat n :: u32) = n" if "n \<le> unat e" for n
    using that unat_less_32 [of e] by (simp add: unat_of_nat)
  then show ?thesis unfolding range32_def map_map by (intro map_idI) auto
qed

lemma range32_split:
  assumes "unat s \<le> Suc (unat m)" "unat m \<le> unat e"
  shows "range32 s e = range32 s m @ map of_nat [Suc (unat m)..<Suc (unat e)]"
  using assms upt_add_eq_append [of "unat s" "Suc (unat m)" "unat e - unat m"]
  by (simp add: range32_def flip: map_append)

lemma distinct_range32: "distinct (range32 s e)"
  by (rule distinct_map [THEN iffD1, THEN conjunct1, of unat]) (simp add: map_unat_range32 del: upt_Suc)

lemma claim_next_eq:
  assumes "unat n \<le> Suc (unat e)" "unat e < 2 ^ 32 - 1" "length cl \<le> c"
  shows "claim_next c e n cl =
    (let all = cl @ map of_nat [unat n..<Suc (unat e)]
     in if c \<le> length all then Some (take c all) else None)"
  using assms
proof (induction c e n cl rule: claim_next.induct)
  case (1 c e n cl)
  show ?case
  proof (cases "length cl < c \<and> n \<le> e")
    case True
    then have nle: "unat n \<le> unat e" by (simp add: word_le_nat_alt)
    then have u: "unat (n + 1) = Suc (unat n)"
      using "1.prems" unat_add_small [of n 1] by simp
    have upt: "map of_nat [unat n..<Suc (unat e)] = n # map of_nat [unat (n + 1)..<Suc (unat e)]"
      using nle unfolding u by (simp add: upt_conv_Cons del: upt_Suc)
    have "claim_next c e n cl = claim_next c e (n + 1) (cl @ [n])"
      using True by (simp add: claim_next.simps [of c e n cl])
    also have "\<dots> = (let all = (cl @ [n]) @ map of_nat [unat (n + 1)..<Suc (unat e)]
        in if c \<le> length all then Some (take c all) else None)"
      using True nle "1.prems" by (intro "1.IH") (auto simp: u)
    finally show ?thesis unfolding upt by (simp only: append.simps append_assoc)
  next
    case False
    then consider "length cl = c" | "length cl < c" "\<not> n \<le> e" using "1.prems" by linarith
    then show ?thesis
    proof cases
      case 1
      then show ?thesis by (subst claim_next.simps) (simp add: Let_def)
    next
      case 2
      then have "unat n = Suc (unat e)" using "1.prems" by (simp add: word_le_nat_alt)
      then show ?thesis using 2 by (subst claim_next.simps) (simp add: Let_def)
    qed
  qed
qed

lemma sorted_map_le_last: "sorted (map f us) \<Longrightarrow> a \<in> set us \<Longrightarrow> f a \<le> f (last us)"
  by (induction us) auto

lemma addr_range_bounds:
  "unat (fst (addr_range nid)) \<le> unat (snd (addr_range nid))"
  "unat (snd (addr_range nid)) < 2 ^ 32 - 1"
  by (cases nid; simp)+

lemma select_addrs_eq:
  assumes srt: "sorted (map unat us)" and sub: "set us \<subseteq> in_range nid"
  shows "select_addrs nid us count =
    (if unat count \<le> length (free_addrs nid (set us))
     then Some (take (unat count) (free_addrs nid (set us))) else None)"
proof -
  define s e where "s = fst (addr_range nid)" and "e = snd (addr_range nid)"
  define l where "l = (if us = [] then s else last us)"
  define av where "av = filter (\<lambda>a. a \<notin> set us) (range32 s l)"
  have se: "unat s \<le> unat e" "unat e < 2 ^ 32 - 1" using addr_range_bounds [of nid] by (simp_all add: s_def e_def)
  have l: "unat s \<le> unat l" "unat l \<le> unat e"
    using subsetD [OF sub last_in_set] se
    by (auto simp: l_def in_range_def word_le_nat_alt simp flip: s_def e_def)
  have l1: "unat (l + 1) = Suc (unat l)" using l se unat_add_small [of l 1] by simp
  have lmax: "unat a \<le> unat l" if "a \<in> set us" for a
    using sorted_map_le_last [OF srt that] that by (auto simp: l_def)
  have "(of_nat n :: u32) \<notin> set us" if "Suc (unat l) \<le> n" "n \<le> unat e" for n
  proof
    assume "(of_nat n :: u32) \<in> set us"
    moreover have "unat (of_nat n :: u32) = n" using that se by (simp add: unat_of_nat)
    ultimately show False using lmax that(1) by fastforce
  qed
  then have tl: "filter (\<lambda>a. a \<notin> set us) (map of_nat [Suc (unat l)..<Suc (unat e)]) = map of_nat [Suc (unat l)..<Suc (unat e)]"
    unfolding filter_id_conv by (simp del: upt_Suc)
  have free: "free_addrs nid (set us) = av @ map of_nat [unat (l + 1)..<Suc (unat e)]"
    using l by (simp add: free_addrs_def av_def l1 range32_split [of s l e] tl flip: s_def e_def del: upt_Suc)
  have c: "unat (l + 1) \<le> Suc (unat e)" "length (take (min (unat count) (length av)) av) \<le> unat count"
    using l by (simp_all add: l1)
  have "select_addrs nid us count =
      claim_next (unat count) e (l + 1) (take (min (unat count) (length av)) av)"
    by (simp add: select_addrs_def Let_def s_def e_def l_def av_def)
  also have "\<dots> = (if unat count \<le> length (free_addrs nid (set us))
     then Some (take (unat count) (free_addrs nid (set us))) else None)"
    unfolding free using claim_next_eq [OF c(1) se(2) c(2)]
    by (simp add: Let_def min_def del: upt_Suc)
  finally show ?thesis .
qed

section \<open>Even-odd pairs of addresses\<close>

definition paired :: "u32 set \<Rightarrow> bool" where
  "paired used \<longleftrightarrow> (\<forall>a. even a \<longrightarrow> (a \<in> used \<longleftrightarrow> a + 1 \<in> used))"

definition pairs :: "u32 list \<Rightarrow> u32 list" where
  "pairs ss = concat (map (\<lambda>s. [s, s + 1]) ss)"

definition constraint_addrs :: "dev_addr_constraint \<Rightarrow> u32 set" where
  "constraint_addrs c = {field_into_u32 (start_addr c)..field_into_u32 (end_addr c)}"

definition wf_constraint :: "dev_addr_constraint \<Rightarrow> bool" where
  "wf_constraint c \<longleftrightarrow> even (field_into_u32 (start_addr c)) \<and> odd (field_into_u32 (end_addr c)) \<and>
     field_into_u32 (start_addr c) < field_into_u32 (end_addr c)"

lemma pairs_simps [simp]: "pairs [] = []" "pairs (s # ss) = s # (s + 1) # pairs ss"
  by (simp_all add: pairs_def)

lemma set_pairs: "set (pairs ss) = set ss \<union> (\<lambda>s. s + 1) ` set ss"
  by (induction ss) auto

lemma take_pairs: "take (2 * k) (pairs ss) = pairs (take k ss)"
proof (induction k arbitrary: ss)
  case (Suc k)
  then show ?case by (cases ss) auto
qed simp

lemma length_pairs [simp]: "length (pairs ss) = 2 * length ss"
  by (induction ss) auto

lemma filter_pairs:
  assumes "paired used" "\<forall>s\<in>set ss. even s"
  shows "filter (\<lambda>a. a \<notin> used) (pairs ss) = pairs (filter (\<lambda>a. a \<notin> used) ss)"
  using assms(2)
proof (induction ss)
  case (Cons s ss)
  then show ?case using assms(1) by (auto simp: paired_def)
qed simp

lemma upt_pairs: "[a..<a + 2 * n] = concat (map (\<lambda>i. [a + 2 * i, Suc (a + 2 * i)]) [0..<n])"
  by (induction n) (auto simp: upt_rec [of "a + 2 * _"])

lemma even_unat_iff: "even (unat w) \<longleftrightarrow> even w" for w :: u32
  using bit_0 [of w] bit_0 [of "unat w"] by (simp add: bit_unsigned_iff)

lemma range32_pairs:
  assumes "even s" "odd e" "unat s \<le> unat e"
  obtains ss where "range32 s e = pairs ss" "\<forall>x\<in>set ss. even x" "distinct ss" "sorted (map unat ss)"
proof -
  define n where "n = (Suc (unat e) - unat s) div 2"
  define ss where "ss = map (\<lambda>i. of_nat (unat s + 2 * i) :: u32) [0..<n]"
  have ev: "even (unat s)" "odd (unat e)" using assms by (simp_all add: even_unat_iff)
  then have n: "Suc (unat e) = unat s + 2 * n" using assms(3) unfolding n_def by (auto elim!: evenE oddE)
  have "range32 s e = pairs ss"
    unfolding range32_def n upt_pairs pairs_def ss_def
    by (simp add: map_concat comp_def add.commute)
  moreover have u: "unat (of_nat (unat s + 2 * i) :: u32) = unat s + 2 * i" if "i < n" for i
    using that n unat_less_32 [of e] by (simp add: unat_of_nat del: of_nat_add)
  moreover have "map unat ss = map (\<lambda>i. unat s + 2 * i) [0..<n]"
    using u by (simp add: ss_def del: of_nat_add)
  then have "sorted (map unat ss)" "distinct (map unat ss)"
    by (simp_all add: sorted_iff_nth_mono distinct_map inj_on_def)
  moreover have "\<forall>x\<in>set ss. even x"
    using assms(1) by (auto simp: ss_def)
  ultimately show thesis using that [of ss] by (simp add: distinct_map)
qed

lemma devaddr_u32 [simp]: "field_into_u32 (devaddr a) = a"
  unfolding field_into_u32_def devaddr_def field_from_u32_def
  by (rule bit_word_eqI) (simp add: bit_simps)

lemma constraint_new_devaddr:
  assumes "even s" "odd e" "s < e"
  shows "constraint_new (devaddr s) (devaddr e) = Inr \<lparr>start_addr = devaddr s, end_addr = devaddr e\<rparr>"
  using assms unfolding constraint_new_iff field_val_devaddr even_unat_iff by (simp add: word_less_nat_alt)

text \<open>The addresses covered by the loop's state.\<close>

definition covered :: "dev_addr_constraint list \<Rightarrow> u32 set" where
  "covered cs = \<Union> (constraint_addrs ` set cs)"

lemma odd_less_even_succ:
  assumes "odd e" "even x" "e < (x :: u32)"
  shows "unat (e + 1) = Suc (unat e)" "e + 1 \<le> x" 
proof -
  have "unat e < unat x" using assms by (simp add: word_less_nat_alt)
  then show u: "unat (e + 1) = Suc (unat e)"
    using unat_less_32 [of x] unat_add_small [of e 1] by simp
  with \<open>unat e < unat x\<close> show "e + 1 \<le> x" by (simp add: word_le_nat_alt)
qed

lemma even_succ:
  assumes "even (s :: u32)"
  shows "unat (s + 1) = Suc (unat s)" "s < s + 1" "odd (s + 1)"
proof -
  have "unat s \<noteq> 2 ^ 32 - 1" using assms even_unat_iff [of s] by auto
  with unat_less_32 [of s] show u: "unat (s + 1) = Suc (unat s)"
    using unat_add_small [of s 1] by simp
  then show "s < s + 1" by (simp add: word_less_nat_alt)
  show "odd (s + 1)" using assms by simp
qed

lemma interval_extend:
  assumes "s \<le> e" "unat (e + 1) = Suc (unat e)" "unat (e + 1 + 1) = Suc (Suc (unat e))"
  shows "{s..e + 1 + 1} = {s..e} \<union> {e + 1, e + 1 + 1 :: u32}"
  using assms by (auto simp: word_le_nat_alt word_unat_eq_iff)

lemma interval_pair:
  assumes "even (x :: u32)" shows "{x..x + 1} = {x, x + 1}"
  using even_succ [OF assms] by (auto simp: word_le_nat_alt word_unat_eq_iff)

lemma covered_snoc: "covered (cs @ [c]) = covered cs \<union> constraint_addrs c"
  by (auto simp: covered_def)

lemma constraints_loop_pairs:
  assumes "even s" "odd e" "s < e" "\<forall>x\<in>set ss. even x \<and> e < x" "sorted (map unat ss)" "distinct ss"
    and "\<forall>c\<in>set cs. wf_constraint c"
  shows "\<exists>cs' s' e'. constraints_loop cs (Some s) (Some e) (pairs ss) = Inr (cs', Some s', Some e') \<and>
    even s' \<and> odd e' \<and> s' < e' \<and> (\<forall>c\<in>set cs'. wf_constraint c) \<and>
    covered cs' \<union> {s'..e'} = covered cs \<union> {s..e} \<union> set (pairs ss)"
  using assms
proof (induction ss arbitrary: cs s e)
  case (Cons x ss)
  have lt: "x < y" if "y \<in> set ss" for y
  proof -
    have "unat x \<le> unat y" "x \<noteq> y" using that Cons.prems(5,6) by auto
    then show ?thesis unfolding word_less_nat_alt word_unat_eq_iff by linarith
  qed
  have x: "even x" "e < x" "\<forall>y\<in>set ss. even y \<and> x < y" using Cons.prems(4) lt by auto
  note e1 = odd_less_even_succ [OF \<open>odd e\<close> x(1,2)] and x1 = even_succ [OF x(1)]
  have after: "\<forall>y\<in>set ss. even y \<and> x + 1 < y"
  proof
    fix y assume "y \<in> set ss"
    then have "even y" "x < y" using x by auto
    then have "x + 1 \<noteq> y" "Suc (unat x) \<le> unat y" using x1(3) by (auto simp: word_less_nat_alt)
    then show "even y \<and> x + 1 < y" using \<open>even y\<close> x1(1) by (auto simp: word_less_nat_alt word_unat_eq_iff)
  qed
  show ?case
  proof (cases "x = e + 1")
    case True
    have eq: "constraints_loop cs (Some s) (Some e) (pairs (x # ss)) = constraints_loop cs (Some s) (Some (x + 1)) (pairs ss)"
      using True by simp
    have "{s..x + 1} = {s..e} \<union> {x, x + 1}"
      using interval_extend [of s e] e1 x1 \<open>s < e\<close> unfolding True by simp
    moreover have "s < x + 1" using \<open>s < e\<close> x x1 by (auto simp: word_less_nat_alt)
    ultimately show ?thesis
      unfolding eq using Cons.IH [of s "x + 1" cs] Cons.prems x1 after by (simp add: Un_ac insert_commute)
  next
    case False
    let ?c = "\<lparr>start_addr = devaddr s, end_addr = devaddr e\<rparr>"
    have eq: "constraints_loop cs (Some s) (Some e) (pairs (x # ss)) = constraints_loop (cs @ [?c]) (Some x) (Some (x + 1)) (pairs ss)"
      using False e1(2) constraint_new_devaddr [of s e] Cons.prems by simp
    have "wf_constraint ?c" using Cons.prems by (simp add: wf_constraint_def)
    moreover note interval_pair [OF x(1)]
    moreover have "covered (cs @ [?c]) = covered cs \<union> {s..e}"
      by (simp add: covered_snoc constraint_addrs_def)
    ultimately show ?thesis
      unfolding eq using Cons.IH [of x "x + 1" "cs @ [?c]"] Cons.prems x1 x after by (simp add: Un_ac)
  qed
qed (auto)

lemma constraints_from_pairs:
  assumes "ss \<noteq> []" "\<forall>x\<in>set ss. even x" "sorted (map unat ss)" "distinct ss"
  shows "\<exists>cs. constraints_from_addrs (pairs ss) = Inr cs \<and> (\<forall>c\<in>set cs. wf_constraint c) \<and>
    covered cs = set (pairs ss)"
proof -
  obtain x ss' where ss: "ss = x # ss'" using assms(1) by (cases ss) auto
  note x1 = even_succ [of x]
  have "x + 1 < y" if "y \<in> set ss'" for y
  proof -
    have "unat x \<le> unat y" "x \<noteq> y" "x + 1 \<noteq> y" "even x" using that assms by (auto simp: ss)
    then show ?thesis using x1 unfolding word_less_nat_alt word_unat_eq_iff by linarith
  qed
  then obtain cs s e where l: "constraints_loop [] (Some x) (Some (x + 1)) (pairs ss') = Inr (cs, Some s, Some e)"
    "even s" "odd e" "s < e" "\<forall>c\<in>set cs. wf_constraint c" "covered cs \<union> {s..e} = {x..x + 1} \<union> set (pairs ss')"
    using constraints_loop_pairs [of x "x + 1" ss' "[]"] x1 assms by (auto simp: ss covered_def)
  let ?c = "\<lparr>start_addr = devaddr s, end_addr = devaddr e\<rparr>"
  have "constraints_from_addrs (pairs ss) = Inr (cs @ [?c])"
    using l(1) constraint_new_devaddr [OF l(2-4)] by (simp add: constraints_from_addrs_def ss)
  moreover have "covered (cs @ [?c]) = set (pairs ss)"
    using l(6) interval_pair [of x] assms(2) by (simp add: covered_snoc constraint_addrs_def ss)
  moreover have "wf_constraint ?c" using l by (simp add: wf_constraint_def)
  ultimately show ?thesis using l(5) by (intro exI [of _ "cs @ [?c]"]) auto
qed


lemma addr_range_parity: "even (fst (addr_range nid))" "odd (snd (addr_range nid))"
  by (cases nid; simp)+

lemma free_take_pairs:
  assumes "paired used" "0 < n" "even n" "n \<le> length (free_addrs nid used)"
  shows "\<exists>ss. take n (free_addrs nid used) = pairs ss \<and> ss \<noteq> [] \<and> (\<forall>x\<in>set ss. even x) \<and>
    sorted (map unat ss) \<and> distinct ss"
proof -
  obtain rs where rs: "range32 (fst (addr_range nid)) (snd (addr_range nid)) = pairs rs"
      "\<forall>x\<in>set rs. even x" "distinct rs" "sorted (map unat rs)"
    using range32_pairs [OF addr_range_parity addr_range_bounds(1)] by blast
  obtain k where k: "n = 2 * k" "0 < k" using assms by (auto elim: evenE)
  let ?ss = "take k (filter (\<lambda>a. a \<notin> used) rs)"
  have "take n (free_addrs nid used) = pairs ?ss"
    unfolding free_addrs_def rs(1) filter_pairs [OF assms(1) rs(2)] k take_pairs ..
  moreover have "?ss \<noteq> []"
    using assms(4) k unfolding free_addrs_def rs(1) filter_pairs [OF assms(1) rs(2)] by auto
  moreover have "sorted (map unat ?ss)"
    using sorted_filter [OF rs(4)] by (simp add: take_map [symmetric] sorted_wrt_take)
  ultimately show ?thesis using rs by (intro exI [of _ ?ss]) (auto dest!: in_set_takeD)
qed

lemma paired_union_pairs:
  assumes "paired used" "\<forall>x\<in>set ss. even x"
  shows "paired (used \<union> set (pairs ss))"
proof -
  have "a \<in> used \<union> set (pairs ss) \<longleftrightarrow> a + 1 \<in> used \<union> set (pairs ss)" if "even a" for a
  proof -
    have "a \<notin> (\<lambda>s. s + 1) ` set ss" "a + 1 \<notin> set ss" using assms(2) that by auto
    then have "a \<in> set (pairs ss) \<longleftrightarrow> a \<in> set ss" "a + 1 \<in> set (pairs ss) \<longleftrightarrow> a \<in> set ss"
      unfolding set_pairs by auto
    moreover have "a \<in> used \<longleftrightarrow> a + 1 \<in> used" using assms(1) that by (simp add: paired_def)
    ultimately show ?thesis by simp
  qed
  then show ?thesis by (simp add: paired_def)
qed

section \<open>The contract of an address store\<close>

text \<open>What the checkout relies on: the used addresses come back in increasing order, a
  claim of unused addresses of the NetID's range succeeds and records exactly them, a
  release forgets exactly the released ones, and neither touches another NetID.\<close>

locale address_store =
  fixes get_used_addrs :: "'s \<Rightarrow> helium_net_id \<Rightarrow> 'e + u32 list"
    and claim_addrs :: "'s \<Rightarrow> helium_net_id \<Rightarrow> u32 list \<Rightarrow> 'e + 's"
    and release_addrs :: "'s \<Rightarrow> helium_net_id \<Rightarrow> u32 list \<Rightarrow> 'e + 's"
    and store_inv :: "'s \<Rightarrow> bool"
    and used :: "'s \<Rightarrow> helium_net_id \<Rightarrow> u32 set"
  assumes used_in_range: "store_inv st \<Longrightarrow> used st nid \<subseteq> in_range nid"
    and get_used: "store_inv st \<Longrightarrow>
      \<exists>us. get_used_addrs st nid = Inr us \<and> sorted (map unat us) \<and> set us = used st nid"
    and claim_unused: "store_inv st \<Longrightarrow> as \<noteq> [] \<Longrightarrow> distinct as \<Longrightarrow> set as \<subseteq> in_range nid - used st nid \<Longrightarrow>
      \<exists>st'. claim_addrs st nid as = Inr st' \<and> store_inv st' \<and>
        used st' = (used st)(nid := used st nid \<union> set as)"
    and release: "store_inv st \<Longrightarrow> as \<noteq> [] \<Longrightarrow>
      \<exists>st'. release_addrs st nid as = Inr st' \<and> store_inv st' \<and>
        used st' = (used st)(nid := used st nid - set as)"
begin

lemma select_used:
  assumes "store_inv st" "get_used_addrs st nid = Inr us"
  shows "select_addrs nid us count =
    (if unat count \<le> length (free_addrs nid (used st nid))
     then Some (take (unat count) (free_addrs nid (used st nid))) else None)"
  using get_used [OF assms(1), of nid] used_in_range [OF assms(1), of nid] assms(2) select_addrs_eq [of us nid]
  by auto

lemma claim_free:
  assumes "store_inv st" "0 < n" "n \<le> length (free_addrs nid (used st nid))"
  shows "\<exists>st'. claim_addrs st nid (take n (free_addrs nid (used st nid))) = Inr st' \<and> store_inv st' \<and>
    used st' = (used st)(nid := used st nid \<union> set (take n (free_addrs nid (used st nid))))"
proof (rule claim_unused [OF assms(1)])
  show "take n (free_addrs nid (used st nid)) \<noteq> []" using assms(2,3) by auto
  show "distinct (take n (free_addrs nid (used st nid)))"
    by (simp add: free_addrs_def distinct_range32)
  show "set (take n (free_addrs nid (used st nid))) \<subseteq> in_range nid - used st nid"
    by (auto simp: free_addrs_def in_range_def set_range32 dest!: in_set_takeD)
qed

lemma checkout_no_available:
  assumes "store_inv st" "length (free_addrs nid (used st nid)) < unat count"
  shows "checkout_devaddr_constraints get_used_addrs claim_addrs st count nid = Inl NoAvailableAddrs"
  using get_used [OF assms(1), of nid] select_used [OF assms(1)] assms(2)
  by (auto simp: checkout_devaddr_constraints_def)

lemma checkout_paired:
  assumes "store_inv st" "paired (used st nid)" "0 < unat count" "even (unat count)"
    and "unat count \<le> length (free_addrs nid (used st nid))"
  shows "\<exists>st' cs. checkout_devaddr_constraints get_used_addrs claim_addrs st count nid = Inr (st', cs) \<and>
    store_inv st' \<and> used st' = (used st)(nid := used st nid \<union> covered cs) \<and> paired (used st' nid) \<and>
    (\<forall>c\<in>set cs. wf_constraint c) \<and> covered cs = set (take (unat count) (free_addrs nid (used st nid)))"
proof -
  obtain ss where ss: "take (unat count) (free_addrs nid (used st nid)) = pairs ss" "ss \<noteq> []"
      "\<forall>x\<in>set ss. even x" "sorted (map unat ss)" "distinct ss"
    using free_take_pairs [OF assms(2-5)] by blast
  obtain cs where cs: "constraints_from_addrs (pairs ss) = Inr cs" "\<forall>c\<in>set cs. wf_constraint c"
      "covered cs = set (pairs ss)"
    using constraints_from_pairs [OF ss(2-5)] by blast
  obtain st' where st': "claim_addrs st nid (pairs ss) = Inr st'" "store_inv st'"
      "used st' = (used st)(nid := used st nid \<union> set (pairs ss))"
    using claim_free [OF assms(1,3,5)] ss(1) by auto
  obtain us where us: "get_used_addrs st nid = Inr us" using get_used [OF assms(1)] by blast
  have "checkout_devaddr_constraints get_used_addrs claim_addrs st count nid = Inr (st', cs)"
    using us select_used [OF assms(1) us] assms(5) ss(1) st'(1) cs(1)
    by (simp add: checkout_devaddr_constraints_def)
  moreover have "paired (used st' nid)"
    using st'(3) paired_union_pairs [OF assms(2) ss(3)] by simp
  ultimately show ?thesis using st' cs ss(1) by auto
qed

lemma checkout_specified:
  assumes "store_inv st" "constraint_addrs c \<subseteq> in_range nid" "constraint_addrs c \<noteq> {}"
  shows "if constraint_addrs c \<inter> used st nid = {}
    then \<exists>st'. checkout_specified_devaddr_constraint get_used_addrs claim_addrs st nid c = Inr st' \<and>
      store_inv st' \<and> used st' = (used st)(nid := used st nid \<union> constraint_addrs c)
    else \<exists>as. checkout_specified_devaddr_constraint get_used_addrs claim_addrs st nid c =
      Inl (ConstraintAddrInUse as) \<and> set as = constraint_addrs c"
proof -
  let ?as = "range32 (field_into_u32 (start_addr c)) (field_into_u32 (end_addr c))"
  have as: "set ?as = constraint_addrs c" by (simp add: set_range32 constraint_addrs_def)
  obtain us where us: "get_used_addrs st nid = Inr us" "set us = used st nid"
    using get_used [OF assms(1)] by blast
  show ?thesis
  proof (cases "constraint_addrs c \<inter> used st nid = {}")
    case True
    then have "set ?as \<subseteq> in_range nid - used st nid" "?as \<noteq> []" using assms(2,3) as by auto
    then obtain st' where "claim_addrs st nid ?as = Inr st'" "store_inv st'"
      "used st' = (used st)(nid := used st nid \<union> constraint_addrs c)"
      using claim_unused [OF assms(1) _ distinct_range32] as by metis
    moreover have "\<not> list_ex (\<lambda>a. a \<in> set us) ?as"
      using True as us(2) by (auto simp: list_ex_iff)
    ultimately show ?thesis
      using True us by (simp add: checkout_specified_devaddr_constraint_def)
  next
    case False
    then have "list_ex (\<lambda>a. a \<in> set us) ?as" using as us(2) by (auto simp: list_ex_iff)
    then show ?thesis using False us as by (auto simp: checkout_specified_devaddr_constraint_def Let_def)
  qed
qed

end

section \<open>The table implements the contract\<close>

definition pg_used :: "used_devaddrs \<Rightarrow> helium_net_id \<Rightarrow> u32 set" where
  "pg_used db nid = {a. (a, field_into_i32 (helium_id nid)) \<in> set db}"

definition pg_inv :: "used_devaddrs \<Rightarrow> bool" where
  "pg_inv db \<longleftrightarrow> distinct (map fst db) \<and>
     (\<forall>(a, n)\<in>set db. \<exists>nid. n = field_into_i32 (helium_id nid) \<and> a \<in> in_range nid)"

lemma sint_cases_32: "sint a = (if unat a < 2 ^ 31 then int (unat a) else int (unat a) - 2 ^ 32)"
  for a :: u32
  by (simp add: sint_cases)

lemma in_range_half: "(\<forall>a\<in>in_range nid. unat a < 2 ^ 31) \<or> (\<forall>a\<in>in_range nid. 2 ^ 31 \<le> unat a)"
  by (cases nid) (auto simp: in_range_def word_le_nat_alt)

lemma sint_order_in_range:
  assumes "a \<in> in_range nid" "b \<in> in_range nid"
  shows "sint a \<le> sint b \<longleftrightarrow> unat a \<le> unat b"
  using in_range_half [of nid] assms unfolding sint_cases_32
  by (elim disjE) (auto dest!: bspec simp: not_less [symmetric] simp del: of_nat_unat)

lemma helium_id_i32_inj: "field_into_i32 (helium_id n) = field_into_i32 (helium_id m) \<longleftrightarrow> n = m"
  by (cases n; cases m) (simp_all add: field_into_i32_def)

lemma in_range_inj: "a \<in> in_range n \<Longrightarrow> a \<in> in_range m \<Longrightarrow> n = m"
  by (cases n; cases m) (auto simp: in_range_def word_le_nat_alt)

lemma pg_used_in_range: "pg_inv db \<Longrightarrow> pg_used db nid \<subseteq> in_range nid"
  by (fastforce simp: pg_inv_def pg_used_def helium_id_i32_inj)

lemma pg_row_used:
  assumes "pg_inv db" "a \<in> fst ` set db" "a \<in> in_range nid"
  shows "a \<in> pg_used db nid"
proof -
  obtain n where n: "(a, n) \<in> set db" using assms(2) by auto
  then obtain m where "n = field_into_i32 (helium_id m)" "a \<in> in_range m"
    using assms(1) by (auto simp: pg_inv_def)
  then show ?thesis using n in_range_inj [OF assms(3), of m] by (simp add: pg_used_def)
qed

interpretation pg: address_store pg_get_used_addrs pg_claim_addrs pg_release_addrs pg_inv pg_used
proof
  fix db nid assume inv: "pg_inv db"
  show "pg_used db nid \<subseteq> in_range nid" using pg_used_in_range [OF inv] .
  define us where "us = sort_key sint (map fst (filter (\<lambda>(_, n). n = field_into_i32 (helium_id nid)) db))"
  have us: "set us = pg_used db nid" by (force simp: us_def pg_used_def)
  have "sorted (map sint us)" by (simp add: us_def)
  then have "sorted (map unat us)"
    using pg_used_in_range [OF inv, of nid] us
    by (simp add: sorted_wrt_map) (auto elim!: sorted_wrt_mono_rel [rotated] simp: sint_order_in_range [of _ nid] subset_iff)
  then show "\<exists>us. pg_get_used_addrs db nid = Inr us \<and> sorted (map unat us) \<and> set us = pg_used db nid"
    using us by (auto simp: pg_get_used_addrs_def us_def)
next
  fix db nid and as :: "u32 list"
  assume inv: "pg_inv db" and as: "as \<noteq> []" "distinct as" "set as \<subseteq> in_range nid - pg_used db nid"
  then have "set as \<inter> fst ` set db = {}" using pg_row_used [OF inv] by blast
  then show "\<exists>st'. pg_claim_addrs db nid as = Inr st' \<and> pg_inv st' \<and>
      pg_used st' = (pg_used db)(nid := pg_used db nid \<union> set as)"
    using inv as
    by (auto simp: pg_claim_addrs_def pg_inv_def pg_used_def comp_def helium_id_i32_inj fun_eq_iff)
next
  fix db nid and as :: "u32 list" assume "pg_inv db" "as \<noteq> []"
  then show "\<exists>st'. pg_release_addrs db nid as = Inr st' \<and> pg_inv st' \<and>
      pg_used st' = (pg_used db)(nid := pg_used db nid - set as)"
    by (auto simp: pg_release_addrs_def pg_inv_def pg_used_def helium_id_i32_inj fun_eq_iff distinct_map_filter)
qed

section \<open>Properties of the checkout\<close>

text \<open>C3: With the used addresses of the table in even-odd pairs, a checkout of a
  positive even number of addresses claims exactly that many of the lowest free addresses
  of the NetID's range, or fails with \<open>NoAvailableAddrs\<close> when the range has fewer free
  ones. The constraints it returns are well formed and cover exactly the claimed
  addresses, no other NetID changes, and the used addresses stay paired.\<close>

theorem checkout_lowest_free:
  assumes "pg_inv db" "paired (pg_used db nid)" "0 < unat count" "even (unat count)"
  shows "if unat count \<le> length (free_addrs nid (pg_used db nid))
    then \<exists>db' cs. checkout_devaddr_constraints pg_get_used_addrs pg_claim_addrs db count nid = Inr (db', cs) \<and>
      pg_inv db' \<and> pg_used db' = (pg_used db)(nid := pg_used db nid \<union> covered cs) \<and>
      paired (pg_used db' nid) \<and> (\<forall>c\<in>set cs. wf_constraint c) \<and>
      covered cs = set (take (unat count) (free_addrs nid (pg_used db nid)))
    else checkout_devaddr_constraints pg_get_used_addrs pg_claim_addrs db count nid = Inl NoAvailableAddrs"
  using pg.checkout_paired [OF assms] pg.checkout_no_available [OF assms(1)] by auto

lemma paired_empty: "paired {}"
  by (simp add: paired_def)

lemma free_addrs_empty: "length (free_addrs nid {}) = Suc (unat (snd (addr_range nid))) - unat (fst (addr_range nid))"
  by (simp add: free_addrs_def range32_def del: upt_Suc)

theorem checkout_lowest_free_witness:
  "pg_inv [] \<and> (\<exists>db' cs. checkout_devaddr_constraints pg_get_used_addrs pg_claim_addrs [] 8 Type6_0xc00053 = Inr (db', cs) \<and>
     pg_inv db' \<and> pg_used db' Type6_0xc00053 = covered cs)"
proof -
  have inv: "pg_inv []" by (simp add: pg_inv_def)
  have u: "pg_used [] n = {}" for n by (simp add: pg_used_def)
  have "\<exists>db' cs. checkout_devaddr_constraints pg_get_used_addrs pg_claim_addrs [] 8 Type6_0xc00053 = Inr (db', cs) \<and>
     pg_inv db' \<and> pg_used db' Type6_0xc00053 = covered cs"
    using checkout_lowest_free [OF inv, of Type6_0xc00053 8]
    by (auto simp: u paired_empty free_addrs_empty)
  with inv show ?thesis by blast
qed

text \<open>C26: A checkout of a requested block inside the NetID's range succeeds exactly when
  none of its addresses is in use, and then the block and nothing else becomes used;
  otherwise it fails and names the requested addresses.\<close>

theorem checkout_specified_exact:
  assumes "pg_inv db" "constraint_addrs c \<subseteq> in_range nid" "constraint_addrs c \<noteq> {}"
  shows "if constraint_addrs c \<inter> pg_used db nid = {}
    then \<exists>db'. checkout_specified_devaddr_constraint pg_get_used_addrs pg_claim_addrs db nid c = Inr db' \<and>
      pg_inv db' \<and> pg_used db' = (pg_used db)(nid := pg_used db nid \<union> constraint_addrs c)
    else \<exists>as. checkout_specified_devaddr_constraint pg_get_used_addrs pg_claim_addrs db nid c =
      Inl (ConstraintAddrInUse as) \<and> set as = constraint_addrs c"
  using pg.checkout_specified [OF assms] .

theorem checkout_specified_exact_witness:
  "\<exists>db'. checkout_specified_devaddr_constraint pg_get_used_addrs pg_claim_addrs [] Type6_0xc00053
     \<lparr>start_addr = devaddr 4227943424, end_addr = devaddr 4227943431\<rparr> = Inr db' \<and> pg_inv db'"
proof -
  have "pg_inv []" by (simp add: pg_inv_def)
  then show ?thesis
    using checkout_specified_exact [of "[]" "\<lparr>start_addr = devaddr 4227943424, end_addr = devaddr 4227943431\<rparr>" Type6_0xc00053]
    by (auto simp: constraint_addrs_def in_range_def pg_used_def)
qed


text \<open>The address range written down for each Helium NetID is the block of device
  addresses that the NetID owns, a 32-bit address maps to a Helium NetID exactly when it
  lies in that NetID's range, and converting the NetID back gives the same variant.\<close>

theorem helium_range_is_block:
  "full_range (helium_id nid) =
     Inr \<lparr>start_addr = devaddr (fst (addr_range nid)), end_addr = devaddr (snd (addr_range nid))\<rparr> \<and>
   (to_net_id (devaddr a) = Inr (helium_id nid) \<longleftrightarrow> a \<in> in_range nid) \<and>
   helium_try_from (helium_id nid) = Inr nid \<and> is_helium_netid (helium_id nid)"
proof -
  have wf: "wf_net_id (helium_id nid)"
    by (cases nid) (simp_all add: wf_net_id_def nwk_width_def)
  have fr: "full_range (helium_id nid) =
     Inr \<lparr>start_addr = devaddr (fst (addr_range nid)), end_addr = devaddr (snd (addr_range nid))\<rparr>"
    by (cases nid) (simp_all add: net_id_eval)
  have "to_net_id (devaddr a) = Inr (helium_id nid) \<longleftrightarrow> a \<in> in_range nid"
    using in_block_iff [OF wf fr, of "devaddr a"] unat_less_32 [of a]
    by (simp add: field_val_devaddr field_le_def in_range_def word_le_nat_alt)
  moreover have "helium_try_from (helium_id nid) = Inr nid" "is_helium_netid (helium_id nid)"
    by (cases nid; simp add: helium_try_from_def is_helium_netid_def)+
  ultimately show ?thesis using fr by blast
qed

end
