(* ===== verification/Packet_Balances.thy ===== *)
theory Packet_Balances
  imports Oracles_Prelude
begin

text \<open>
  The cache of payer balances of the packet verifier
  (\<^verbatim>\<open>src/iot_packet_verifier/src/balances.rs\<close>, and \<open>set_balance\<close> of
  \<^verbatim>\<open>verifier.rs\<close>). The locked hash map is a map from payers to accounts that
  the operations take and return. The balance on the chain is the argument
  \<open>payer_balance\<close>, the answer of the Solana client at the time of the call.

  The lemmas relate a sequence of debits to a ledger of accepted amounts: against a fixed
  chain balance, the cache accepts exactly the debits that keep the total within the balance.
\<close>

section \<open>Accounts\<close>

record payer_account =
  balance :: u64
  burned :: u64

type_synonym balance_store = "pubkey \<rightharpoonup> payer_account"

definition account_new :: "u64 \<Rightarrow> payer_account" where
  "account_new b = \<lparr>balance = b, burned = 0\<rparr>"

text \<open>\<open>BalanceCache::new\<close>, with the rows of \<open>fetch_all_pending_burns\<close>.\<close>

fun balance_cache_loop ::
  "(pubkey \<Rightarrow> 'se + u64) \<Rightarrow> balance_store \<Rightarrow> (pubkey \<times> u64) list \<Rightarrow> 'se + balance_store" where
  "balance_cache_loop payer_balance balances [] = Inr balances"
| "balance_cache_loop payer_balance balances ((payer, burn_amount) # burns) =
     res_bind (payer_balance payer)
       (\<lambda>b. balance_cache_loop payer_balance
          (balances(payer \<mapsto> \<lparr>balance = b, burned = burn_amount\<rparr>)) burns)"

definition balance_cache_new ::
  "(pubkey \<Rightarrow> 'se + u64) \<Rightarrow> (pubkey \<times> u64) list \<Rightarrow> 'se + balance_store" where
  "balance_cache_new payer_balance burns = balance_cache_loop payer_balance Map.empty burns"

text \<open>A debit returns the new map and the result; on an error of the Solana client the map
  is unchanged.\<close>

definition debit_if_sufficient ::
  "(pubkey \<Rightarrow> 'se + u64) \<Rightarrow> balance_store \<Rightarrow> pubkey \<Rightarrow> u64 \<Rightarrow> u64 \<Rightarrow>
   balance_store \<times> ('se + u64 option)" where
  "debit_if_sufficient payer_balance accounts payer amount trigger_balance_check_threshold =
     (case accounts payer of
        None \<Rightarrow>
          (case payer_balance payer of
             Inl e \<Rightarrow> (accounts, Inl e)
           | Inr b \<Rightarrow>
               if b \<ge> amount
               then (accounts(payer \<mapsto> (account_new b)\<lparr>burned := 0 + amount\<rparr>), Inr (Some (b - amount)))
               else (accounts(payer \<mapsto> account_new b), Inr None))
      | Some account \<Rightarrow>
          (case checked_sub (balance account) (amount + burned account) of
             Some remaining_balance \<Rightarrow>
               (case (if remaining_balance < trigger_balance_check_threshold
                      then payer_balance payer else Inr (balance account)) of
                  Inl e \<Rightarrow> (accounts, Inl e)
                | Inr b \<Rightarrow>
                    let account' = account\<lparr>balance := b, burned := burned account + amount\<rparr>
                    in (accounts(payer \<mapsto> account'), Inr (Some (balance account' - burned account'))))
           | None \<Rightarrow> (accounts, Inr None)))"

definition set_balance :: "balance_store \<Rightarrow> pubkey \<Rightarrow> u64 \<Rightarrow> balance_store" where
  "set_balance accounts payer b =
     (let account = (case accounts payer of Some a \<Rightarrow> a | None \<Rightarrow> \<lparr>balance = 0, burned = 0\<rparr>)
      in accounts(payer \<mapsto> account\<lparr>balance := b\<rparr>))"

text \<open>The end of a burn and of a confirmation: both fields go down by the burned amount.
  \<open>None\<close> is the panic of \<open>unwrap\<close> on a payer that is not in the map.\<close>

definition settle_burn :: "balance_store \<Rightarrow> pubkey \<Rightarrow> u64 \<Rightarrow> balance_store option" where
  "settle_burn accounts payer amount =
     (case accounts payer of
        None \<Rightarrow> None
      | Some account \<Rightarrow>
          Some (accounts(payer \<mapsto> account\<lparr>burned := saturating_sub (burned account) amount,
                                        balance := saturating_sub (balance account) amount\<rparr>)))"

section \<open>Sequences of debits\<close>

text \<open>The results of a sequence of debits, and the same sequence against a ledger that
  holds the total accepted for each payer.\<close>

fun debits ::
  "(pubkey \<Rightarrow> 'se + u64) \<Rightarrow> u64 \<Rightarrow> balance_store \<Rightarrow> (pubkey \<times> u64) list \<Rightarrow>
   balance_store \<times> ('se + u64 option) list" where
  "debits pb thr m [] = (m, [])"
| "debits pb thr m ((p, a) # rs) =
     (let (m', r) = debit_if_sufficient pb m p a thr; (m'', out) = debits pb thr m' rs
      in (m'', r # out))"

fun ledger_debits ::
  "(pubkey \<Rightarrow> nat) \<Rightarrow> (pubkey \<Rightarrow> nat) \<Rightarrow> (pubkey \<times> nat) list \<Rightarrow> (pubkey \<Rightarrow> nat) \<times> nat option list" where
  "ledger_debits B t [] = (t, [])"
| "ledger_debits B t ((p, a) # rs) =
     (if t p + a \<le> B p
      then let (t', out) = ledger_debits B (t(p := t p + a)) rs in (t', Some (B p - (t p + a)) # out)
      else let (t', out) = ledger_debits B t rs in (t', None # out))"

definition tracks :: "(pubkey \<Rightarrow> u64) \<Rightarrow> balance_store \<Rightarrow> (pubkey \<Rightarrow> nat) \<Rightarrow> bool" where
  "tracks B m t \<longleftrightarrow> (\<forall>p. t p \<le> unat (B p) \<and>
     (case m p of None \<Rightarrow> t p = 0 | Some acc \<Rightarrow> balance acc = B p \<and> unat (burned acc) = t p))"

lemma tracks_empty: "tracks B Map.empty (\<lambda>_. 0)"
  by (simp add: tracks_def)

lemma tracks_upd:
  assumes "tracks B m t" "balance acc = B p" "unat (burned acc) = n" "n \<le> unat (B p)"
  shows "tracks B (m(p \<mapsto> acc)) (t(p := n))"
  unfolding tracks_def
proof
  fix q
  show "(t(p := n)) q \<le> unat (B q) \<and>
    (case (m(p \<mapsto> acc)) q of None \<Rightarrow> (t(p := n)) q = 0
     | Some acc \<Rightarrow> balance acc = B q \<and> unat (burned acc) = (t(p := n)) q)"
    using assms(1) [unfolded tracks_def, rule_format, of q] assms(2-)
    by (cases "q = p") (simp_all split: option.splits)
qed

lemma tracks_None: "tracks B m t \<Longrightarrow> m p = None \<Longrightarrow> t p = 0"
  by (drule tracks_def [THEN iffD1, THEN spec, of _ _ _ p]) simp

lemma tracks_Some:
  "tracks B m t \<Longrightarrow> m p = Some acc \<Longrightarrow> balance acc = B p \<and> unat (burned acc) = t p \<and> t p \<le> unat (B p)"
  by (drule tracks_def [THEN iffD1, THEN spec, of _ _ _ p]) simp

lemma debit_accepted:
  assumes inv: "tracks B m t" and ok: "t p + unat a \<le> unat (B p)"
  shows "\<exists>m' r. debit_if_sufficient (\<lambda>q. Inr (B q)) m p a thr = (m', Inr (Some r)) \<and>
    tracks B m' (t(p := t p + unat a)) \<and> unat r = unat (B p) - (t p + unat a)"
proof (cases "m p")
  case None
  let ?acc = "(account_new (B p))\<lparr>burned := 0 + a\<rparr>"
  have t: "t p = 0" by (rule tracks_None [OF inv None])
  have "debit_if_sufficient (\<lambda>q. Inr (B q)) m p a thr = (m(p \<mapsto> ?acc), Inr (Some (B p - a)))"
    using None ok t by (simp add: debit_if_sufficient_def word_le_nat_alt)
  moreover have "tracks B (m(p \<mapsto> ?acc)) (t(p := t p + unat a))"
    by (rule tracks_upd [OF inv]) (use ok t in \<open>simp_all add: account_new_def\<close>)
  moreover have "unat (B p - a) = unat (B p) - (t p + unat a)"
    using ok t by (simp add: unat_sub word_le_nat_alt)
  ultimately show ?thesis by blast
next
  case (Some acc)
  note acc = tracks_Some [OF inv Some]
  let ?acc = "acc\<lparr>balance := B p, burned := burned acc + a\<rparr>"
  have sum: "unat (burned acc + a) = t p + unat a"
    using acc ok unsigned_less [of "B p", where ?'a = nat] unat_add_small [of "burned acc" a] by simp
  have le: "a + burned acc \<le> B p"
    using ok sum by (simp add: word_le_nat_alt add.commute [of a])
  have "debit_if_sufficient (\<lambda>q. Inr (B q)) m p a thr =
      (m(p \<mapsto> ?acc), Inr (Some (B p - (burned acc + a))))"
    using Some acc le by (simp add: debit_if_sufficient_def checked_sub_def Let_def)
  moreover have "tracks B (m(p \<mapsto> ?acc)) (t(p := t p + unat a))"
    by (rule tracks_upd [OF inv]) (use ok sum in simp_all)
  moreover have "unat (B p - (burned acc + a)) = unat (B p) - (t p + unat a)"
    using le sum by (simp add: unat_sub add.commute [of a])
  ultimately show ?thesis by blast
qed

lemma debit_rejected:
  assumes inv: "tracks B m t" and no: "\<not> t p + unat a \<le> unat (B p)"
    and small: "unat a < 2 ^ 63" "unat (B p) < 2 ^ 63"
  shows "\<exists>m'. debit_if_sufficient (\<lambda>q. Inr (B q)) m p a thr = (m', Inr None) \<and> tracks B m' t"
proof (cases "m p")
  case None
  have t: "t p = 0" by (rule tracks_None [OF inv None])
  have "debit_if_sufficient (\<lambda>q. Inr (B q)) m p a thr = (m(p \<mapsto> account_new (B p)), Inr None)"
    using None no t by (simp add: debit_if_sufficient_def word_le_nat_alt)
  moreover have "tracks B (m(p \<mapsto> account_new (B p))) (t(p := 0))"
    by (rule tracks_upd [OF inv]) (simp_all add: account_new_def)
  ultimately show ?thesis using t by (metis fun_upd_triv)
next
  case (Some acc)
  note acc = tracks_Some [OF inv Some]
  have "unat (a + burned acc) = t p + unat a"
    using acc small unat_add_small [of a "burned acc"] by simp
  then have "\<not> a + burned acc \<le> B p" using no by (simp add: word_le_nat_alt)
  then have "debit_if_sufficient (\<lambda>q. Inr (B q)) m p a thr = (m, Inr None)"
    using Some acc by (simp add: debit_if_sufficient_def checked_sub_def)
  then show ?thesis using inv by blast
qed

text \<open>C21: Against a fixed chain balance below \<open>2 ^ 63\<close>, a sequence of debits from an
  empty cache behaves as a ledger of accepted amounts: a debit is accepted exactly when the
  total stays within the payer's balance, it returns exactly the balance minus the total,
  and the cache ends with the total as the burned amount of the payer.\<close>

theorem debits_refine_ledger:
  assumes "\<forall>p. unat (B p) < 2 ^ 63" "\<forall>(p, a)\<in>set rs. unat a < 2 ^ 63"
  shows "\<exists>m out t.
    debits (\<lambda>q. Inr (B q) :: 'e + u64) thr Map.empty rs = (m, map Inr out) \<and>
    ledger_debits (\<lambda>p. unat (B p)) (\<lambda>_. 0) (map (\<lambda>(p, a). (p, unat a)) rs) =
      (t, map (map_option unat) out) \<and> tracks B m t"
proof -
  let ?pb = "\<lambda>q. Inr (B q) :: 'e + u64"
  have "\<exists>m' out t'. debits ?pb thr m rs = (m', map Inr out) \<and>
    ledger_debits (\<lambda>p. unat (B p)) t (map (\<lambda>(p, a). (p, unat a)) rs) =
      (t', map (map_option unat) out) \<and> tracks B m' t'" if "tracks B m t" for m t
    using assms(2) that
  proof (induction rs arbitrary: m t)
    case (Cons r rs)
    obtain p a where r: "r = (p, a)" by fastforce
    have small: "unat a < 2 ^ 63" "unat (B p) < 2 ^ 63" "\<forall>(p, a)\<in>set rs. unat a < 2 ^ 63"
      using assms(1) Cons.prems(1) by (auto simp: r)
    show ?case
    proof (cases "t p + unat a \<le> unat (B p)")
      case True
      then obtain m1 x where m1: "debit_if_sufficient ?pb m p a thr = (m1, Inr (Some x))"
          "tracks B m1 (t(p := t p + unat a))" "unat x = unat (B p) - (t p + unat a)"
        using debit_accepted [OF Cons.prems(2)] by blast
      obtain m' out t' where ih: "debits ?pb thr m1 rs = (m', map Inr out)"
          "ledger_debits (\<lambda>p. unat (B p)) (t(p := t p + unat a)) (map (\<lambda>(p, a). (p, unat a)) rs) =
            (t', map (map_option unat) out)" "tracks B m' t'"
        using Cons.IH [OF small(3) m1(2)] by blast
      show ?thesis
        by (intro exI [of _ m'] exI [of _ "Some x # out"] exI [of _ t']) (use ih m1 True in \<open>simp add: r\<close>)
    next
      case False
      then obtain m1 where m1: "debit_if_sufficient ?pb m p a thr = (m1, Inr None)" "tracks B m1 t"
        using debit_rejected [OF Cons.prems(2) _ small(1,2)] by blast
      obtain m' out t' where ih: "debits ?pb thr m1 rs = (m', map Inr out)"
          "ledger_debits (\<lambda>p. unat (B p)) t (map (\<lambda>(p, a). (p, unat a)) rs) =
            (t', map (map_option unat) out)" "tracks B m' t'"
        using Cons.IH [OF small(3) m1(2)] by blast
      show ?thesis
        by (intro exI [of _ m'] exI [of _ "None # out"] exI [of _ t']) (use ih m1 False in \<open>simp add: r\<close>)
    qed
  qed simp
  from this [OF tracks_empty] show ?thesis .
qed

theorem debits_refine_ledger_witness:
  "\<exists>m out t.
    debits (\<lambda>q. Inr 10) 5 Map.empty [(''a'', 7), (''a'', 4), (''a'', 3)] = (m, map Inr out) \<and>
    ledger_debits (\<lambda>p. 10) (\<lambda>_. 0) [(''a'', 7), (''a'', 4), (''a'', 3)] = (t, map (map_option unat) out) \<and> tracks (\<lambda>_. 10) m t"
  using debits_refine_ledger [of "\<lambda>_. 10" "[(''a'', 7), (''a'', 4), (''a'', 3)]" 5] by simp

text \<open>When the refetched balance is below the burned amount the remaining balance
  wraps around: the debit of 5 from an account with cached balance 100 and 90 burned refetches
  the balance 50 and reports \<open>2 ^ 64 - 45\<close> as remaining, so the caller sees a large
  balance instead of an exhausted one.\<close>

theorem debit_remaining_wraps:
  "debit_if_sufficient (\<lambda>_. Inr 50) [''p'' \<mapsto> \<lparr>balance = 100, burned = 90\<rparr>] ''p'' 5 10 =
     ([''p'' \<mapsto> \<lparr>balance = 50, burned = 95\<rparr>], Inr (Some (2 ^ 64 - 45)))"
  by (simp add: debit_if_sufficient_def checked_sub_def Let_def)

end
