(* ===== verification/Packet_Pending.thy ===== *)
theory Packet_Pending
  imports Packet_Balances
begin

text \<open>
  The tables of pending burns and pending transactions of the packet verifier
  (\<^verbatim>\<open>src/iot_packet_verifier/src/pending.rs\<close>). A table is the list of its rows, a
  query a function on them; \<open>Utc::now()\<close> is an argument. An amount is stored as a
  \<open>BIGINT\<close>, whose addition and subtraction fail instead of wrapping. Rows with the
  same \<open>last_burn\<close> are taken in table order.

  The traits \<open>PendingTables\<close> and \<open>PendingTablesTransaction\<close> are the record
  \<open>pending_ops\<close>; the locale \<open>pending_tables_contract\<close> states what their users
  rely on. Its laws speak of the statements that succeed, so that they hold for a database
  that may refuse any statement: \<open>with_faults\<close> adds such refusals to the
  implementation on Postgres, and the interpretation is for every pattern of them.
\<close>

section \<open>Rows and tables\<close>

record burn =
  burn_payer :: pubkey
  burn_amount :: u64

record pending_txn =
  ptx_signature :: string
  ptx_payer :: pubkey
  ptx_amount :: u64
  ptx_time :: timestamp

record burn_row =
  br_payer :: pubkey
  br_amount :: i64
  br_last_burn :: timestamp

record txn_row =
  tr_signature :: string
  tr_payer :: pubkey
  tr_amount :: i64
  tr_time :: timestamp

record pg_tables =
  pending_burns :: "burn_row list"
  pending_txns :: "txn_row list"

definition BURN_THRESHOLD :: i64 where
  "BURN_THRESHOLD = 10000"

definition burn_from_row :: "burn_row \<Rightarrow> burn" where
  "burn_from_row r = \<lparr>burn_payer = br_payer r, burn_amount = br_amount r\<rparr>"

definition txn_from_row :: "txn_row \<Rightarrow> pending_txn" where
  "txn_from_row r =
     \<lparr>ptx_signature = tr_signature r, ptx_payer = tr_payer r, ptx_amount = tr_amount r,
      ptx_time = tr_time r\<rparr>"

section \<open>Statements\<close>

definition bigint :: "int \<Rightarrow> sqlx_error + i64" where
  "bigint n = (if - (2 ^ 63) \<le> n \<and> n < 2 ^ 63 then Inr (of_int n) else Inl IntegerOutOfRange)"

definition pg_fetch_next_burn :: "pg_tables \<Rightarrow> sqlx_error + burn option" where
  "pg_fetch_next_burn db =
     (case sort_key br_last_burn
             (filter (\<lambda>r. sint BURN_THRESHOLD \<le> sint (br_amount r)) (pending_burns db)) of
        [] \<Rightarrow> Inr None
      | r # _ \<Rightarrow> Inr (Some (burn_from_row r)))"

definition pg_fetch_all_pending_burns :: "pg_tables \<Rightarrow> sqlx_error + burn list" where
  "pg_fetch_all_pending_burns db = Inr (map burn_from_row (pending_burns db))"

definition pg_fetch_all_pending_txns :: "pg_tables \<Rightarrow> sqlx_error + pending_txn list" where
  "pg_fetch_all_pending_txns db = Inr (map txn_from_row (pending_txns db))"

definition pg_add_pending_transaction ::
  "timestamp \<Rightarrow> pg_tables \<Rightarrow> pubkey \<Rightarrow> u64 \<Rightarrow> string \<Rightarrow> sqlx_error + pg_tables" where
  "pg_add_pending_transaction now db payer amount signature =
     (if signature \<in> tr_signature ` set (pending_txns db) then Inl UniqueViolation
      else Inr (db\<lparr>pending_txns := pending_txns db @
        [\<lparr>tr_signature = signature, tr_payer = payer, tr_amount = amount, tr_time = now\<rparr>]\<rparr>))"

fun upsert_burn :: "timestamp \<Rightarrow> pubkey \<Rightarrow> i64 \<Rightarrow> burn_row list \<Rightarrow> sqlx_error + burn_row list" where
  "upsert_burn now payer amount [] =
     Inr [\<lparr>br_payer = payer, br_amount = amount, br_last_burn = now\<rparr>]"
| "upsert_burn now payer amount (r # rs) =
     (if br_payer r = payer
      then res_bind (bigint (sint (br_amount r) + sint amount)) (\<lambda>n. Inr (r\<lparr>br_amount := n\<rparr> # rs))
      else res_bind (upsert_burn now payer amount rs) (\<lambda>rs'. Inr (r # rs')))"

definition pg_add_burned_amount ::
  "timestamp \<Rightarrow> pg_tables \<Rightarrow> pubkey \<Rightarrow> u64 \<Rightarrow> sqlx_error + pg_tables" where
  "pg_add_burned_amount now db payer amount =
     res_bind (upsert_burn now payer amount (pending_burns db)) (\<lambda>rs. Inr (db\<lparr>pending_burns := rs\<rparr>))"

definition pg_remove_pending_transaction :: "pg_tables \<Rightarrow> string \<Rightarrow> sqlx_error + pg_tables" where
  "pg_remove_pending_transaction db signature =
     Inr (db\<lparr>pending_txns := filter (\<lambda>r. tr_signature r \<noteq> signature) (pending_txns db)\<rparr>)"

fun update_burns :: "timestamp \<Rightarrow> pubkey \<Rightarrow> i64 \<Rightarrow> burn_row list \<Rightarrow> sqlx_error + burn_row list" where
  "update_burns now payer amount [] = Inr []"
| "update_burns now payer amount (r # rs) =
     res_bind
       (if br_payer r = payer
        then res_bind (bigint (sint (br_amount r) - sint amount))
               (\<lambda>n. Inr (r\<lparr>br_amount := n, br_last_burn := now\<rparr>))
        else Inr r)
       (\<lambda>r'. res_bind (update_burns now payer amount rs) (\<lambda>rs'. Inr (r' # rs')))"

definition pg_subtract_burned_amount ::
  "timestamp \<Rightarrow> pg_tables \<Rightarrow> pubkey \<Rightarrow> u64 \<Rightarrow> sqlx_error + pg_tables" where
  "pg_subtract_burned_amount now db payer amount =
     res_bind (update_burns now payer amount (pending_burns db)) (\<lambda>rs. Inr (db\<lparr>pending_burns := rs\<rparr>))"

section \<open>The traits\<close>

record 's pending_ops =
  fetch_next_burn :: "'s \<Rightarrow> sqlx_error + burn option"
  fetch_all_pending_burns :: "'s \<Rightarrow> sqlx_error + burn list"
  fetch_all_pending_txns :: "'s \<Rightarrow> sqlx_error + pending_txn list"
  add_pending_transaction :: "timestamp \<Rightarrow> 's \<Rightarrow> pubkey \<Rightarrow> u64 \<Rightarrow> string \<Rightarrow> sqlx_error + 's"
  begin_txn :: "'s \<Rightarrow> sqlx_error + 's"
  remove_pending_transaction :: "'s \<Rightarrow> string \<Rightarrow> sqlx_error + 's"
  subtract_burned_amount :: "timestamp \<Rightarrow> 's \<Rightarrow> pubkey \<Rightarrow> u64 \<Rightarrow> sqlx_error + 's"
  commit_txn :: "'s \<Rightarrow> sqlx_error + 's"

text \<open>A transaction works on a copy of the tables, which its commit makes current; a
  transaction that is dropped leaves the tables as they were.\<close>

definition pg_ops :: "pg_tables pending_ops" where
  "pg_ops =
     \<lparr>fetch_next_burn = pg_fetch_next_burn,
      fetch_all_pending_burns = pg_fetch_all_pending_burns,
      fetch_all_pending_txns = pg_fetch_all_pending_txns,
      add_pending_transaction = pg_add_pending_transaction,
      begin_txn = Inr,
      remove_pending_transaction = pg_remove_pending_transaction,
      subtract_burned_amount = pg_subtract_burned_amount,
      commit_txn = Inr\<rparr>"

datatype statement =
  FetchNextBurn | FetchAllPendingBurns | FetchAllPendingTxns | AddPendingTransaction pubkey string
| BeginTxn | RemovePendingTransaction string | SubtractBurnedAmount pubkey | CommitTxn

definition faulty :: "(statement \<Rightarrow> bool) \<Rightarrow> statement \<Rightarrow> sqlx_error + 'a \<Rightarrow> sqlx_error + 'a" where
  "faulty fault s r = (if fault s then Inl ConnectionLost else r)"

definition with_faults :: "(statement \<Rightarrow> bool) \<Rightarrow> 's pending_ops \<Rightarrow> 's pending_ops" where
  "with_faults fault P =
     \<lparr>fetch_next_burn = (\<lambda>db. faulty fault FetchNextBurn (fetch_next_burn P db)),
      fetch_all_pending_burns = (\<lambda>db. faulty fault FetchAllPendingBurns (fetch_all_pending_burns P db)),
      fetch_all_pending_txns = (\<lambda>db. faulty fault FetchAllPendingTxns (fetch_all_pending_txns P db)),
      add_pending_transaction = (\<lambda>now db p a sig.
        faulty fault (AddPendingTransaction p sig) (add_pending_transaction P now db p a sig)),
      begin_txn = (\<lambda>db. faulty fault BeginTxn (begin_txn P db)),
      remove_pending_transaction = (\<lambda>db sig.
        faulty fault (RemovePendingTransaction sig) (remove_pending_transaction P db sig)),
      subtract_burned_amount = (\<lambda>now db p a.
        faulty fault (SubtractBurnedAmount p) (subtract_burned_amount P now db p a)),
      commit_txn = (\<lambda>db. faulty fault CommitTxn (commit_txn P db))\<rparr>"

section \<open>The contract\<close>

locale pending_tables_contract =
  fixes P :: "'s pending_ops"
    and tables_inv :: "'s \<Rightarrow> bool"
    and owed :: "'s \<Rightarrow> pubkey \<Rightarrow> int option"
    and txns :: "'s \<Rightarrow> string \<Rightarrow> (pubkey \<times> u64) option"
  assumes finite_txns: "finite (dom (txns db))"
    and next_burn: "tables_inv db \<Longrightarrow> fetch_next_burn P db = Inr (Some b) \<Longrightarrow>
      owed db (burn_payer b) = Some (sint (burn_amount b)) \<and> 10000 \<le> sint (burn_amount b)"
    and all_burns: "tables_inv db \<Longrightarrow> fetch_all_pending_burns P db = Inr bs \<Longrightarrow>
      distinct (map burn_payer bs) \<and> (\<forall>p. owed db p = map_option sint (map_of (map (\<lambda>b. (burn_payer b, burn_amount b)) bs) p))"
    and all_txns: "tables_inv db \<Longrightarrow> fetch_all_pending_txns P db = Inr ts \<Longrightarrow>
      distinct (map ptx_signature ts) \<and>
      txns db = map_of (map (\<lambda>t. (ptx_signature t, (ptx_payer t, ptx_amount t))) ts)"
    and add_pending: "tables_inv db \<Longrightarrow> add_pending_transaction P now db p a sig = Inr db' \<Longrightarrow>
      tables_inv db' \<and> txns db sig = None \<and> txns db' = (txns db)(sig \<mapsto> (p, a)) \<and> owed db' = owed db"
    and begin_txn: "begin_txn P db = Inr tx \<Longrightarrow> tx = db"
    and remove_pending: "tables_inv tx \<Longrightarrow> remove_pending_transaction P tx sig = Inr tx' \<Longrightarrow>
      tables_inv tx' \<and> txns tx' = (txns tx)(sig := None) \<and> owed tx' = owed tx"
    and subtract_burned: "tables_inv tx \<Longrightarrow> subtract_burned_amount P now tx p a = Inr tx' \<Longrightarrow>
      tables_inv tx' \<and> txns tx' = txns tx \<and>
      owed tx' = (owed tx)(p := map_option (\<lambda>n. n - sint a) (owed tx p))"
    and commit_txn: "commit_txn P tx = Inr db \<Longrightarrow> db = tx"

section \<open>Postgres implements the contract\<close>

definition pg_tables_inv :: "pg_tables \<Rightarrow> bool" where
  "pg_tables_inv db \<longleftrightarrow> distinct (map br_payer (pending_burns db)) \<and>
     distinct (map tr_signature (pending_txns db))"

definition pg_owed :: "pg_tables \<Rightarrow> pubkey \<Rightarrow> int option" where
  "pg_owed db p = map_option sint (map_of (map (\<lambda>r. (br_payer r, br_amount r)) (pending_burns db)) p)"

definition pg_txns :: "pg_tables \<Rightarrow> string \<Rightarrow> (pubkey \<times> u64) option" where
  "pg_txns db = map_of (map (\<lambda>r. (tr_signature r, (tr_payer r, tr_amount r))) (pending_txns db))"

lemma bigint_Inr_iff [result_simps]:
  "bigint n = Inr w \<longleftrightarrow> w = of_int n \<and> - (2 ^ 63) \<le> n \<and> n < 2 ^ 63"
  by (auto simp: bigint_def)

lemma sint_of_int_64: "- (2 ^ 63) \<le> n \<Longrightarrow> n < 2 ^ 63 \<Longrightarrow> sint (of_int n :: i64) = n"
  by (simp add: int_word_sint)

lemma sint_diff_64:
  "- (2 ^ 63) \<le> sint a - sint b \<Longrightarrow> sint a - sint b < 2 ^ 63 \<Longrightarrow> sint (a - b) = sint a - sint b"
  for a b :: i64
  using sint_of_int_64 [of "sint a - sint b"] by simp

lemma sint_sum_64:
  "- (2 ^ 63) \<le> sint a + sint b \<Longrightarrow> sint a + sint b < 2 ^ 63 \<Longrightarrow> sint (a + b) = sint a + sint b"
  for a b :: i64
  using sint_of_int_64 [of "sint a + sint b"] by simp

lemma faulty_Inr_iff [result_simps]: "faulty f s r = Inr x \<longleftrightarrow> \<not> f s \<and> r = Inr x"
  by (simp add: faulty_def)

lemma update_burns_absent: "p \<notin> br_payer ` set rs \<Longrightarrow> update_burns now p a rs = Inr rs"
  by (induction rs) auto

lemma update_burns_spec:
  assumes "update_burns now p a rs = Inr rs'" "distinct (map br_payer rs)"
  shows "map br_payer rs' = map br_payer rs \<and>
    map_option sint (map_of (map (\<lambda>r. (br_payer r, br_amount r)) rs') q) =
      (if q = p then map_option (\<lambda>n. sint n - sint a) (map_of (map (\<lambda>r. (br_payer r, br_amount r)) rs) p)
       else map_option sint (map_of (map (\<lambda>r. (br_payer r, br_amount r)) rs) q))"
  using assms
proof (induction rs arbitrary: rs')
  case (Cons r rs)
  show ?case
  proof (cases "br_payer r = p")
    case True
    then have "p \<notin> br_payer ` set rs" using Cons.prems(2) by auto
    with Cons.prems(1) True show ?thesis
      by (auto simp: result_simps update_burns_absent sint_diff_64)
  next
    case False
    with Cons show ?thesis by (auto simp: result_simps)
  qed
qed auto

lemma upsert_burn_keys:
  "upsert_burn now p a rs = Inr rs' \<Longrightarrow>
   map br_payer rs' = (if p \<in> br_payer ` set rs then map br_payer rs else map br_payer rs @ [p])"
  by (induction rs arbitrary: rs') (auto simp: result_simps split: if_splits)

lemma upsert_burn_lookup:
  "upsert_burn now p a rs = Inr rs' \<Longrightarrow>
   map_option sint (map_of (map (\<lambda>r. (br_payer r, br_amount r)) rs') q) =
     (if q = p then Some (case map_of (map (\<lambda>r. (br_payer r, br_amount r)) rs) p of
                            None \<Rightarrow> sint a | Some n \<Rightarrow> sint n + sint a)
      else map_option sint (map_of (map (\<lambda>r. (br_payer r, br_amount r)) rs) q))"
  by (induction rs arbitrary: rs') (auto simp: result_simps sint_sum_64 split: if_splits)

lemma map_of_snoc:
  assumes "map_of xs k = None" shows "map_of (xs @ [(k, v)]) = (map_of xs)(k \<mapsto> v)"
proof
  fix q show "map_of (xs @ [(k, v)]) q = ((map_of xs)(k \<mapsto> v)) q"
    using assms by (cases "q = k") (auto simp: map_add_def split: option.splits)
qed

lemma pg_ops_simps [simp]:
  "fetch_next_burn pg_ops = pg_fetch_next_burn"
  "fetch_all_pending_burns pg_ops = pg_fetch_all_pending_burns"
  "fetch_all_pending_txns pg_ops = pg_fetch_all_pending_txns"
  "add_pending_transaction pg_ops = pg_add_pending_transaction"
  "begin_txn pg_ops = Inr"
  "remove_pending_transaction pg_ops = pg_remove_pending_transaction"
  "subtract_burned_amount pg_ops = pg_subtract_burned_amount"
  "commit_txn pg_ops = Inr"
  by (simp_all add: pg_ops_def)

lemma sort_key_hd_in: "sort_key f xs = y # ys \<Longrightarrow> y \<in> set xs \<and> (\<forall>x\<in>set xs. f y \<le> f x)"
proof -
  assume eq: "sort_key f xs = y # ys"
  have "set xs = insert y (set ys)" using set_sort [of f xs] unfolding eq by simp
  moreover have "sorted (map f (y # ys))" using sorted_sort_key [of f xs] unfolding eq .
  ultimately show ?thesis by auto
qed

lemma pg_next_burn:
  assumes "pg_tables_inv db" "pg_fetch_next_burn db = Inr (Some b)"
  shows "pg_owed db (burn_payer b) = Some (sint (burn_amount b)) \<and> 10000 \<le> sint (burn_amount b)"
proof -
  obtain r rs where r: "sort_key br_last_burn (filter (\<lambda>r. sint BURN_THRESHOLD \<le> sint (br_amount r))
      (pending_burns db)) = r # rs" "b = burn_from_row r"
    using assms(2) by (auto simp: pg_fetch_next_burn_def split: list.splits)
  then have "r \<in> set (pending_burns db)" "sint BURN_THRESHOLD \<le> sint (br_amount r)"
    using sort_key_hd_in by fastforce+
  moreover have "distinct (map fst (map (\<lambda>r. (br_payer r, br_amount r)) (pending_burns db)))"
    using assms(1) by (simp add: pg_tables_inv_def comp_def)
  ultimately show ?thesis
    using r(2) map_of_is_SomeI [of "map (\<lambda>r. (br_payer r, br_amount r)) (pending_burns db)" "br_payer r" "br_amount r"]
    by (auto simp: pg_owed_def burn_from_row_def BURN_THRESHOLD_def)
qed

lemma pg_subtract_burned:
  assumes "pg_tables_inv db" "pg_subtract_burned_amount now db p a = Inr db'"
  shows "pg_tables_inv db' \<and> pg_txns db' = pg_txns db \<and>
    pg_owed db' = (pg_owed db)(p := map_option (\<lambda>n. n - sint a) (pg_owed db p))"
proof -
  obtain rs where rs: "update_burns now p a (pending_burns db) = Inr rs" "db' = db\<lparr>pending_burns := rs\<rparr>"
    using assms(2) by (auto simp: pg_subtract_burned_amount_def result_simps)
  note spec = update_burns_spec [OF rs(1)]
  have "pg_owed db' q = ((pg_owed db)(p := map_option (\<lambda>n. n - sint a) (pg_owed db p))) q" for q
    using spec [of q] assms(1) rs(2) by (simp add: pg_owed_def pg_tables_inv_def option.map_comp comp_def)
  then show ?thesis
    using spec assms(1) rs(2) by (auto simp: pg_tables_inv_def pg_txns_def)
qed

lemma pg_add_burned:
  assumes "pg_tables_inv db" "pg_add_burned_amount now db p a = Inr db'"
  shows "pg_tables_inv db' \<and> pg_txns db' = pg_txns db \<and>
    pg_owed db' = (pg_owed db)(p \<mapsto> (case pg_owed db p of None \<Rightarrow> 0 | Some n \<Rightarrow> n) + sint a)"
proof -
  obtain rs where rs: "upsert_burn now p a (pending_burns db) = Inr rs" "db' = db\<lparr>pending_burns := rs\<rparr>"
    using assms(2) by (auto simp: pg_add_burned_amount_def result_simps)
  note lookup = upsert_burn_lookup [OF rs(1)] and keys = upsert_burn_keys [OF rs(1)]
  have "pg_owed db' q = ((pg_owed db)(p \<mapsto> (case pg_owed db p of None \<Rightarrow> 0 | Some n \<Rightarrow> n) + sint a)) q" for q
    using lookup [of q] rs(2) by (auto simp: pg_owed_def split: option.splits)
  then show ?thesis
    using keys assms(1) rs(2) by (auto simp: pg_tables_inv_def pg_txns_def)
qed

lemma pg_add_pending:
  assumes "pg_tables_inv db" "pg_add_pending_transaction now db p a sig = Inr db'"
  shows "pg_tables_inv db' \<and> pg_txns db sig = None \<and> pg_txns db' = (pg_txns db)(sig \<mapsto> (p, a)) \<and>
    pg_owed db' = pg_owed db"
proof -
  have fresh: "sig \<notin> tr_signature ` set (pending_txns db)"
    and db': "db' = db\<lparr>pending_txns := pending_txns db @
        [\<lparr>tr_signature = sig, tr_payer = p, tr_amount = a, tr_time = now\<rparr>]\<rparr>"
    using assms(2) by (auto simp: pg_add_pending_transaction_def split: if_splits)
  have none: "pg_txns db sig = None"
    using fresh by (simp add: pg_txns_def map_of_eq_None_iff image_image)
  moreover have "pg_txns db' = (pg_txns db)(sig \<mapsto> (p, a))"
    using map_of_snoc [OF none [unfolded pg_txns_def]] by (simp add: pg_txns_def db' del: map_of_append)
  ultimately show ?thesis
    using fresh assms(1) by (simp add: db' pg_tables_inv_def pg_owed_def fun_eq_iff)
qed

interpretation pg: pending_tables_contract "with_faults fault pg_ops" pg_tables_inv pg_owed pg_txns
  for fault
proof
  fix db
  show "finite (dom (pg_txns db))" by (simp add: pg_txns_def finite_dom_map_of)
next
  fix db b assume "pg_tables_inv db" "fetch_next_burn (with_faults fault pg_ops) db = Inr (Some b)"
  then show "pg_owed db (burn_payer b) = Some (sint (burn_amount b)) \<and> 10000 \<le> sint (burn_amount b)"
    using pg_next_burn [of db b] by (simp add: with_faults_def result_simps)
next
  fix db bs assume "pg_tables_inv db" "fetch_all_pending_burns (with_faults fault pg_ops) db = Inr bs"
  then show "distinct (map burn_payer bs) \<and>
      (\<forall>p. pg_owed db p = map_option sint (map_of (map (\<lambda>b. (burn_payer b, burn_amount b)) bs) p))"
    by (auto simp: with_faults_def result_simps pg_fetch_all_pending_burns_def pg_tables_inv_def
        pg_owed_def burn_from_row_def comp_def)
next
  fix db ts assume "pg_tables_inv db" "fetch_all_pending_txns (with_faults fault pg_ops) db = Inr ts"
  then show "distinct (map ptx_signature ts) \<and>
      pg_txns db = map_of (map (\<lambda>t. (ptx_signature t, (ptx_payer t, ptx_amount t))) ts)"
    by (auto simp: with_faults_def result_simps pg_fetch_all_pending_txns_def pg_tables_inv_def
        pg_txns_def txn_from_row_def comp_def)
next
  fix now db p a sig db'
  assume "pg_tables_inv db" "add_pending_transaction (with_faults fault pg_ops) now db p a sig = Inr db'"
  then show "pg_tables_inv db' \<and> pg_txns db sig = None \<and> pg_txns db' = (pg_txns db)(sig \<mapsto> (p, a)) \<and>
      pg_owed db' = pg_owed db"
    using pg_add_pending [of db now p a sig db'] by (simp add: with_faults_def result_simps)
next
  fix tx sig tx'
  assume "pg_tables_inv tx" "remove_pending_transaction (with_faults fault pg_ops) tx sig = Inr tx'"
  moreover have "map_of (map (\<lambda>r. (tr_signature r, (tr_payer r, tr_amount r))) (filter (\<lambda>r. tr_signature r \<noteq> sig) rs)) =
      (map_of (map (\<lambda>r. (tr_signature r, (tr_payer r, tr_amount r))) rs))(sig := None)" for rs :: "txn_row list"
    by (induction rs) (auto simp: fun_eq_iff)
  ultimately show "pg_tables_inv tx' \<and> pg_txns tx' = (pg_txns tx)(sig := None) \<and> pg_owed tx' = pg_owed tx"
    by (auto simp: with_faults_def result_simps pg_remove_pending_transaction_def pg_tables_inv_def
        pg_txns_def pg_owed_def distinct_map_filter)
next
  fix now tx p a tx'
  assume "pg_tables_inv tx" "subtract_burned_amount (with_faults fault pg_ops) now tx p a = Inr tx'"
  then show "pg_tables_inv tx' \<and> pg_txns tx' = pg_txns tx \<and>
      pg_owed tx' = (pg_owed tx)(p := map_option (\<lambda>n. n - sint a) (pg_owed tx p))"
    using pg_subtract_burned [of tx now p a tx'] by (simp add: with_faults_def result_simps)
qed (auto simp: with_faults_def result_simps)

end
