(* ===== verification/Packet_Burner.thy ===== *)
theory Packet_Burner
  imports Packet_Pending
begin

text \<open>
  The burner of the packet verifier (\<^verbatim>\<open>src/iot_packet_verifier/src/burner.rs\<close>) and the
  confirmation of pending transactions (\<open>confirm_pending_txns\<close> of
  \<^verbatim>\<open>pending.rs\<close>), over the operations of the pending tables and of the Solana
  client. The client is the record \<open>solana\<close> of the answers it gives during the call.
  A call returns the tables, the balances and the outcome; \<open>burn\<close> also returns the
  transaction it submitted, its effect on the chain.

  The lemmas follow the data credits that a payer still owes, which is the pending amount
  minus the transactions that the chain has executed and the tables still list as pending:
  whatever statement or call fails, a burn lowers it exactly by what it executes on the
  chain, and a confirmation leaves it unchanged.
\<close>

section \<open>The Solana client\<close>

record ('se, 'tx) solana =
  payer_balance :: "pubkey \<Rightarrow> 'se + u64"
  make_burn_transaction :: "pubkey \<Rightarrow> u64 \<Rightarrow> 'se + 'tx"
  get_signature :: "'tx \<Rightarrow> string"
  submit_transaction :: "'tx \<Rightarrow> 'se + unit"
  confirm_transaction :: "string \<Rightarrow> 'se + bool"

section \<open>Burning\<close>

datatype 'se burn_error = SqlError sqlx_error | SolanaError 'se | UnknownPayer

text \<open>The transaction that records a burn: the pending transaction goes, the pending amount
  is lowered.\<close>

definition record_burn ::
  "'s pending_ops \<Rightarrow> timestamp \<Rightarrow> 's \<Rightarrow> string \<Rightarrow> pubkey \<Rightarrow> u64 \<Rightarrow> sqlx_error + 's" where
  "record_burn P now db signature payer amount =
     res_bind (begin_txn P db) (\<lambda>tx.
     res_bind (remove_pending_transaction P tx signature) (\<lambda>tx.
     res_bind (subtract_burned_amount P now tx payer amount) (\<lambda>tx.
     commit_txn P tx)))"

text \<open>\<open>clock i\<close> is the \<open>i\<close>-th reading of \<open>Utc::now()\<close> during the call.\<close>

definition burn ::
  "'s pending_ops \<Rightarrow> ('se, 'tx) solana \<Rightarrow> (nat \<Rightarrow> timestamp) \<Rightarrow> 's \<Rightarrow> balance_store \<Rightarrow>
   's \<times> balance_store \<times> (pubkey \<times> u64 \<times> 'tx) option \<times> ('se burn_error + unit)" where
  "burn P S clock db balances =
     (case fetch_next_burn P db of
        Inl e \<Rightarrow> (db, balances, None, Inl (SqlError e))
      | Inr None \<Rightarrow> (db, balances, None, Inr ())
      | Inr (Some b) \<Rightarrow>
          let payer = burn_payer b; amount = burn_amount b in
          (case make_burn_transaction S payer amount of
             Inl e \<Rightarrow> (db, balances, None, Inl (SolanaError e))
           | Inr txn \<Rightarrow>
               (case add_pending_transaction P (clock 0) db payer amount (get_signature S txn) of
                  Inl e \<Rightarrow> (db, balances, None, Inl (SqlError e))
                | Inr db \<Rightarrow>
                    (case submit_transaction S txn of
                       Inl e \<Rightarrow> (db, balances, Some (payer, amount, txn), Inl (SolanaError e))
                     | Inr _ \<Rightarrow>
                         (case record_burn P (clock 1) db (get_signature S txn) payer amount of
                            Inl e \<Rightarrow> (db, balances, Some (payer, amount, txn), Inl (SqlError e))
                          | Inr db \<Rightarrow>
                              (case settle_burn balances payer amount of
                                 None \<Rightarrow> (db, balances, Some (payer, amount, txn), Inl UnknownPayer)
                               | Some balances \<Rightarrow>
                                   (db, balances, Some (payer, amount, txn), Inr ())))))))"

section \<open>Confirming pending transactions\<close>

datatype 'se confirm_pending_error =
  SqlxError sqlx_error | ChronoError | ConfirmSolanaError 'se | ConfirmUnknownPayer

text \<open>The time to sleep before the confirmation; \<open>to_std\<close> fails on a negative duration.\<close>

definition confirm_delay :: "timestamp \<Rightarrow> timestamp \<Rightarrow> 'se confirm_pending_error + duration" where
  "confirm_delay now time_of_submission =
     (let time_since_submission = now - time_of_submission in
      if minutes 1 > time_since_submission
      then (let d = minutes 1 - time_since_submission in if d < 0 then Inl ChronoError else Inr d)
      else Inr 0)"

text \<open>The body of the loop. The balances are settled before the commit, so a failing commit
  leaves them settled and the tables as they were.\<close>

definition confirm_txn ::
  "'s pending_ops \<Rightarrow> ('se, 'tx) solana \<Rightarrow> (nat \<Rightarrow> timestamp) \<Rightarrow> nat \<Rightarrow> pending_txn \<Rightarrow> 's \<Rightarrow> balance_store \<Rightarrow>
   's \<times> balance_store \<times> ('se confirm_pending_error + unit)" where
  "confirm_txn P S clock i pending db balances =
     (case confirm_delay (clock (2 * i)) (ptx_time pending) of
        Inl e \<Rightarrow> (db, balances, Inl e)
      | Inr _ \<Rightarrow>
     (case res_bind (begin_txn P db) (\<lambda>tx. remove_pending_transaction P tx (ptx_signature pending)) of
        Inl e \<Rightarrow> (db, balances, Inl (SqlxError e))
      | Inr tx \<Rightarrow>
     (case confirm_transaction S (ptx_signature pending) of
        Inl e \<Rightarrow> (db, balances, Inl (ConfirmSolanaError e))
      | Inr False \<Rightarrow>
          (case commit_txn P tx of
             Inl e \<Rightarrow> (db, balances, Inl (SqlxError e))
           | Inr db \<Rightarrow> (db, balances, Inr ()))
      | Inr True \<Rightarrow>
          (case subtract_burned_amount P (clock (2 * i + 1)) tx (ptx_payer pending) (ptx_amount pending) of
             Inl e \<Rightarrow> (db, balances, Inl (SqlxError e))
           | Inr tx \<Rightarrow>
          (case settle_burn balances (ptx_payer pending) (ptx_amount pending) of
             None \<Rightarrow> (db, balances, Inl ConfirmUnknownPayer)
           | Some balances \<Rightarrow>
          (case commit_txn P tx of
             Inl e \<Rightarrow> (db, balances, Inl (SqlxError e))
           | Inr db \<Rightarrow> (db, balances, Inr ())))))))"

fun confirm_loop ::
  "'s pending_ops \<Rightarrow> ('se, 'tx) solana \<Rightarrow> (nat \<Rightarrow> timestamp) \<Rightarrow> nat \<Rightarrow> pending_txn list \<Rightarrow> 's \<Rightarrow> balance_store \<Rightarrow>
   's \<times> balance_store \<times> ('se confirm_pending_error + unit)" where
  "confirm_loop P S clock i [] db balances = (db, balances, Inr ())"
| "confirm_loop P S clock i (pending # rest) db balances =
     (case confirm_txn P S clock i pending db balances of
        (db, balances, Inl e) \<Rightarrow> (db, balances, Inl e)
      | (db, balances, Inr _) \<Rightarrow> confirm_loop P S clock (Suc i) rest db balances)"

definition confirm_pending_txns ::
  "'s pending_ops \<Rightarrow> ('se, 'tx) solana \<Rightarrow> (nat \<Rightarrow> timestamp) \<Rightarrow> 's \<Rightarrow> balance_store \<Rightarrow>
   's \<times> balance_store \<times> ('se confirm_pending_error + unit)" where
  "confirm_pending_txns P S clock db balances =
     (case fetch_all_pending_txns P db of
        Inl e \<Rightarrow> (db, balances, Inl (SqlxError e))
      | Inr pending \<Rightarrow> confirm_loop P S clock 0 pending db balances)"

section \<open>The burner task\<close>

text \<open>One tick of \<open>Burner::run\<close>: an error of the burn is followed by the confirmation
  of the pending transactions, whose error ends the task. The confirmation sees the
  client \<open>S'\<close> at its own time. \<open>Inl None\<close> is the panic of the burn.\<close>

definition burner_tick ::
  "'s pending_ops \<Rightarrow> ('se, 'tx) solana \<Rightarrow> (nat \<Rightarrow> timestamp) \<Rightarrow>
   's pending_ops \<Rightarrow> ('se, 'tx) solana \<Rightarrow> (nat \<Rightarrow> timestamp) \<Rightarrow> 's \<Rightarrow> balance_store \<Rightarrow>
   's \<times> balance_store \<times> (pubkey \<times> u64 \<times> 'tx) option \<times> ('se confirm_pending_error option + unit)" where
  "burner_tick P S clock P' S' clock' db balances =
     (case burn P S clock db balances of
        (db, balances, sub, Inr _) \<Rightarrow> (db, balances, sub, Inr ())
      | (db, balances, sub, Inl UnknownPayer) \<Rightarrow> (db, balances, sub, Inl None)
      | (db, balances, sub, Inl _) \<Rightarrow>
          (case confirm_pending_txns P' S' clock' db balances of
             (db, balances, r) \<Rightarrow> (db, balances, sub, map_err Some r)))"

section \<open>The data credits a payer owes\<close>

text \<open>\<open>landed\<close> is the set of signatures of the transactions the chain has executed.\<close>

definition landed_pending :: "(string \<rightharpoonup> pubkey \<times> u64) \<Rightarrow> string set \<Rightarrow> pubkey \<Rightarrow> int" where
  "landed_pending ts landed p =
     (\<Sum>sig | sig \<in> landed \<and> (\<exists>a. ts sig = Some (p, a)). sint (snd (the (ts sig))))"

definition outstanding ::
  "(pubkey \<Rightarrow> int option) \<Rightarrow> (string \<rightharpoonup> pubkey \<times> u64) \<Rightarrow> string set \<Rightarrow> pubkey \<Rightarrow> int" where
  "outstanding ow ts landed p = (case ow p of None \<Rightarrow> 0 | Some n \<Rightarrow> n) - landed_pending ts landed p"

text \<open>What the chain may do with the transaction of a burn: a transaction that was not
  submitted does not land, one whose submission succeeds lands, one whose submission fails
  may land or not.\<close>

definition chain_after ::
  "('se, 'tx) solana \<Rightarrow> string set \<Rightarrow> (pubkey \<times> u64 \<times> 'tx) option \<Rightarrow> string set \<Rightarrow> bool" where
  "chain_after S landed sub landed' \<longleftrightarrow>
     (case sub of
        None \<Rightarrow> landed' = landed
      | Some (_, _, txn) \<Rightarrow>
          (landed' = landed \<or> landed' = insert (get_signature S txn) landed) \<and>
          (is_ok (submit_transaction S txn) \<longrightarrow> get_signature S txn \<in> landed'))"

definition burned_on_chain ::
  "('se, 'tx) solana \<Rightarrow> (pubkey \<times> u64 \<times> 'tx) option \<Rightarrow> string set \<Rightarrow> pubkey \<Rightarrow> int" where
  "burned_on_chain S sub landed' p =
     (case sub of
        None \<Rightarrow> 0
      | Some (q, a, txn) \<Rightarrow> if get_signature S txn \<in> landed' \<and> p = q then sint a else 0)"

definition payers_known :: "(pubkey \<Rightarrow> int option) \<Rightarrow> (string \<rightharpoonup> pubkey \<times> u64) \<Rightarrow> bool" where
  "payers_known ow ts \<longleftrightarrow> (\<forall>sig p a. ts sig = Some (p, a) \<longrightarrow> ow p \<noteq> None)"

definition fresh_signatures :: "('se, 'tx) solana \<Rightarrow> string set \<Rightarrow> bool" where
  "fresh_signatures S landed \<longleftrightarrow>
     (\<forall>p a txn. make_burn_transaction S p a = Inr txn \<longrightarrow> get_signature S txn \<notin> landed)"

definition honest_confirm :: "('se, 'tx) solana \<Rightarrow> string set \<Rightarrow> bool" where
  "honest_confirm S landed \<longleftrightarrow> (\<forall>sig b. confirm_transaction S sig = Inr b \<longrightarrow> b = (sig \<in> landed))"

lemma landed_pending_add:
  assumes "ts sig = None" "sig \<notin> landed"
  shows "landed_pending (ts(sig \<mapsto> x)) landed p = landed_pending ts landed p"
  unfolding landed_pending_def by (rule sum.cong) (use assms in auto)

lemma landed_pending_insert:
  assumes "finite (dom ts)" "ts sig = Some (q, a)" "sig \<notin> landed"
  shows "landed_pending ts (insert sig landed) p = landed_pending ts landed p + (if p = q then sint a else 0)"
proof (cases "p = q")
  case True
  then have "{s. s \<in> insert sig landed \<and> (\<exists>a. ts s = Some (p, a))} =
      insert sig {s. s \<in> landed \<and> (\<exists>a. ts s = Some (p, a))}" using assms(2) by auto
  moreover have "finite {s. s \<in> landed \<and> (\<exists>a. ts s = Some (p, a))}"
    by (rule finite_subset [OF _ assms(1)]) auto
  ultimately show ?thesis using assms True by (simp add: landed_pending_def)
next
  case False
  then have "{s. s \<in> insert sig landed \<and> (\<exists>a. ts s = Some (p, a))} =
      {s. s \<in> landed \<and> (\<exists>a. ts s = Some (p, a))}" using assms(2) by auto
  then show ?thesis using False by (simp add: landed_pending_def)
qed

lemma landed_pending_remove:
  assumes "finite (dom ts)" "ts sig = Some (q, a)"
  shows "landed_pending (ts(sig := None)) landed p =
    landed_pending ts landed p - (if sig \<in> landed \<and> p = q then sint a else 0)"
proof (cases "sig \<in> landed \<and> p = q")
  case True
  have eq: "{s. s \<in> landed \<and> (\<exists>a. ts s = Some (p, a))} =
      insert sig {s. s \<in> landed \<and> (\<exists>a. (ts(sig := None)) s = Some (p, a))}" using True assms(2) by auto
  have fin: "finite {s. s \<in> landed \<and> (\<exists>a. (ts(sig := None)) s = Some (p, a))}"
    by (rule finite_subset [OF _ assms(1)]) (auto split: if_splits)
  have "(\<Sum>s | s \<in> landed \<and> (\<exists>a. (ts(sig := None)) s = Some (p, a)). sint (snd (the (ts s)))) =
      (\<Sum>s | s \<in> landed \<and> (\<exists>a. (ts(sig := None)) s = Some (p, a)). sint (snd (the ((ts(sig := None)) s))))"
    by (rule sum.cong) (auto split: if_splits)
  then show ?thesis
    unfolding landed_pending_def eq using True assms(2) fin by (subst sum.insert) auto
next
  case False
  then have "landed_pending (ts(sig := None)) landed p = landed_pending ts landed p"
    unfolding landed_pending_def by (intro sum.cong) (use assms(2) in \<open>auto split: if_splits\<close>)
  then show ?thesis using False by auto
qed

lemma payers_known_upd:
  "payers_known ow ts \<Longrightarrow> ow p \<noteq> None \<Longrightarrow> payers_known ow (ts(sig \<mapsto> (p, a)))"
  "payers_known ow ts \<Longrightarrow> payers_known ow (ts(sig := None))"
  "payers_known ow ts \<Longrightarrow> payers_known (ow(p := map_option f (ow p))) ts"
  by (auto simp: payers_known_def split: if_splits)

context pending_tables_contract
begin

lemma record_burn_spec:
  assumes "tables_inv db" "record_burn P now db sig p a = Inr db'"
  shows "tables_inv db' \<and> txns db' = (txns db)(sig := None) \<and>
    owed db' = (owed db)(p := map_option (\<lambda>n. n - sint a) (owed db p))"
proof -
  obtain t1 t2 t3 where t: "begin_txn P db = Inr t1" "remove_pending_transaction P t1 sig = Inr t2"
      "subtract_burned_amount P now t2 p a = Inr t3" "commit_txn P t3 = Inr db'"
    using assms(2) by (auto simp: record_burn_def result_simps)
  have "t1 = db" using begin_txn [OF t(1)] .
  then have 2: "tables_inv t2 \<and> txns t2 = (txns db)(sig := None) \<and> owed t2 = owed db"
    using remove_pending [OF _ t(2)] assms(1) by simp
  then have "tables_inv t3 \<and> txns t3 = txns t2 \<and>
      owed t3 = (owed t2)(p := map_option (\<lambda>n. n - sint a) (owed t2 p))"
    using subtract_burned [OF _ t(3)] by blast
  then show ?thesis using 2 commit_txn [OF t(4)] by simp
qed

lemma record_burn_outstanding:
  assumes "tables_inv db" "payers_known (owed db) (txns db)" "record_burn P now db sig p a = Inr db'"
    and "txns db sig = Some (p, a)" "sig \<in> landed"
  shows "outstanding (owed db') (txns db') landed q = outstanding (owed db) (txns db) landed q"
proof -
  note spec = record_burn_spec [OF assms(1,3)]
  obtain n where "owed db p = Some n" using assms(2,4) by (auto simp: payers_known_def)
  then show ?thesis
    using spec assms(5) landed_pending_remove [OF finite_txns assms(4), of landed q]
    by (auto simp: outstanding_def)
qed

end

lemma burn_cases:
  assumes "burn P S clock db bal = (db', bal', sub, r)"
  obtains (idle) "db' = db" "bal' = bal" "sub = None" "\<forall>e. r = Inl e \<longrightarrow> e \<noteq> UnknownPayer"
  | (unrecorded) b txn where "fetch_next_burn P db = Inr (Some b)"
      "make_burn_transaction S (burn_payer b) (burn_amount b) = Inr txn"
      "add_pending_transaction P (clock 0) db (burn_payer b) (burn_amount b) (get_signature S txn) = Inr db'"
      "bal' = bal" "sub = Some (burn_payer b, burn_amount b, txn)" "\<exists>e. r = Inl e \<and> e \<noteq> UnknownPayer"
  | (recorded) b txn db1 where "fetch_next_burn P db = Inr (Some b)"
      "make_burn_transaction S (burn_payer b) (burn_amount b) = Inr txn"
      "add_pending_transaction P (clock 0) db (burn_payer b) (burn_amount b) (get_signature S txn) = Inr db1"
      "submit_transaction S txn = Inr ()"
      "record_burn P (clock 1) db1 (get_signature S txn) (burn_payer b) (burn_amount b) = Inr db'"
      "sub = Some (burn_payer b, burn_amount b, txn)"
      "case settle_burn bal (burn_payer b) (burn_amount b) of
         None \<Rightarrow> bal' = bal \<and> r = Inl UnknownPayer | Some m \<Rightarrow> bal' = m \<and> r = Inr ()"
  using assms
  by (auto simp: burn_def Let_def split: sum.splits option.splits)

context pending_tables_contract
begin

lemma pending_added_outstanding:
  assumes "tables_inv db" "add_pending_transaction P now db p a sig = Inr db'" "sig \<notin> landed"
    and "landed' = landed \<or> landed' = insert sig landed"
  shows "outstanding (owed db') (txns db') landed' q =
    outstanding (owed db) (txns db) landed q - (if sig \<in> landed' \<and> q = p then sint a else 0)"
proof -
  have add: "txns db sig = None" "txns db' = (txns db)(sig \<mapsto> (p, a))" "owed db' = owed db"
    using add_pending [OF assms(1,2)] by auto
  have "landed_pending (txns db') landed q = landed_pending (txns db) landed q"
    using landed_pending_add [of "txns db" sig landed "(p, a)" q] add assms(3) by simp
  moreover have "landed_pending (txns db') (insert sig landed) q =
      landed_pending (txns db') landed q + (if q = p then sint a else 0)"
    by (rule landed_pending_insert [OF finite_txns _ assms(3)]) (simp add: add(2))
  ultimately show ?thesis using assms(3,4) add(3) by (auto simp: outstanding_def)
qed

lemma burn_outstanding:
  assumes inv: "tables_inv db" "payers_known (owed db) (txns db)"
    and fresh: "fresh_signatures S landed"
    and burn: "burn P S clock db bal = (db', bal', sub, r)"
    and chain: "chain_after S landed sub landed'"
  shows "tables_inv db' \<and> payers_known (owed db') (txns db') \<and>
    outstanding (owed db') (txns db') landed' q =
      outstanding (owed db) (txns db) landed q - burned_on_chain S sub landed' q"
  using burn
proof (cases rule: burn_cases)
  case idle
  then show ?thesis using inv chain by (simp add: chain_after_def burned_on_chain_def)
next
  case (unrecorded b txn)
  have "get_signature S txn \<notin> landed" using fresh unrecorded(2) by (auto simp: fresh_signatures_def)
  then show ?thesis
    using pending_added_outstanding [OF inv(1) unrecorded(3), of landed landed' q] chain unrecorded(5)
      add_pending [OF inv(1) unrecorded(3)] next_burn [OF inv(1) unrecorded(1)] payers_known_upd(1) [OF inv(2)]
    by (simp add: chain_after_def burned_on_chain_def)
next
  case (recorded b txn db1)
  let ?sig = "get_signature S txn" and ?p = "burn_payer b" and ?a = "burn_amount b"
  have fr: "?sig \<notin> landed" using fresh recorded(2) by (auto simp: fresh_signatures_def)
  have l': "landed' = insert ?sig landed" using chain recorded(4,6) by (auto simp: chain_after_def)
  note add = add_pending [OF inv(1) recorded(3)]
  have known1: "payers_known (owed db1) (txns db1)"
    using add next_burn [OF inv(1) recorded(1)] payers_known_upd(1) [OF inv(2)] by simp
  have inv1: "tables_inv db1" "txns db1 ?sig = Some (?p, ?a)" using add by auto
  note spec = record_burn_spec [OF inv1(1) recorded(5)]
  have "payers_known (owed db') (txns db')"
    using spec payers_known_upd(2,3) known1 by simp
  moreover have "outstanding (owed db') (txns db') landed' q = outstanding (owed db1) (txns db1) landed' q"
    by (rule record_burn_outstanding [OF inv1(1) known1 recorded(5) inv1(2)]) (simp add: l')
  moreover have "outstanding (owed db1) (txns db1) landed' q =
      outstanding (owed db) (txns db) landed q - (if q = ?p then sint ?a else 0)"
    using pending_added_outstanding [OF inv(1) recorded(3) fr, of landed' q] l' by simp
  ultimately show ?thesis using spec l' recorded(6) by (simp add: burned_on_chain_def)
qed

end

lemma confirm_txn_cases:
  assumes "confirm_txn P S clock i t db bal = (db', bal', r)"
  obtains (failed) "db' = db" "is_ok r = False"
  | (dropped) t1 t2 where "begin_txn P db = Inr t1" "remove_pending_transaction P t1 (ptx_signature t) = Inr t2"
      "confirm_transaction S (ptx_signature t) = Inr False" "commit_txn P t2 = Inr db'" "bal' = bal" "r = Inr ()"
  | (settled) "record_burn P (clock (2 * i + 1)) db (ptx_signature t) (ptx_payer t) (ptx_amount t) = Inr db'"
      "confirm_transaction S (ptx_signature t) = Inr True"
      "settle_burn bal (ptx_payer t) (ptx_amount t) = Some bal'" "r = Inr ()"
  using assms
  by (auto simp: confirm_txn_def record_burn_def result_simps split: sum.splits option.splits bool.splits)

context pending_tables_contract
begin

lemma confirm_txn_outstanding:
  assumes inv: "tables_inv db" "payers_known (owed db) (txns db)"
    and honest: "honest_confirm S landed"
    and t: "txns db (ptx_signature t) = Some (ptx_payer t, ptx_amount t)"
    and c: "confirm_txn P S clock i t db bal = (db', bal', r)"
  shows "tables_inv db' \<and> payers_known (owed db') (txns db') \<and>
    outstanding (owed db') (txns db') landed q = outstanding (owed db) (txns db) landed q \<and>
    (is_ok r \<longrightarrow> txns db' = (txns db)(ptx_signature t := None))"
  using c
proof (cases rule: confirm_txn_cases)
  case failed
  then show ?thesis using inv by simp
next
  case (dropped t1 t2)
  have "ptx_signature t \<notin> landed" using honest dropped(3) by (auto simp: honest_confirm_def)
  moreover have "tables_inv t2 \<and> txns t2 = (txns db)(ptx_signature t := None) \<and> owed t2 = owed db"
    using remove_pending [OF _ dropped(2)] begin_txn [OF dropped(1)] inv(1) by simp
  ultimately show ?thesis
    using commit_txn [OF dropped(4)] payers_known_upd(2) [OF inv(2)]
      landed_pending_remove [OF finite_txns t, of landed q] by (simp add: outstanding_def)
next
  case settled
  have l: "ptx_signature t \<in> landed" using honest settled(2) by (auto simp: honest_confirm_def)
  show ?thesis
    using record_burn_spec [OF inv(1) settled(1)] record_burn_outstanding [OF inv settled(1) t l]
      payers_known_upd(2,3) inv(2) by simp
qed

lemma confirm_loop_outstanding:
  assumes "tables_inv db" "payers_known (owed db) (txns db)" "honest_confirm S landed"
    and "\<forall>t\<in>set ts. txns db (ptx_signature t) = Some (ptx_payer t, ptx_amount t)"
    and "distinct (map ptx_signature ts)"
    and "confirm_loop P S clock i ts db bal = (db', bal', r)"
  shows "tables_inv db' \<and> payers_known (owed db') (txns db') \<and>
    outstanding (owed db') (txns db') landed q = outstanding (owed db) (txns db) landed q \<and>
    (is_ok r \<longrightarrow> txns db' = (txns db) |` (- ptx_signature ` set ts))"
  using assms
proof (induction ts arbitrary: i db bal)
  case (Cons t ts)
  obtain db1 bal1 r1 where c: "confirm_txn P S clock i t db bal = (db1, bal1, r1)" by (rule prod_cases3)
  have t: "txns db (ptx_signature t) = Some (ptx_payer t, ptx_amount t)" using Cons.prems(4) by simp
  note one = confirm_txn_outstanding [OF Cons.prems(1-3) t c, of q]
  show ?case
  proof (cases r1)
    case (Inl e)
    then show ?thesis using one c Cons.prems(6) by auto
  next
    case (Inr u)
    have "confirm_loop P S clock (Suc i) ts db1 bal1 = (db', bal', r)"
      using c Inr Cons.prems(6) by simp
    moreover have tx1: "txns db1 = (txns db)(ptx_signature t := None)" using one Inr by simp
    moreover have "\<forall>t'\<in>set ts. txns db1 (ptx_signature t') = Some (ptx_payer t', ptx_amount t')"
      using Cons.prems(4,5) tx1 by (auto simp: image_iff)
    moreover have "tables_inv db1" "payers_known (owed db1) (txns db1)" "distinct (map ptx_signature ts)"
      using one Cons.prems(5) by auto
    ultimately have ih: "tables_inv db' \<and> payers_known (owed db') (txns db') \<and>
        outstanding (owed db') (txns db') landed q = outstanding (owed db1) (txns db1) landed q \<and>
        (is_ok r \<longrightarrow> txns db' = (txns db1) |` (- ptx_signature ` set ts))"
      using Cons.IH [OF _ _ Cons.prems(3)] by blast
    moreover have "(txns db1) |` (- ptx_signature ` set ts) = (txns db) |` (- ptx_signature ` set (t # ts))"
      unfolding tx1 by (auto simp: restrict_map_def fun_eq_iff)
    ultimately show ?thesis using one by simp
  qed
qed (auto simp: restrict_map_def)

lemma all_txns_entries:
  assumes "tables_inv db" "fetch_all_pending_txns P db = Inr ts" "t \<in> set ts"
  shows "txns db (ptx_signature t) = Some (ptx_payer t, ptx_amount t)"
  using all_txns [OF assms(1,2)] assms(3) by (auto intro!: map_of_is_SomeI simp: comp_def)

lemma confirm_pending_outstanding:
  assumes "tables_inv db" "payers_known (owed db) (txns db)" "honest_confirm S landed"
    and "confirm_pending_txns P S clock db bal = (db', bal', r)"
  shows "tables_inv db' \<and> payers_known (owed db') (txns db') \<and>
    outstanding (owed db') (txns db') landed q = outstanding (owed db) (txns db) landed q \<and>
    (is_ok r \<longrightarrow> txns db' = Map.empty)"
proof (cases "fetch_all_pending_txns P db")
  case (Inl e)
  then show ?thesis using assms by (auto simp: confirm_pending_txns_def)
next
  case (Inr ts)
  note all = all_txns [OF assms(1) Inr]
  have "\<forall>t\<in>set ts. txns db (ptx_signature t) = Some (ptx_payer t, ptx_amount t)"
    using all_txns_entries [OF assms(1) Inr] by blast
  moreover have "confirm_loop P S clock 0 ts db bal = (db', bal', r)"
    using assms(4) Inr by (simp add: confirm_pending_txns_def)
  ultimately have "tables_inv db' \<and> payers_known (owed db') (txns db') \<and>
      outstanding (owed db') (txns db') landed q = outstanding (owed db) (txns db) landed q \<and>
      (is_ok r \<longrightarrow> txns db' = (txns db) |` (- ptx_signature ` set ts))"
    using confirm_loop_outstanding [OF assms(1-3)] all by blast
  moreover have "(txns db) |` (- ptx_signature ` set ts) = Map.empty"
    using all by (auto simp: restrict_map_def fun_eq_iff map_of_eq_None_iff image_image)
  ultimately show ?thesis by simp
qed

end

section \<open>The cached balances agree with the tables\<close>

text \<open>\<open>extra p\<close> is what the open transaction of the verifier has debited from \<open>p\<close>
  and not committed yet.\<close>

definition cache_agrees :: "(pubkey \<Rightarrow> int option) \<Rightarrow> (pubkey \<Rightarrow> nat) \<Rightarrow> balance_store \<Rightarrow> bool" where
  "cache_agrees ow extra bal \<longleftrightarrow>
     (\<forall>p. case bal p of
            None \<Rightarrow> ow p = None \<and> extra p = 0
          | Some acc \<Rightarrow> int (unat (burned acc)) = (case ow p of None \<Rightarrow> 0 | Some n \<Rightarrow> n) + int (extra p))"

definition pending_covered :: "(pubkey \<Rightarrow> int option) \<Rightarrow> (string \<rightharpoonup> pubkey \<times> u64) \<Rightarrow> bool" where
  "pending_covered ow ts \<longleftrightarrow>
     (\<forall>p. landed_pending ts UNIV p \<le> (case ow p of None \<Rightarrow> 0 | Some n \<Rightarrow> n)) \<and>
     (\<forall>sig p a. ts sig = Some (p, a) \<longrightarrow> 0 \<le> sint a)"

lemma cache_agreesD:
  "cache_agrees ow extra bal \<Longrightarrow>
   (case bal p of
      None \<Rightarrow> ow p = None \<and> extra p = 0
    | Some acc \<Rightarrow> int (unat (burned acc)) = (case ow p of None \<Rightarrow> 0 | Some n \<Rightarrow> n) + int (extra p))"
  by (simp add: cache_agrees_def)

lemma cache_agrees_upd:
  assumes "cache_agrees ow extra bal"
    and "int (unat (burned acc)) = (case x of None \<Rightarrow> 0 | Some n \<Rightarrow> n) + int e"
  shows "cache_agrees (ow(p := x)) (extra(p := e)) (bal(p \<mapsto> acc))"
  unfolding cache_agrees_def
proof
  fix q show "case (bal(p \<mapsto> acc)) q of
      None \<Rightarrow> (ow(p := x)) q = None \<and> (extra(p := e)) q = 0
    | Some acc \<Rightarrow> int (unat (burned acc)) =
        (case (ow(p := x)) q of None \<Rightarrow> 0 | Some n \<Rightarrow> n) + int ((extra(p := e)) q)"
    using cache_agreesD [OF assms(1), of q] assms(2) by (cases "q = p") (simp_all split: option.splits)
qed

lemma sint_cases_64: "sint a = (if unat a < 2 ^ 63 then int (unat a) else int (unat a) - 2 ^ 64)"
  for a :: u64
  by (simp add: sint_cases)

lemma sint_nonneg_unat: "0 \<le> sint a \<Longrightarrow> sint a = int (unat a)" for a :: u64
  using unsigned_less [of a, where ?'a = int] by (auto simp: sint_cases_64 split: if_splits)

lemma settle_agrees:
  assumes "cache_agrees ow extra bal" "ow p = Some n" "0 \<le> sint a" "sint a \<le> n"
  shows "\<exists>bal'. settle_burn bal p a = Some bal' \<and> cache_agrees (ow(p \<mapsto> n - sint a)) extra bal'"
proof -
  obtain acc where acc: "bal p = Some acc" "int (unat (burned acc)) = n + int (extra p)"
    using cache_agreesD [OF assms(1), of p] assms(2) by (auto split: option.splits)
  let ?acc = "acc\<lparr>burned := saturating_sub (burned acc) a, balance := saturating_sub (balance acc) a\<rparr>"
  have "int (unat (burned ?acc)) = n - sint a + int (extra p)"
    using acc(2) assms(3,4) sint_nonneg_unat [OF assms(3)] unfolding uint_nat
    by (simp add: unat_saturating_sub of_nat_diff del: of_nat_unat)
  then have "cache_agrees (ow(p \<mapsto> n - sint a)) (extra(p := extra p)) (bal(p \<mapsto> ?acc))"
    by (intro cache_agrees_upd [OF assms(1)]) simp
  then show ?thesis using acc(1) by (simp add: settle_burn_def)
qed

lemma pending_le_sum:
  assumes "finite (dom ts)" "pending_covered ow ts" "ts sig = Some (p, a)"
  shows "0 \<le> sint a" "sint a \<le> (case ow p of None \<Rightarrow> 0 | Some n \<Rightarrow> n)"
proof -
  show nn: "0 \<le> sint a" using assms(2,3) unfolding pending_covered_def by blast
  have "landed_pending (ts(sig := None)) UNIV p = landed_pending ts UNIV p - sint a"
    using landed_pending_remove [OF assms(1,3), of UNIV p] by simp
  moreover have "0 \<le> landed_pending (ts(sig := None)) UNIV p"
    unfolding landed_pending_def
    by (rule sum_nonneg) (use assms(2) in \<open>auto simp: pending_covered_def split: if_splits\<close>)
  ultimately show "sint a \<le> (case ow p of None \<Rightarrow> 0 | Some n \<Rightarrow> n)"
    using assms(2) unfolding pending_covered_def by (smt (verit))
qed

lemma pending_covered_remove:
  assumes "finite (dom ts)" "pending_covered ow ts" "ts sig = Some (p, a)" "ow p = Some n"
  shows "pending_covered (ow(p \<mapsto> n - sint a)) (ts(sig := None))" "pending_covered ow (ts(sig := None))"
proof -
  have rm: "landed_pending (ts(sig := None)) UNIV q = landed_pending ts UNIV q - (if q = p then sint a else 0)" for q
    using landed_pending_remove [OF assms(1,3), of UNIV q] by simp
  have le: "landed_pending ts UNIV q \<le> (case ow q of None \<Rightarrow> 0 | Some n \<Rightarrow> n)" for q
    using assms(2) by (simp add: pending_covered_def)
  have nn: "0 \<le> sint a" "\<forall>s q b. (ts(sig := None)) s = Some (q, b) \<longrightarrow> 0 \<le> sint b"
    using assms(2,3) by (auto simp: pending_covered_def split: if_splits)
  show "pending_covered (ow(p \<mapsto> n - sint a)) (ts(sig := None))"
    unfolding pending_covered_def rm using le nn(2) le [of p] assms(4) by auto
  have "landed_pending ts UNIV q - (if q = p then sint a else 0) \<le> (case ow q of None \<Rightarrow> 0 | Some n \<Rightarrow> n)" for q
  proof -
    have "0 \<le> (if q = p then sint a else 0)" using nn(1) by simp
    then show ?thesis using le [of q] by linarith
  qed
  then show "pending_covered ow (ts(sig := None))" unfolding pending_covered_def rm using nn(2) by blast
qed

lemma pending_covered_empty: "\<forall>p n. ow p = Some n \<longrightarrow> 0 \<le> n \<Longrightarrow> pending_covered ow Map.empty"
  by (auto simp: pending_covered_def landed_pending_def split: option.splits)

lemma pending_covered_nonneg:
  assumes "pending_covered ow ts" "ow p = Some n" shows "0 \<le> n"
proof -
  have "0 \<le> landed_pending ts UNIV p"
    unfolding landed_pending_def by (rule sum_nonneg) (use assms in \<open>auto simp: pending_covered_def\<close>)
  also have "\<dots> \<le> n" using assms unfolding pending_covered_def by (metis option.simps(5))
  finally show ?thesis .
qed

lemma pending_covered_single:
  assumes "\<forall>p n. ow p = Some n \<longrightarrow> 0 \<le> n" "ow p = Some (sint a)"
  shows "pending_covered ow [sig \<mapsto> (p, a)]"
proof -
  have "landed_pending [sig \<mapsto> (p, a)] UNIV q = (if q = p then sint a else 0)" for q
    using landed_pending_insert [of "[sig \<mapsto> (p, a)]" sig p a "UNIV - {sig}" q]
    by (simp add: landed_pending_def insert_absorb)
  then show ?thesis using assms by (auto simp: pending_covered_def split: option.splits)
qed

definition ledger_ok ::
  "(pubkey \<Rightarrow> int option) \<Rightarrow> (string \<rightharpoonup> pubkey \<times> u64) \<Rightarrow> (pubkey \<Rightarrow> nat) \<Rightarrow> balance_store \<Rightarrow> bool" where
  "ledger_ok ow ts extra bal \<longleftrightarrow>
     payers_known ow ts \<and> pending_covered ow ts \<and> cache_agrees ow extra bal"

context pending_tables_contract
begin

lemma burn_in_step:
  assumes inv: "tables_inv db" "ledger_ok (owed db) Map.empty extra bal" "txns db = Map.empty"
    and burn: "burn P S clock db bal = (db', bal', sub, r)"
  shows "ledger_ok (owed db') (txns db') extra bal' \<and> r \<noteq> Inl UnknownPayer \<and>
    (is_ok r \<longrightarrow> txns db' = Map.empty)"
  using burn
proof (cases rule: burn_cases)
  case idle
  then show ?thesis using inv by (cases r) auto
next
  case (unrecorded b txn)
  have ow: "owed db (burn_payer b) = Some (sint (burn_amount b))" using next_burn [OF inv(1) unrecorded(1)] by simp
  have nn: "\<forall>p n. owed db p = Some n \<longrightarrow> 0 \<le> n"
    using inv(2) pending_covered_nonneg by (auto simp: ledger_ok_def)
  have "owed db' = owed db" "txns db' = [get_signature S txn \<mapsto> (burn_payer b, burn_amount b)]"
    using add_pending [OF inv(1) unrecorded(3)] inv(3) by auto
  then show ?thesis
    using pending_covered_single [OF nn ow] inv(2) ow unrecorded(4,6)
    by (auto simp: ledger_ok_def payers_known_def split: if_splits)
next
  case (recorded b txn db1)
  let ?p = "burn_payer b" and ?a = "burn_amount b"
  have ow: "owed db ?p = Some (sint ?a)" "10000 \<le> sint ?a" using next_burn [OF inv(1) recorded(1)] by auto
  have nn: "\<forall>p n. owed db p = Some n \<longrightarrow> 0 \<le> n"
    using inv(2) pending_covered_nonneg by (auto simp: ledger_ok_def)
  note add = add_pending [OF inv(1) recorded(3)]
  have spec: "txns db' = Map.empty" "owed db' = (owed db)(?p \<mapsto> sint ?a - sint ?a)"
    using record_burn_spec [OF _ recorded(5)] add inv(3) ow by auto
  obtain m where m: "settle_burn bal ?p ?a = Some m" "cache_agrees (owed db') extra m"
    using settle_agrees [of "owed db" extra bal ?p "sint ?a" ?a] inv(2) ow spec(2) by (auto simp: ledger_ok_def)
  then have "bal' = m" "r = Inr ()" using recorded(7) by auto
  then show ?thesis
    using m spec nn pending_covered_empty [of "owed db'"] by (auto simp: ledger_ok_def payers_known_def)
qed

lemma confirm_txn_in_step:
  assumes inv: "tables_inv db" "ledger_ok (owed db) (txns db) extra bal"
    and t: "txns db (ptx_signature t) = Some (ptx_payer t, ptx_amount t)"
    and c: "confirm_txn P S clock i t db bal = (db', bal', Inr u)"
  shows "ledger_ok (owed db') (txns db') extra bal' \<and> tables_inv db' \<and>
    txns db' = (txns db)(ptx_signature t := None)"
  using c
proof (cases rule: confirm_txn_cases)
  case (dropped t1 t2)
  have known: "payers_known (owed db) (txns db)" "pending_covered (owed db) (txns db)"
    using inv(2) by (auto simp: ledger_ok_def)
  obtain n where n: "owed db (ptx_payer t) = Some n" using known(1) t by (auto simp: payers_known_def)
  have "tables_inv t2 \<and> txns t2 = (txns db)(ptx_signature t := None) \<and> owed t2 = owed db"
    using remove_pending [OF _ dropped(2)] begin_txn [OF dropped(1)] inv(1) by simp
  then show ?thesis
    using commit_txn [OF dropped(4)] payers_known_upd(2) [OF known(1)] dropped(5) inv(2)
      pending_covered_remove(2) [OF finite_txns known(2) t n] by (simp add: ledger_ok_def)
next
  case settled
  have known: "payers_known (owed db) (txns db)" "pending_covered (owed db) (txns db)"
    using inv(2) by (auto simp: ledger_ok_def)
  obtain n where n: "owed db (ptx_payer t) = Some n" using known(1) t by (auto simp: payers_known_def)
  have a: "0 \<le> sint (ptx_amount t)" "sint (ptx_amount t) \<le> n"
    using pending_le_sum [OF finite_txns known(2) t] n by auto
  have spec: "tables_inv db'" "txns db' = (txns db)(ptx_signature t := None)"
      "owed db' = (owed db)(ptx_payer t \<mapsto> n - sint (ptx_amount t))"
    using record_burn_spec [OF inv(1) settled(1)] n by auto
  moreover have "cache_agrees (owed db') extra bal'"
    using settle_agrees [of "owed db" extra bal, OF _ n a] inv(2) settled(3) spec(3) by (auto simp: ledger_ok_def)
  moreover have "pending_covered (owed db') (txns db')"
    using pending_covered_remove(1) [OF finite_txns known(2) t n] spec by simp
  moreover have "payers_known (owed db') (txns db')"
    using known(1) spec by (auto simp: payers_known_def split: if_splits)
  ultimately show ?thesis by (simp add: ledger_ok_def)
qed auto

lemma confirm_txn_no_panic:
  assumes "tables_inv db" "ledger_ok (owed db) (txns db) extra bal"
    and t: "txns db (ptx_signature t) = Some (ptx_payer t, ptx_amount t)"
    and c: "confirm_txn P S clock i t db bal = (db', bal', r)"
  shows "r \<noteq> Inl ConfirmUnknownPayer"
proof -
  have known: "payers_known (owed db) (txns db)" "pending_covered (owed db) (txns db)"
      "cache_agrees (owed db) extra bal"
    using assms(2) by (auto simp: ledger_ok_def)
  obtain n where n: "owed db (ptx_payer t) = Some n" using known(1) t by (auto simp: payers_known_def)
  then have "settle_burn bal (ptx_payer t) (ptx_amount t) \<noteq> None"
    using settle_agrees [OF known(3) n] pending_le_sum [OF finite_txns known(2) t] by auto
  then show ?thesis
    using c by (auto simp: confirm_txn_def confirm_delay_def Let_def split: sum.splits option.splits bool.splits if_splits)
qed

lemma confirm_loop_in_step:
  assumes "tables_inv db" "ledger_ok (owed db) (txns db) extra bal"
    and "\<forall>t\<in>set ts. txns db (ptx_signature t) = Some (ptx_payer t, ptx_amount t)"
    and "distinct (map ptx_signature ts)"
    and "confirm_loop P S clock i ts db bal = (db', bal', r)"
  shows "r \<noteq> Inl ConfirmUnknownPayer \<and> (is_ok r \<longrightarrow> ledger_ok (owed db') (txns db') extra bal')"
  using assms
proof (induction ts arbitrary: i db bal)
  case (Cons t ts)
  obtain db1 bal1 r1 where c: "confirm_txn P S clock i t db bal = (db1, bal1, r1)" by (rule prod_cases3)
  have t: "txns db (ptx_signature t) = Some (ptx_payer t, ptx_amount t)" using Cons.prems(3) by simp
  show ?case
  proof (cases r1)
    case (Inl e)
    then show ?thesis using confirm_txn_no_panic [OF Cons.prems(1,2) t c] c Cons.prems(5) by auto
  next
    case (Inr u)
    then have one: "ledger_ok (owed db1) (txns db1) extra bal1" "tables_inv db1"
        "txns db1 = (txns db)(ptx_signature t := None)"
      using confirm_txn_in_step [OF Cons.prems(1,2) t c [unfolded Inr]] by auto
    have "confirm_loop P S clock (Suc i) ts db1 bal1 = (db', bal', r)" using c Inr Cons.prems(5) by simp
    moreover have "\<forall>t'\<in>set ts. txns db1 (ptx_signature t') = Some (ptx_payer t', ptx_amount t')"
      using Cons.prems(3,4) one(3) by (auto simp: image_iff)
    moreover have "distinct (map ptx_signature ts)" using Cons.prems(4) by simp
    ultimately show ?thesis using Cons.IH [OF one(2,1)] by blast
  qed
qed auto

lemma confirm_pending_in_step:
  assumes "tables_inv db" "ledger_ok (owed db) (txns db) extra bal"
    and "confirm_pending_txns P S clock db bal = (db', bal', r)"
  shows "r \<noteq> Inl ConfirmUnknownPayer \<and> (is_ok r \<longrightarrow> ledger_ok (owed db') (txns db') extra bal')"
proof (cases "fetch_all_pending_txns P db")
  case (Inl e)
  then show ?thesis using assms(3) by (auto simp: confirm_pending_txns_def)
next
  case (Inr ts)
  then have l: "confirm_loop P S clock 0 ts db bal = (db', bal', r)"
    using assms(3) by (simp add: confirm_pending_txns_def)
  show ?thesis
    using confirm_loop_in_step [OF assms(1,2) _ _ l] all_txns [OF assms(1) Inr]
      all_txns_entries [OF assms(1) Inr] by blast
qed

end

section \<open>Properties of the burner\<close>

lemma burner_tick_cases:
  assumes "burner_tick P S clock P' S' clock' db bal = (db', bal', sub, r)"
  obtains (ok) "burn P S clock db bal = (db', bal', sub, Inr ())" "r = Inr ()"
  | (panic) "burn P S clock db bal = (db', bal', sub, Inl UnknownPayer)"
  | (confirm) e db1 bal1 r1 where "burn P S clock db bal = (db1, bal1, sub, Inl e)"
      "confirm_pending_txns P' S' clock' db1 bal1 = (db', bal', r1)" "r = map_err Some r1"
  using assms by (auto simp: burner_tick_def split: prod.splits sum.splits burn_error.splits)

lemma is_ok_map_err [simp]: "is_ok (map_err f r) = is_ok r"
  by (cases r) auto

text \<open>C8: Whatever statement fails, and whether a failed submission took effect or not, a
  tick of the burner lowers what each payer still owes exactly by what the chain executed for
  that payer. It does not panic, and when it ends without an error no transaction is left
  pending and the cached burned amounts agree with the table. Assumed of Solana: new
  transactions have new signatures, and a confirmation tells whether the transaction
  was executed.\<close>

theorem tick_conserves_credits:
  assumes inv: "pg_tables_inv db" "pg_txns db = Map.empty" "ledger_ok (pg_owed db) Map.empty extra bal"
    and fresh: "fresh_signatures S landed"
    and tick: "burner_tick (with_faults f pg_ops) S clock (with_faults f' pg_ops) S' clock' db bal =
      (db', bal', sub, r)"
    and chain: "chain_after S landed sub landed'" and honest: "honest_confirm S' landed'"
  shows "pg_tables_inv db' \<and>
    outstanding (pg_owed db') (pg_txns db') landed' p =
      outstanding (pg_owed db) (pg_txns db) landed p - burned_on_chain S sub landed' p \<and>
    r \<notin> {Inl None, Inl (Some ConfirmUnknownPayer)} \<and>
    (is_ok r \<longrightarrow> pg_txns db' = Map.empty \<and> ledger_ok (pg_owed db') Map.empty extra bal')"
  using tick
proof (cases rule: burner_tick_cases)
  case ok
  have known: "payers_known (pg_owed db) (pg_txns db)" using inv(2) by (simp add: payers_known_def)
  have "pg_txns db' = Map.empty" "ledger_ok (pg_owed db') (pg_txns db') extra bal'"
    using pg.burn_in_step [OF inv(1,3,2) ok(1)] by auto
  then show ?thesis
    using pg.burn_outstanding [OF inv(1) known fresh ok(1) chain] ok(2) by simp
next
  case panic
  then show ?thesis using pg.burn_in_step [OF inv(1,3,2) panic(1)] by simp
next
  case (confirm e db1 bal1 r1)
  have known: "payers_known (pg_owed db) (pg_txns db)" using inv(2) by (simp add: payers_known_def)
  note burn = pg.burn_outstanding [OF inv(1) known fresh confirm(1) chain]
  have inv1: "pg_tables_inv db1" "payers_known (pg_owed db1) (pg_txns db1)" using burn by auto
  have led: "ledger_ok (pg_owed db1) (pg_txns db1) extra bal1"
    using pg.burn_in_step [OF inv(1,3,2) confirm(1)] by simp
  note c = pg.confirm_pending_outstanding [OF inv1 honest confirm(2)]
  note st = pg.confirm_pending_in_step [OF inv1(1) led confirm(2)]
  have "ledger_ok (pg_owed db') Map.empty extra bal'" "pg_txns db' = Map.empty" if "is_ok r1"
    using st c that by auto
  moreover have "outstanding (pg_owed db') (pg_txns db') landed' p =
      outstanding (pg_owed db) (pg_txns db) landed p - burned_on_chain S sub landed' p"
    using burn [of p] c [of p] by simp
  moreover have "r \<notin> {Inl None, Inl (Some ConfirmUnknownPayer)}" using st confirm(3) by (cases r1) auto
  ultimately show ?thesis using c confirm(3) by simp
qed

definition solana_demo :: "string \<Rightarrow> bool \<Rightarrow> bool \<Rightarrow> (unit, string) solana" where
  "solana_demo sig submit_ok landed =
     \<lparr>payer_balance = (\<lambda>_. Inr 50000), make_burn_transaction = (\<lambda>_ _. Inr sig), get_signature = id,
      submit_transaction = (\<lambda>_. if submit_ok then Inr () else Inl ()),
      confirm_transaction = (\<lambda>s. Inr (landed \<and> s = sig))\<rparr>"

definition tables_demo :: pg_tables where
  "tables_demo = \<lparr>pending_burns = [\<lparr>br_payer = ''p'', br_amount = 20000, br_last_burn = 0\<rparr>], pending_txns = []\<rparr>"

text \<open>The burn is submitted, the submission reports an error although the chain executes it,
  and the confirmation settles it.\<close>

theorem tick_conserves_credits_witness:
  "\<exists>db' bal' sub r.
     burner_tick (with_faults (\<lambda>_. False) pg_ops) (solana_demo ''s'' False True) (\<lambda>_. 0)
       (with_faults (\<lambda>_. False) pg_ops) (solana_demo ''s'' False True) (\<lambda>_. 0)
       tables_demo [''p'' \<mapsto> \<lparr>balance = 50000, burned = 20000\<rparr>] = (db', bal', sub, r) \<and>
     burned_on_chain (solana_demo ''s'' False True) sub {''s''} ''p'' = 20000 \<and>
     outstanding (pg_owed db') (pg_txns db') {''s''} ''p'' = 20000 - 20000"
proof -
  let ?S = "solana_demo ''s'' False True" and ?P = "with_faults (\<lambda>_. False) pg_ops"
    and ?bal = "[''p'' \<mapsto> \<lparr>balance = 50000, burned = 20000\<rparr>]"
  obtain db' bal' sub r where t: "burner_tick ?P ?S (\<lambda>_. 0) ?P ?S (\<lambda>_. 0) tables_demo ?bal = (db', bal', sub, r)"
    by (metis prod_cases4)
  have "burn ?P ?S (\<lambda>_. 0) tables_demo ?bal =
      (tables_demo\<lparr>pending_txns := [\<lparr>tr_signature = ''s'', tr_payer = ''p'', tr_amount = 20000, tr_time = 0\<rparr>]\<rparr>,
       ?bal, Some (''p'', 20000, ''s''), Inl (SolanaError ()))"
    by (simp add: burn_def with_faults_def faulty_def pg_fetch_next_burn_def tables_demo_def Let_def
        burn_from_row_def BURN_THRESHOLD_def solana_demo_def pg_add_pending_transaction_def)
  then have sub: "sub = Some (''p'', 20000, ''s'')"
    using t by (simp add: burner_tick_def split: prod.splits)
  have inv: "pg_tables_inv tables_demo" "pg_txns tables_demo = Map.empty"
    by (simp_all add: pg_tables_inv_def pg_txns_def tables_demo_def)
  have ow: "pg_owed tables_demo = [''p'' \<mapsto> 20000]"
    by (auto simp: pg_owed_def tables_demo_def)
  have led: "ledger_ok (pg_owed tables_demo) Map.empty (\<lambda>_. 0) ?bal"
    unfolding ow ledger_ok_def
    by (auto simp: payers_known_def cache_agrees_def intro: pending_covered_empty split: if_splits)
  have fr: "fresh_signatures ?S {}" "honest_confirm ?S {''s''}" "chain_after ?S {} sub {''s''}"
    by (auto simp: fresh_signatures_def honest_confirm_def chain_after_def sub solana_demo_def)
  have "burned_on_chain ?S sub {''s''} ''p'' = 20000" by (simp add: burned_on_chain_def sub solana_demo_def)
  moreover have "outstanding (pg_owed tables_demo) (pg_txns tables_demo) {} ''p'' = 20000"
    by (simp add: outstanding_def landed_pending_def ow)
  ultimately show ?thesis
    using tick_conserves_credits [OF inv led fr(1) t fr(3,2), of "''p''"] t by auto
qed

text \<open>The confirmation of the pending transactions changes what no payer owes, whichever
  statement fails, and removes every pending transaction when it ends without an error.\<close>

theorem confirm_conserves_credits:
  assumes "pg_tables_inv db" "payers_known (pg_owed db) (pg_txns db)" "honest_confirm S landed"
    and "confirm_pending_txns (with_faults f pg_ops) S clock db bal = (db', bal', r)"
  shows "outstanding (pg_owed db') (pg_txns db') landed p = outstanding (pg_owed db) (pg_txns db) landed p \<and>
    (is_ok r \<longrightarrow> pg_txns db' = Map.empty)"
  using pg.confirm_pending_outstanding [OF assms] by blast

theorem confirm_conserves_credits_witness:
  "\<exists>db' bal' r. confirm_pending_txns (with_faults (\<lambda>_. False) pg_ops) (solana_demo ''s'' True True) (\<lambda>_. 0)
       (tables_demo\<lparr>pending_txns := [\<lparr>tr_signature = ''s'', tr_payer = ''p'', tr_amount = 20000, tr_time = 0\<rparr>]\<rparr>)
       [''p'' \<mapsto> \<lparr>balance = 50000, burned = 20000\<rparr>] = (db', bal', r) \<and>
     (is_ok r \<longrightarrow> pg_txns db' = Map.empty)"
proof -
  let ?db = "tables_demo\<lparr>pending_txns := [\<lparr>tr_signature = ''s'', tr_payer = ''p'', tr_amount = 20000, tr_time = 0\<rparr>]\<rparr>"
  obtain db' bal' r where c: "confirm_pending_txns (with_faults (\<lambda>_. False) pg_ops) (solana_demo ''s'' True True) (\<lambda>_. 0)
       ?db [''p'' \<mapsto> \<lparr>balance = 50000, burned = 20000\<rparr>] = (db', bal', r)" by (metis prod_cases3)
  have "pg_tables_inv ?db" "payers_known (pg_owed ?db) (pg_txns ?db)" "honest_confirm (solana_demo ''s'' True True) {''s''}"
    by (auto simp: pg_tables_inv_def tables_demo_def payers_known_def pg_owed_def pg_txns_def honest_confirm_def
        solana_demo_def split: if_splits)
  from confirm_conserves_credits [OF this c] c show ?thesis by blast
qed

lemma update_burns_ok:
  "\<forall>r\<in>set rs. br_payer r = p \<longrightarrow> - (2 ^ 63) \<le> sint (br_amount r) - sint a \<and> sint (br_amount r) - sint a < 2 ^ 63 \<Longrightarrow>
   \<exists>rs'. update_burns now p a rs = Inr rs'"
  by (induction rs) (auto simp: bigint_def)

text \<open>C27: When the database and Solana answer, a burn of the payer that
  \<open>fetch_next_burn\<close> selects ends without an error, leaves nothing pending for that payer,
  and changes no other payer.\<close>

theorem burn_clears_payer:
  assumes inv: "pg_tables_inv db" "pg_txns db = Map.empty" "ledger_ok (pg_owed db) Map.empty extra bal"
    and b: "pg_fetch_next_burn db = Inr (Some b)"
    and sol: "make_burn_transaction S (burn_payer b) (burn_amount b) = Inr txn" "submit_transaction S txn = Inr ()"
  shows "\<exists>db' bal'. burn pg_ops S clock db bal = (db', bal', Some (burn_payer b, burn_amount b, txn), Inr ()) \<and>
    pg_owed db' = (pg_owed db)(burn_payer b \<mapsto> 0) \<and> ledger_ok (pg_owed db') (pg_txns db') extra bal'"
proof -
  let ?p = "burn_payer b" and ?a = "burn_amount b" and ?sig = "get_signature S txn"
  have ow: "pg_owed db ?p = Some (sint ?a)" using pg_next_burn [OF inv(1) b] by simp
  have "pending_txns db = []" using inv(2) by (auto simp: pg_txns_def)
  then obtain db1 where add: "pg_add_pending_transaction (clock 0) db ?p ?a ?sig = Inr db1"
    and pb: "pending_burns db1 = pending_burns db"
    by (simp add: pg_add_pending_transaction_def)
  have row: "br_amount r = ?a" if "r \<in> set (pending_burns db)" "br_payer r = ?p" for r
  proof -
    have "map_of (map (\<lambda>r. (br_payer r, br_amount r)) (pending_burns db)) (br_payer r) = Some (br_amount r)"
      using inv(1) that(1) by (intro map_of_is_SomeI) (auto simp: pg_tables_inv_def comp_def)
    then have "sint (br_amount r) = sint ?a" using ow that(2) by (simp add: pg_owed_def)
    then show ?thesis by (metis scast_id of_int_sint)
  qed
  obtain rs where "update_burns (clock 1) ?p ?a (pending_burns db) = Inr rs"
    using update_burns_ok [of "pending_burns db" ?p ?a] row by force
  then have rec: "record_burn pg_ops (clock 1) db1 ?sig ?p ?a =
      Inr (db1\<lparr>pending_txns := filter (\<lambda>r. tr_signature r \<noteq> ?sig) (pending_txns db1), pending_burns := rs\<rparr>)" (is "_ = Inr ?db2")
    using pb by (simp add: record_burn_def pg_remove_pending_transaction_def pg_subtract_burned_amount_def)
  have nofault: "with_faults (\<lambda>_. False) pg_ops = pg_ops"
    by (simp add: with_faults_def faulty_def pg_ops_def)
  obtain bal' r where burn: "burn pg_ops S clock db bal = (?db2, bal', Some (?p, ?a, txn), r)"
    using b sol add rec
    by (cases "settle_burn bal ?p ?a") (simp_all add: burn_def Let_def)
  note st = pg.burn_in_step [OF inv(1,3,2), of "\<lambda>_. False", unfolded nofault, OF burn]
  have "r = Inr ()" using burn st b sol add rec by (auto simp: burn_def Let_def split: option.splits)
  moreover have "pg_owed ?db2 = (pg_owed db)(?p \<mapsto> 0)"
    using pg.record_burn_spec [of db1 "\<lambda>_. False", unfolded nofault, OF _ rec] pg_add_pending [OF inv(1) add] ow by simp
  ultimately show ?thesis using burn st by auto
qed

theorem burn_clears_payer_witness:
  "\<exists>db' bal'. burn pg_ops (solana_demo ''s'' True True) (\<lambda>_. 0) tables_demo
       [''p'' \<mapsto> \<lparr>balance = 50000, burned = 20000\<rparr>] = (db', bal', Some (''p'', 20000, ''s''), Inr ()) \<and>
     pg_owed db' = (pg_owed tables_demo)(''p'' \<mapsto> 0)"
proof -
  have inv: "pg_tables_inv tables_demo" "pg_txns tables_demo = Map.empty"
    by (simp_all add: pg_tables_inv_def pg_txns_def tables_demo_def)
  have ow: "pg_owed tables_demo = [''p'' \<mapsto> 20000]" by (auto simp: pg_owed_def tables_demo_def)
  have led: "ledger_ok (pg_owed tables_demo) Map.empty (\<lambda>_. 0) [''p'' \<mapsto> \<lparr>balance = 50000, burned = 20000\<rparr>]"
    unfolding ow ledger_ok_def
    by (auto simp: payers_known_def cache_agrees_def intro: pending_covered_empty split: if_splits)
  have b: "pg_fetch_next_burn tables_demo = Inr (Some \<lparr>burn_payer = ''p'', burn_amount = 20000\<rparr>)"
    by (simp add: pg_fetch_next_burn_def tables_demo_def burn_from_row_def BURN_THRESHOLD_def)
  show ?thesis
    using burn_clears_payer [OF inv led b, of "solana_demo ''s'' True True" "''s''" "\<lambda>_. 0"]
    by (auto simp: solana_demo_def)
qed

end
