(* ===== verification/Timestamps.thy ===== *)
theory Timestamps
  imports Oracles_Prelude
begin

text \<open>
  The encoding of instants in messages (\<^verbatim>\<open>src/file_store/src/traits/msg_timestamp.rs\<close>):
  whole seconds, milliseconds or nanoseconds since the epoch as \<open>u64\<close>. Which instants
  \<open>chrono\<close> can represent is the argument \<open>representable\<close>. The lemmas give the
  round trips; an instant before the epoch does not survive one.
\<close>

datatype timestamp_error = IntConversion | InvalidTimestamp u64

definition to_timestamp :: "(timestamp \<Rightarrow> bool) \<Rightarrow> u64 \<Rightarrow> timestamp_error + timestamp" where
  "to_timestamp representable w =
     (if unat w < 2 ^ 63
      then (let t = seconds (int (unat w)) in if representable t then Inr t else Inl (InvalidTimestamp w))
      else Inl IntConversion)"

definition to_timestamp_millis :: "(timestamp \<Rightarrow> bool) \<Rightarrow> u64 \<Rightarrow> timestamp_error + timestamp" where
  "to_timestamp_millis representable w =
     (if unat w < 2 ^ 63
      then (let t = milliseconds (int (unat w)) in if representable t then Inr t else Inl (InvalidTimestamp w))
      else Inl IntConversion)"

definition to_timestamp_nanos :: "u64 \<Rightarrow> timestamp_error + timestamp" where
  "to_timestamp_nanos w = (if unat w < 2 ^ 63 then Inr (int (unat w)) else Inl IntConversion)"

definition encode_timestamp :: "timestamp \<Rightarrow> u64" where
  "encode_timestamp t = of_int (t div nanos_per_sec)"

definition encode_timestamp_millis :: "timestamp \<Rightarrow> u64" where
  "encode_timestamp_millis t = of_int (t div 1000000)"

text \<open>\<open>None\<close> is the panic on an instant that does not fit in 64-bit nanoseconds.\<close>

definition encode_timestamp_nanos :: "timestamp \<Rightarrow> u64 option" where
  "encode_timestamp_nanos t = (if - (2 ^ 63) \<le> t \<and> t < 2 ^ 63 then Some (of_int t) else None)"

lemma unat_of_int_64: "unat (of_int n :: u64) = nat (n mod 2 ^ 64)"
proof -
  have "uint (of_int n :: u64) = n mod 2 ^ 64" by (simp add: uint_word_of_int)
  then show ?thesis by (metis nat_uint_eq)
qed

lemma unat_of_int_pos: "0 \<le> n \<Longrightarrow> n < 2 ^ 63 \<Longrightarrow> unat (of_int n :: u64) = nat n"
  by (simp add: unat_of_int_64)

lemma unat_of_int_neg: "- (2 ^ 63) \<le> n \<Longrightarrow> n < 0 \<Longrightarrow> 2 ^ 63 \<le> unat (of_int n :: u64)"
proof -
  assume n: "- (2 ^ 63) \<le> n" "n < 0"
  have "n mod 2 ^ 64 = (n + 2 ^ 64) mod 2 ^ 64" by simp
  also have "\<dots> = n + 2 ^ 64" using n by (intro mod_pos_pos_trivial) auto
  finally show ?thesis using n by (simp add: unat_of_int_64)
qed

text \<open>Encoding an instant and decoding it again drops the part below the unit of the
  encoding and nothing else when the instant is at or after the epoch, and is an error when
  it is before the epoch.\<close>

theorem timestamp_roundtrip:
  assumes "- (2 ^ 63) \<le> t" "t < 2 ^ 63" "\<forall>t. representable t"
  shows "(0 \<le> t \<longrightarrow>
      to_timestamp representable (encode_timestamp t) = Inr (t - t mod nanos_per_sec) \<and>
      to_timestamp_millis representable (encode_timestamp_millis t) = Inr (t - t mod 1000000) \<and>
      (\<exists>w. encode_timestamp_nanos t = Some w \<and> to_timestamp_nanos w = Inr t)) \<and>
    (t < 0 \<longrightarrow>
      to_timestamp representable (encode_timestamp t) = Inl IntConversion \<and>
      to_timestamp_millis representable (encode_timestamp_millis t) = Inl IntConversion \<and>
      (\<exists>w. encode_timestamp_nanos t = Some w \<and> to_timestamp_nanos w = Inl IntConversion))"
proof -
  have d: "0 \<le> t div n \<and> t div n < 2 ^ 63" if "0 \<le> t" "1 \<le> n" for n
  proof -
    have "t div n \<le> t div 1" using that by (intro zdiv_mono2) auto
    then show ?thesis using that assms(2) by (simp add: pos_imp_zdiv_nonneg_iff)
  qed
  have e: "- (2 ^ 63) \<le> t div n \<and> t div n < 0" if "t < 0" "1 \<le> n" for n
  proof -
    have "t \<le> t div n" using that by (metis div_by_1 zdiv_mono2_neg zero_less_one)
    then show ?thesis using that assms(1) by (simp add: pos_imp_zdiv_neg_iff)
  qed
  note defs = to_timestamp_def encode_timestamp_def to_timestamp_millis_def encode_timestamp_millis_def
    to_timestamp_nanos_def encode_timestamp_nanos_def Let_def assms(3) [rule_format]
  show ?thesis
  proof (cases "0 \<le> t")
    case True
    note u = unat_of_int_pos [of "t div 1000000000"] unat_of_int_pos [of "t div 1000000"] unat_of_int_pos [of t]
    show ?thesis
      using True assms(1,2) u d [of 1000000000] d [of 1000000]
      by (simp add: defs minus_mod_eq_div_mult [symmetric] nat_less_iff)
  next
    case False
    note u = unat_of_int_neg [of "t div 1000000000"] unat_of_int_neg [of "t div 1000000"] unat_of_int_neg [of t]
    show ?thesis
      using False assms(1,2) u e [of 1000000000] e [of 1000000] by (simp add: defs)
  qed
qed

theorem timestamp_roundtrip_witness:
  "to_timestamp_millis (\<lambda>_. True) (encode_timestamp_millis 1234567890123) = Inr 1234567000000"
  using timestamp_roundtrip [of 1234567890123 "\<lambda>_. True"] by simp

end
