(* ===== verification/Packet_Verifier.thy ===== *)
theory Packet_Verifier
  imports Packet_Burner Timestamps
begin

text \<open>
  The verification of packet reports (\<^verbatim>\<open>src/iot_packet_verifier/src/verifier.rs\<close>): the
  price of a packet in data credits, the cached client of the organisation service, the
  loop over the reports of a file, and the monitor that enables organisations again.

  Every report comes with the answers that the services give while it is processed
  (\<open>verify_env\<close>). The calls to the organisation service that change it are collected
  in \<open>org_calls\<close>, the packets written to the two sinks in lists. The lemmas show that a
  successful run writes every uplink packet to exactly one sink, adds to the pending
  burns exactly the data credits of the valid packets, and keeps the balance cache in agreement
  with the table; and that the client sends no redundant call.
\<close>

section \<open>The price of a packet\<close>

definition BYTES_PER_DC :: u64 where
  "BYTES_PER_DC = 24"

definition payload_size_to_dc :: "u64 \<Rightarrow> u64" where
  "payload_size_to_dc payload_size =
     (let payload_size = max payload_size BYTES_PER_DC
      in (payload_size + BYTES_PER_DC - 1) div BYTES_PER_DC)"

section \<open>Organisations\<close>

record org =
  org_oui :: u64
  org_payer :: pubkey
  org_locked :: bool

text \<open>The answers of the organisation service; the organisation in the answer to
  \<open>get\<close> is optional.\<close>

record 'oe orgs =
  orgs_get :: "u64 \<Rightarrow> 'oe + pubkey option"
  orgs_list :: "'oe + org list"
  orgs_enable :: "u64 \<Rightarrow> 'oe + unit"
  orgs_disable :: "u64 \<Rightarrow> 'oe + unit"

datatype org_call = Enable u64 | Disable u64

datatype 'oe config_server_error = OrgError 'oe | NotFound u64

text \<open>\<open>org_calls\<close> holds the calls that succeeded, in order.\<close>

record cached_org_client =
  locked_cache :: "u64 \<rightharpoonup> bool"
  org_calls :: "org_call list"

definition fetch_org ::
  "'oe orgs \<Rightarrow> u64 \<Rightarrow> (u64 \<rightharpoonup> pubkey) \<Rightarrow> (u64 \<rightharpoonup> pubkey) \<times> ('oe config_server_error + pubkey)" where
  "fetch_org orgs oui oui_cache =
     (case oui_cache oui of
        Some pk \<Rightarrow> (oui_cache, Inr pk)
      | None \<Rightarrow>
          (case orgs_get orgs oui of
             Inl e \<Rightarrow> (oui_cache, Inl (OrgError e))
           | Inr None \<Rightarrow> (oui_cache, Inl (NotFound oui))
           | Inr (Some pk) \<Rightarrow> (oui_cache(oui \<mapsto> pk), Inr pk)))"

definition or_insert :: "('k \<rightharpoonup> 'v) \<Rightarrow> 'k \<Rightarrow> 'v \<Rightarrow> ('k \<rightharpoonup> 'v) \<times> 'v" where
  "or_insert m k v = (case m k of Some x \<Rightarrow> (m, x) | None \<Rightarrow> (m(k \<mapsto> v), v))"

definition disable_org ::
  "'oe orgs \<Rightarrow> cached_org_client \<Rightarrow> u64 \<Rightarrow> cached_org_client \<times> ('oe config_server_error + unit)" where
  "disable_org orgs c oui =
     (let (cache, enabled) = or_insert (locked_cache c) oui True; c = c\<lparr>locked_cache := cache\<rparr> in
      if enabled then
        (case orgs_disable orgs oui of
           Inl e \<Rightarrow> (c, Inl (OrgError e))
         | Inr _ \<Rightarrow> (c\<lparr>locked_cache := cache(oui \<mapsto> False), org_calls := org_calls c @ [Disable oui]\<rparr>, Inr ()))
      else (c, Inr ()))"

definition enable_org ::
  "'oe orgs \<Rightarrow> cached_org_client \<Rightarrow> u64 \<Rightarrow> cached_org_client \<times> ('oe config_server_error + unit)" where
  "enable_org orgs c oui =
     (let (cache, enabled) = or_insert (locked_cache c) oui False; c = c\<lparr>locked_cache := cache\<rparr> in
      if \<not> enabled then
        (case orgs_enable orgs oui of
           Inl e \<Rightarrow> (c, Inl (OrgError e))
         | Inr _ \<Rightarrow> (c\<lparr>locked_cache := cache(oui \<mapsto> True), org_calls := org_calls c @ [Enable oui]\<rparr>, Inr ()))
      else (c, Inr ()))"

definition list_orgs :: "'oe orgs \<Rightarrow> 'oe config_server_error + org list" where
  "list_orgs orgs = map_err OrgError (orgs_list orgs)"

section \<open>Reports and packets\<close>

datatype packet_type = Uplink | OtherPacket

record packet_report =
  pr_oui :: u64
  pr_gateway :: pubkey
  pr_payload_hash :: bytes
  pr_payload_size :: u32
  pr_packet_type :: packet_type
  pr_received_timestamp :: timestamp

record valid_packet =
  vp_packet_timestamp :: u64
  vp_payload_size :: u32
  vp_gateway :: pubkey
  vp_payload_hash :: bytes
  vp_num_dcs :: u32

datatype invalid_packet_reason = InsufficientBalance

record invalid_packet =
  ip_payload_size :: u32
  ip_gateway :: pubkey
  ip_payload_hash :: bytes
  ip_reason :: invalid_packet_reason

section \<open>The verification loop\<close>

datatype ('se, 'oe, 'we) verification_error =
  DebitError 'se | ConfigError "'oe config_server_error" | BurnError sqlx_error
| ValidPacketWriterError 'we | InvalidPacketWriterError 'we

record ('se, 'oe, 'we) verify_env =
  env_payer_balance :: "pubkey \<Rightarrow> 'se + u64"
  env_orgs :: "'oe orgs"
  env_now :: timestamp
  env_add_burned :: "timestamp \<Rightarrow> pg_tables \<Rightarrow> pubkey \<Rightarrow> u64 \<Rightarrow> sqlx_error + pg_tables"
  env_write :: "'we + unit"

record verify_state =
  v_org_cache :: "u64 \<rightharpoonup> pubkey"
  v_balances :: balance_store
  v_client :: cached_org_client
  v_tables :: pg_tables
  v_valid :: "valid_packet list"
  v_invalid :: "invalid_packet list"

definition valid_packet_of :: "packet_report \<Rightarrow> u64 \<Rightarrow> valid_packet" where
  "valid_packet_of report debit_amount =
     \<lparr>vp_packet_timestamp = encode_timestamp_millis (pr_received_timestamp report),
      vp_payload_size = pr_payload_size report, vp_gateway = pr_gateway report,
      vp_payload_hash = pr_payload_hash report, vp_num_dcs = ucast debit_amount\<rparr>"

definition invalid_packet_of :: "packet_report \<Rightarrow> invalid_packet" where
  "invalid_packet_of report =
     \<lparr>ip_payload_size = pr_payload_size report, ip_gateway = pr_gateway report,
      ip_payload_hash = pr_payload_hash report, ip_reason = InsufficientBalance\<rparr>"

definition disable_report ::
  "('se, 'oe, 'we) verify_env \<Rightarrow> packet_report \<Rightarrow> verify_state \<Rightarrow>
   verify_state \<times> (('se, 'oe, 'we) verification_error + unit)" where
  "disable_report env report st =
     (let (c, r) = disable_org (env_orgs env) (v_client st) (pr_oui report)
      in (st\<lparr>v_client := c\<rparr>, map_err ConfigError r))"

text \<open>The branch of a sufficient balance, with the remaining balance, and the branch of an
  insufficient one.\<close>

definition verify_valid ::
  "u64 \<Rightarrow> ('se, 'oe, 'we) verify_env \<Rightarrow> packet_report \<Rightarrow> pubkey \<Rightarrow> u64 \<Rightarrow> u64 \<Rightarrow> verify_state \<Rightarrow>
   verify_state \<times> (('se, 'oe, 'we) verification_error + unit)" where
  "verify_valid minimum_allowed_balance env report payer debit_amount remaining_balance st =
     (case env_add_burned env (env_now env) (v_tables st) payer debit_amount of
        Inl e \<Rightarrow> (st, Inl (BurnError e))
      | Inr tables \<Rightarrow>
          let st = st\<lparr>v_tables := tables\<rparr> in
          (case env_write env of
             Inl e \<Rightarrow> (st, Inl (ValidPacketWriterError e))
           | Inr _ \<Rightarrow>
               let st = st\<lparr>v_valid := v_valid st @ [valid_packet_of report debit_amount]\<rparr> in
               if remaining_balance < minimum_allowed_balance
               then disable_report env report st else (st, Inr ())))"

definition verify_invalid ::
  "('se, 'oe, 'we) verify_env \<Rightarrow> packet_report \<Rightarrow> verify_state \<Rightarrow>
   verify_state \<times> (('se, 'oe, 'we) verification_error + unit)" where
  "verify_invalid env report st =
     (case env_write env of
        Inl e \<Rightarrow> (st, Inl (InvalidPacketWriterError e))
      | Inr _ \<Rightarrow>
          disable_report env report (st\<lparr>v_invalid := v_invalid st @ [invalid_packet_of report]\<rparr>))"

definition verify_report ::
  "u64 \<Rightarrow> ('se, 'oe, 'we) verify_env \<Rightarrow> packet_report \<Rightarrow> verify_state \<Rightarrow>
   verify_state \<times> (('se, 'oe, 'we) verification_error + unit)" where
  "verify_report minimum_allowed_balance env report st =
     (if pr_packet_type report \<noteq> Uplink then (st, Inr ())
      else
        let debit_amount = payload_size_to_dc (ucast (pr_payload_size report)) in
        (case fetch_org (env_orgs env) (pr_oui report) (v_org_cache st) of
           (cache, Inl e) \<Rightarrow> (st\<lparr>v_org_cache := cache\<rparr>, Inl (ConfigError e))
         | (cache, Inr payer) \<Rightarrow>
             let st = st\<lparr>v_org_cache := cache\<rparr> in
             (case debit_if_sufficient (env_payer_balance env) (v_balances st) payer debit_amount
                     minimum_allowed_balance of
                (balances, Inl e) \<Rightarrow> (st\<lparr>v_balances := balances\<rparr>, Inl (DebitError e))
              | (balances, Inr (Some remaining_balance)) \<Rightarrow>
                  verify_valid minimum_allowed_balance env report payer debit_amount remaining_balance
                    (st\<lparr>v_balances := balances\<rparr>)
              | (balances, Inr None) \<Rightarrow> verify_invalid env report (st\<lparr>v_balances := balances\<rparr>))))"

fun verify_loop ::
  "u64 \<Rightarrow> (packet_report \<times> ('se, 'oe, 'we) verify_env) list \<Rightarrow> verify_state \<Rightarrow>
   verify_state \<times> (('se, 'oe, 'we) verification_error + unit)" where
  "verify_loop minimum_allowed_balance [] st = (st, Inr ())"
| "verify_loop minimum_allowed_balance ((report, env) # reports) st =
     (case verify_report minimum_allowed_balance env report st of
        (st, Inl e) \<Rightarrow> (st, Inl e)
      | (st, Inr _) \<Rightarrow> verify_loop minimum_allowed_balance reports st)"

definition verify ::
  "u64 \<Rightarrow> (packet_report \<times> ('se, 'oe, 'we) verify_env) list \<Rightarrow> verify_state \<Rightarrow>
   verify_state \<times> (('se, 'oe, 'we) verification_error + unit)" where
  "verify minimum_allowed_balance reports st =
     verify_loop minimum_allowed_balance reports (st\<lparr>v_org_cache := Map.empty\<rparr>)"

section \<open>The monitor of funds\<close>

datatype ('se, 'oe) monitor_error = ConfigClientError "'oe config_server_error" | MonitorSolanaError 'se

text \<open>One round of \<open>monitor_funds\<close>.\<close>

fun monitor_loop ::
  "(pubkey \<Rightarrow> 'se + u64) \<Rightarrow> 'oe orgs \<Rightarrow> u64 \<Rightarrow> org list \<Rightarrow> balance_store \<Rightarrow> cached_org_client \<Rightarrow>
   balance_store \<times> cached_org_client \<times> (('se, 'oe) monitor_error + unit)" where
  "monitor_loop pb orgs minimum [] balances c = (balances, c, Inr ())"
| "monitor_loop pb orgs minimum (g # gs) balances c =
     (if org_locked g then
        (case pb (org_payer g) of
           Inl e \<Rightarrow> (balances, c, Inl (MonitorSolanaError e))
         | Inr b \<Rightarrow>
             if b \<ge> minimum then
               let balances = set_balance balances (org_payer g) b in
               (case enable_org orgs c (org_oui g) of
                  (c, Inl e) \<Rightarrow> (balances, c, Inl (ConfigClientError e))
                | (c, Inr _) \<Rightarrow> monitor_loop pb orgs minimum gs balances c)
             else monitor_loop pb orgs minimum gs balances c)
      else monitor_loop pb orgs minimum gs balances c)"

definition monitor_round ::
  "(pubkey \<Rightarrow> 'se + u64) \<Rightarrow> 'oe orgs \<Rightarrow> u64 \<Rightarrow> balance_store \<Rightarrow> cached_org_client \<Rightarrow>
   balance_store \<times> cached_org_client \<times> (('se, 'oe) monitor_error + unit)" where
  "monitor_round pb orgs minimum balances c =
     (case list_orgs orgs of
        Inl e \<Rightarrow> (balances, c, Inl (ConfigClientError e))
      | Inr gs \<Rightarrow> monitor_loop pb orgs minimum gs balances c)"

section \<open>Properties of the price\<close>

lemma unat_payload_dc: "unat (payload_size_to_dc (ucast (n :: u32))) = max 1 ((unat n + 23) div 24)"
proof -
  let ?m = "max (ucast n) 24 :: u64"
  have n: "unat (ucast n :: u64) = unat n"
    by (simp add: unsigned_ucast_eq take_bit_nat_eq_self order_less_trans [OF unsigned_less])
  have n32: "unat n < 2 ^ 32" using unsigned_less [of n, where ?'a = nat] by simp
  have m: "unat ?m = max (unat n) 24" using n by (auto simp: max_def word_le_nat_alt)
  have s: "unat (?m + 23) = max (unat n) 24 + 23"
    using m n32 unat_add_small [of ?m 23] by (simp add: max_def)
  have "payload_size_to_dc (ucast n) = (?m + 23) div 24"
    by (simp add: payload_size_to_dc_def BYTES_PER_DC_def Let_def add.commute)
  then have "unat (payload_size_to_dc (ucast n)) = (max (unat n) 24 + 23) div 24"
    using unat_div [of "?m + 23" 24] s by simp
  then show ?thesis by (auto simp: max_def)
qed

lemma payload_dc_small: "unat (payload_size_to_dc (ucast (n :: u32))) < 2 ^ 32"
  using unsigned_less [of n, where ?'a = nat] by (simp add: unat_payload_dc)

lemma payload_dc_u32:
  "unat (ucast (payload_size_to_dc (ucast (n :: u32))) :: u32) = unat (payload_size_to_dc (ucast n))"
  using payload_dc_small [of n] by (simp add: unsigned_ucast_eq take_bit_nat_eq_self)

text \<open>A packet costs one data credit for every started block of 24 bytes of payload
  and at least one, and the price fits the 32-bit field of the packet that is written.\<close>

theorem payload_dc_price:
  "unat (payload_size_to_dc (ucast (n :: u32))) = max 1 ((unat n + 23) div 24) \<and>
   unat (ucast (payload_size_to_dc (ucast n)) :: u32) = unat (payload_size_to_dc (ucast n))"
  using unat_payload_dc payload_dc_u32 by blast

section \<open>Debits keep the cache in agreement\<close>

lemma debit_agrees:
  assumes agrees: "cache_agrees ow extra bal"
    and small: "(case ow p of None \<Rightarrow> 0 | Some n \<Rightarrow> n) + int (extra p) + int (unat a) < 2 ^ 64"
    and d: "debit_if_sufficient pb bal p a thr = (bal', r)"
  shows "case r of
      Inl e \<Rightarrow> bal' = bal
    | Inr None \<Rightarrow> cache_agrees ow extra bal'
    | Inr (Some _) \<Rightarrow> cache_agrees ow (extra(p := extra p + unat a)) bal'"
proof (cases "bal p")
  case None
  then have z: "ow p = None" "extra p = 0" using cache_agreesD [OF agrees, of p] by auto
  have "cache_agrees (ow(p := ow p)) (extra(p := unat (burned acc))) (bal(p \<mapsto> acc))" for acc
    by (rule cache_agrees_upd [OF agrees]) (simp add: z)
  then have upd: "cache_agrees ow (extra(p := unat (burned acc))) (bal(p \<mapsto> acc))" for acc by simp
  show ?thesis
    using d None z upd [of "account_new b" for b] upd [of "(account_new b)\<lparr>burned := 0 + a\<rparr>" for b]
    by (auto simp: debit_if_sufficient_def account_new_def fun_upd_idem split: sum.splits if_splits)
next
  case (Some acc)
  have b: "int (unat (burned acc)) = (case ow p of None \<Rightarrow> 0 | Some n \<Rightarrow> n) + int (extra p)"
    using cache_agreesD [OF agrees, of p] Some by simp
  then have s: "unat (burned acc + a) = unat (burned acc) + unat a"
    using small unat_add_small [of "burned acc" a] by (simp del: of_nat_unat)
  have "cache_agrees (ow(p := ow p)) (extra(p := extra p + unat a)) (bal(p \<mapsto> acc\<lparr>balance := x, burned := burned acc + a\<rparr>))" for x
    by (rule cache_agrees_upd [OF agrees]) (simp add: s b del: of_nat_unat)
  then have upd: "cache_agrees ow (extra(p := extra p + unat a)) (bal(p \<mapsto> acc\<lparr>balance := x, burned := burned acc + a\<rparr>))" for x
    by simp
  show ?thesis
    using d Some agrees upd by (auto simp: debit_if_sufficient_def Let_def split: sum.splits option.splits)
qed

lemma debit_known: "debit_if_sufficient pb bal p a thr = (bal', Inr x) \<Longrightarrow> bal' p \<noteq> None"
  by (auto simp: debit_if_sufficient_def Let_def split: option.splits sum.splits if_splits)

lemma cache_agrees_shift:
  assumes "cache_agrees ow (extra(p := extra p + n)) bal" "bal p \<noteq> None"
  shows "cache_agrees (ow(p \<mapsto> (case ow p of None \<Rightarrow> 0 | Some n \<Rightarrow> n) + int n)) extra bal"
  unfolding cache_agrees_def
proof
  fix q show "case bal q of
      None \<Rightarrow> (ow(p \<mapsto> (case ow p of None \<Rightarrow> 0 | Some n \<Rightarrow> n) + int n)) q = None \<and> extra q = 0
    | Some acc \<Rightarrow> int (unat (burned acc)) =
        (case (ow(p \<mapsto> (case ow p of None \<Rightarrow> 0 | Some n \<Rightarrow> n) + int n)) q of None \<Rightarrow> 0 | Some n \<Rightarrow> n) + int (extra q)"
    using cache_agreesD [OF assms(1), of q] assms(2)
    by (cases "q = p") (auto split: option.splits)
qed


section \<open>A run over the reports\<close>

definition total_owed :: "pg_tables \<Rightarrow> int" where
  "total_owed db = (\<Sum>r\<leftarrow>pending_burns db. sint (br_amount r))"

definition verify_inv :: "verify_state \<Rightarrow> bool" where
  "verify_inv st \<longleftrightarrow> pg_tables_inv (v_tables st) \<and> cache_agrees (pg_owed (v_tables st)) (\<lambda>_. 0) (v_balances st)"

text \<open>The database may refuse a statement, but does nothing else than the statement.\<close>

definition env_sound :: "('se, 'oe, 'we) verify_env \<Rightarrow> bool" where
  "env_sound env \<longleftrightarrow> (\<forall>now db p a db'. env_add_burned env now db p a = Inr db' \<longrightarrow>
     pg_add_burned_amount now db p a = Inr db')"

lemma total_owed_add:
  assumes "pg_add_burned_amount now db p a = Inr db'"
  shows "total_owed db' = total_owed db + sint a"
proof -
  obtain rs where rs: "upsert_burn now p a (pending_burns db) = Inr rs" "db' = db\<lparr>pending_burns := rs\<rparr>"
    using assms by (auto simp: pg_add_burned_amount_def result_simps)
  have "upsert_burn now p a xs = Inr rs \<Longrightarrow>
      (\<Sum>r\<leftarrow>rs. sint (br_amount r)) = (\<Sum>r\<leftarrow>xs. sint (br_amount r)) + sint a" for xs
    by (induction xs arbitrary: rs) (auto simp: result_simps sint_sum_64 split: if_splits)
  then show ?thesis using rs by (simp add: total_owed_def)
qed

lemma pg_owed_bound: "pg_owed db p = Some n \<Longrightarrow> n < 2 ^ 63"
  using sint_lt [where ?'a = 64] by (auto simp: pg_owed_def)

lemma disable_report_frame:
  "disable_report env report st = (st', r) \<Longrightarrow>
   v_tables st' = v_tables st \<and> v_balances st' = v_balances st \<and> v_valid st' = v_valid st \<and> v_invalid st' = v_invalid st"
  by (auto simp: disable_report_def split: prod.splits)

lemma verify_report_cases:
  assumes "verify_report m env report st = (st', Inr u)"
  obtains (skipped) "pr_packet_type report \<noteq> Uplink" "st' = st"
  | (valid) payer rem bal where "pr_packet_type report = Uplink"
      "debit_if_sufficient (env_payer_balance env) (v_balances st) payer
         (payload_size_to_dc (ucast (pr_payload_size report))) m = (bal, Inr (Some rem))"
      "env_add_burned env (env_now env) (v_tables st) payer (payload_size_to_dc (ucast (pr_payload_size report))) =
         Inr (v_tables st')"
      "v_balances st' = bal" "v_invalid st' = v_invalid st"
      "v_valid st' = v_valid st @ [valid_packet_of report (payload_size_to_dc (ucast (pr_payload_size report)))]"
  | (invalid) payer bal where "pr_packet_type report = Uplink"
      "debit_if_sufficient (env_payer_balance env) (v_balances st) payer
         (payload_size_to_dc (ucast (pr_payload_size report))) m = (bal, Inr None)"
      "v_balances st' = bal" "v_tables st' = v_tables st" "v_valid st' = v_valid st"
      "v_invalid st' = v_invalid st @ [invalid_packet_of report]"
proof (cases "pr_packet_type report = Uplink")
  case False
  then show thesis using assms skipped by (simp add: verify_report_def)
next
  case True
  let ?dc = "payload_size_to_dc (ucast (pr_payload_size report))"
  obtain cache payer bal res where st1: "fetch_org (env_orgs env) (pr_oui report) (v_org_cache st) = (cache, Inr payer)"
      "debit_if_sufficient (env_payer_balance env) (v_balances st) payer ?dc m = (bal, Inr res)"
    using assms True by (auto simp: verify_report_def Let_def split: prod.splits sum.splits option.splits)
  show thesis
  proof (cases res)
    case None
    then have "verify_invalid env report (st\<lparr>v_org_cache := cache, v_balances := bal\<rparr>) = (st', Inr u)"
      using assms True st1 by (simp add: verify_report_def Let_def)
    then show thesis
      using invalid [OF True st1(2) [unfolded None]]
      by (auto simp: verify_invalid_def split: sum.splits dest!: disable_report_frame)
  next
    case (Some rem)
    then have "verify_valid m env report payer ?dc rem (st\<lparr>v_org_cache := cache, v_balances := bal\<rparr>) = (st', Inr u)"
      using assms True st1 by (simp add: verify_report_def Let_def)
    then show thesis
      using valid [OF True st1(2) [unfolded Some]]
      by (auto simp: verify_valid_def Let_def split: sum.splits if_splits dest!: disable_report_frame)
  qed
qed


lemma sint_dc: "sint (payload_size_to_dc (ucast (n :: u32))) = int (unat (payload_size_to_dc (ucast n)))"
  using payload_dc_small [of n] by (simp add: sint_cases_64 del: of_nat_unat)

lemma verify_report_inv:
  assumes v: "verify_report m env report st = (st', Inr u)" and inv: "verify_inv st" and env: "env_sound env"
  shows "verify_inv st' \<and>
    (\<exists>ok bad. v_valid st' = v_valid st @ ok \<and> v_invalid st' = v_invalid st @ bad \<and>
       total_owed (v_tables st') = total_owed (v_tables st) + int (\<Sum>p\<leftarrow>ok. unat (vp_num_dcs p)) \<and>
       length ok + length bad = (if pr_packet_type report = Uplink then 1 else 0))"
proof -
  let ?dc = "payload_size_to_dc (ucast (pr_payload_size report))"
  have agrees: "cache_agrees (pg_owed (v_tables st)) (\<lambda>_. 0) (v_balances st)" "pg_tables_inv (v_tables st)"
    using inv by (auto simp: verify_inv_def)
  have small: "(case pg_owed (v_tables st) p of None \<Rightarrow> 0 | Some n \<Rightarrow> n) + int 0 + int (unat ?dc) < 2 ^ 64" for p
    using payload_dc_small [of "pr_payload_size report"] pg_owed_bound [of "v_tables st" p]
    by (auto split: option.splits simp del: of_nat_unat)
  note d = debit_agrees [OF agrees(1) small]
  show ?thesis
    using v
  proof (cases rule: verify_report_cases)
    case skipped
    then show ?thesis using inv by simp
  next
    case (valid payer rem bal)
    have add: "pg_add_burned_amount (env_now env) (v_tables st) payer ?dc = Inr (v_tables st')"
      using env valid(3) unfolding env_sound_def by blast
    have "cache_agrees (pg_owed (v_tables st)) ((\<lambda>_. 0)(payer := 0 + unat ?dc)) bal"
      using d [OF valid(2)] by simp
    from cache_agrees_shift [OF this debit_known [OF valid(2)]]
    have "cache_agrees (pg_owed (v_tables st')) (\<lambda>_. 0) bal"
      using pg_add_burned [OF agrees(2) add] by (simp add: sint_dc del: of_nat_unat)
    then show ?thesis
      using pg_add_burned [OF agrees(2) add] total_owed_add [OF add] valid
      by (auto simp: verify_inv_def valid_packet_of_def payload_dc_u32 sint_dc simp del: of_nat_unat)
  next
    case (invalid payer bal)
    then show ?thesis using d [OF invalid(2)] agrees(2) by (simp add: verify_inv_def)
  qed
qed


definition env_demo :: "(unit, unit, unit) verify_env" where
  "env_demo =
     \<lparr>env_payer_balance = (\<lambda>_. Inr 100),
      env_orgs = \<lparr>orgs_get = (\<lambda>_. Inr (Some ''p'')), orgs_list = Inr [], orgs_enable = (\<lambda>_. Inr ()), orgs_disable = (\<lambda>_. Inr ())\<rparr>,
      env_now = 0, env_add_burned = pg_add_burned_amount, env_write = Inr ()\<rparr>"

definition report_demo :: packet_report where
  "report_demo = \<lparr>pr_oui = 1, pr_gateway = ''g'', pr_payload_hash = [], pr_payload_size = 48,
     pr_packet_type = Uplink, pr_received_timestamp = 0\<rparr>"

definition verify_start :: verify_state where
  "verify_start = \<lparr>v_org_cache = Map.empty, v_balances = Map.empty,
     v_client = \<lparr>locked_cache = Map.empty, org_calls = []\<rparr>,
     v_tables = \<lparr>pending_burns = [], pending_txns = []\<rparr>, v_valid = [], v_invalid = []\<rparr>"


section \<open>Calls to the organisation service\<close>

fun org_step :: "cached_org_client \<Rightarrow> org_call \<times> 'oe orgs \<Rightarrow> cached_org_client" where
  "org_step c (Enable oui, orgs) = fst (enable_org orgs c oui)"
| "org_step c (Disable oui, orgs) = fst (disable_org orgs c oui)"

definition calls_for :: "u64 \<Rightarrow> org_call list \<Rightarrow> org_call list" where
  "calls_for oui calls = filter (\<lambda>x. x \<in> {Enable oui, Disable oui}) calls"

definition org_inv :: "cached_org_client \<Rightarrow> bool" where
  "org_inv c \<longleftrightarrow> (\<forall>oui. successively (\<noteq>) (calls_for oui (org_calls c)) \<and>
     (calls_for oui (org_calls c) \<noteq> [] \<longrightarrow>
        locked_cache c oui = Some (last (calls_for oui (org_calls c)) = Enable oui)))"

lemma calls_for_snoc:
  "calls_for oui (calls @ [x]) = (if x \<in> {Enable oui, Disable oui} then calls_for oui calls @ [x] else calls_for oui calls)"
  by (simp add: calls_for_def)

lemma last_calls_for:
  "calls_for oui calls \<noteq> [] \<Longrightarrow> last (calls_for oui calls) \<in> {Enable oui, Disable oui}"
  using last_in_set [of "calls_for oui calls"] by (auto simp: calls_for_def)

lemma org_inv_snoc:
  assumes inv: "org_inv c" and x: "x = (if b then Enable oui else Disable oui)"
    and old: "calls_for oui (org_calls c) \<noteq> [] \<longrightarrow> locked_cache c oui = Some (\<not> b)"
    and cache: "\<forall>o'. o' \<noteq> oui \<longrightarrow> cache o' = locked_cache c o'" "cache oui = Some b"
  shows "org_inv (c\<lparr>locked_cache := cache, org_calls := org_calls c @ [x]\<rparr>)"
  unfolding org_inv_def
proof
  fix o'
  let ?c = "c\<lparr>locked_cache := cache, org_calls := org_calls c @ [x]\<rparr>" and ?calls = "calls_for o' (org_calls c)"
  have one: "successively (\<noteq>) ?calls" "?calls \<noteq> [] \<longrightarrow> locked_cache c o' = Some (last ?calls = Enable o')"
    using inv by (auto simp: org_inv_def)
  show "successively (\<noteq>) (calls_for o' (org_calls ?c)) \<and>
      (calls_for o' (org_calls ?c) \<noteq> [] \<longrightarrow> locked_cache ?c o' = Some (last (calls_for o' (org_calls ?c)) = Enable o'))"
  proof (cases "o' = oui")
    case True
    then have "?calls \<noteq> [] \<longrightarrow> last ?calls \<noteq> x" using one old x by auto
    then have "successively (\<noteq>) (?calls @ [x])"
      using one(1) by (cases "?calls = []") (auto simp: successively_append_iff)
    then show ?thesis using True x cache(2) by (auto simp: calls_for_snoc)
  next
    case False
    then show ?thesis using one cache(1) x by (auto simp: calls_for_snoc)
  qed
qed

lemma org_inv_insert:
  assumes "org_inv c" "locked_cache c oui = None"
  shows "org_inv (c\<lparr>locked_cache := (locked_cache c)(oui \<mapsto> b)\<rparr>)"
  using assms by (auto simp: org_inv_def)

lemma org_inv_None: "org_inv c \<Longrightarrow> locked_cache c oui = None \<Longrightarrow> calls_for oui (org_calls c) = []"
  by (force simp: org_inv_def)

lemma enable_org_inv:
  assumes "org_inv c" shows "org_inv (fst (enable_org orgs c oui))"
proof -
  have snoc: "org_inv (c\<lparr>locked_cache := (locked_cache c)(oui \<mapsto> True), org_calls := org_calls c @ [Enable oui]\<rparr>)"
    if "locked_cache c oui \<noteq> Some True"
    using that org_inv_None [OF assms, of oui] assms
    by (intro org_inv_snoc [where b = True and oui = oui])
       (cases "locked_cache c oui"; auto)+
  show ?thesis
    using assms snoc org_inv_insert [OF assms, of oui]
    by (cases "locked_cache c oui") (auto simp: enable_org_def or_insert_def Let_def split: sum.splits)
qed

lemma disable_org_inv:
  assumes "org_inv c" shows "org_inv (fst (disable_org orgs c oui))"
proof -
  have snoc: "org_inv (c\<lparr>locked_cache := (locked_cache c)(oui \<mapsto> False), org_calls := org_calls c @ [Disable oui]\<rparr>)"
    if "locked_cache c oui \<noteq> Some False"
    using that org_inv_None [OF assms, of oui] assms
    by (intro org_inv_snoc [where b = False and oui = oui])
       (cases "locked_cache c oui"; auto)+
  show ?thesis
    using assms snoc org_inv_insert [OF assms, of oui]
    by (cases "locked_cache c oui") (auto simp: disable_org_def or_insert_def Let_def split: sum.splits)
qed

lemma org_step_inv: "org_inv c \<Longrightarrow> org_inv (org_step c x)"
  by (induction c x rule: org_step.induct) (simp_all add: enable_org_inv disable_org_inv)

text \<open>Whatever sequence of enable and disable requests the verifier and the monitor make,
  and whichever of the calls fail, the calls for one organisation that succeed alternate between
  enabling and disabling it: the client never repeats a call.\<close>

theorem org_calls_alternate:
  "successively (\<noteq>) (calls_for oui (org_calls (foldl org_step \<lparr>locked_cache = Map.empty, org_calls = []\<rparr> ops)))"
proof -
  have "org_inv (foldl org_step c ops)" if "org_inv c" for c
    using that by (induction ops arbitrary: c) (auto intro: org_step_inv)
  then show ?thesis by (simp add: org_inv_def calls_for_def)
qed

end
