(* ===== verification/Packet_System.thy ===== *)
theory Packet_System
  imports Packet_Verifier
begin

text \<open>
  The packet verifier as a whole (\<^verbatim>\<open>src/iot_packet_verifier/src/daemon.rs\<close>): the
  verifier, the burner and the monitor share the balance cache and run as separate tasks,
  and the service starts by rebuilding the cache and confirming the pending transactions.
  The step relation interleaves them: a debit of a single packet inside the open
  transaction of a file, the commit of the file, a tick of the burner, a balance set by
  the monitor, a stop of the service at any of these points, and a start.

  The increments of an open transaction are kept apart from the committed tables and
  applied by its commit; the row locks of Postgres make the increments and the burner's decrements of
  a row commute. Two ghost fields count the data credits committed for a payer and those
  that the chain has burned for that payer. The main lemma is that in every reachable
  state nothing is lost or burned twice.
\<close>

section \<open>States and steps\<close>

record system =
  s_tables :: pg_tables
  s_cache :: balance_store
  s_open_txn :: "(pubkey \<times> u64) list"
  s_landed :: "string set"
  s_running :: bool
  s_committed :: "pubkey \<Rightarrow> int"
  s_chain_burned :: "pubkey \<Rightarrow> int"

definition uncommitted :: "(pubkey \<times> u64) list \<Rightarrow> pubkey \<Rightarrow> nat" where
  "uncommitted xs p = (\<Sum>(q, a)\<leftarrow>xs. if q = p then unat a else 0)"

text \<open>The handling of a file: the statements of the verification run in one transaction,
  which an error drops; the cache and the sinks are not part of it.\<close>

definition handle_file ::
  "u64 \<Rightarrow> (packet_report \<times> ('se, 'oe, 'we) verify_env) list \<Rightarrow> verify_state \<Rightarrow>
   verify_state \<times> (('se, 'oe, 'we) verification_error + unit)" where
  "handle_file minimum_allowed_balance reports st =
     (case verify minimum_allowed_balance reports st of
        (st', Inl e) \<Rightarrow> (st'\<lparr>v_tables := v_tables st\<rparr>, Inl e)
      | (st', Inr _) \<Rightarrow> (st', Inr ()))"

text \<open>The statements of the open transaction, executed by its commit.\<close>

fun commit_file :: "timestamp \<Rightarrow> pg_tables \<Rightarrow> (pubkey \<times> u64) list \<Rightarrow> sqlx_error + pg_tables" where
  "commit_file now db [] = Inr db"
| "commit_file now db ((p, a) # xs) = res_bind (pg_add_burned_amount now db p a) (\<lambda>db. commit_file now db xs)"

text \<open>\<open>Cmd::run\<close> up to the start of the tasks.\<close>

definition start_service ::
  "pg_tables pending_ops \<Rightarrow> ('se, 'tx) solana \<Rightarrow> (nat \<Rightarrow> timestamp) \<Rightarrow> pg_tables \<Rightarrow>
   pg_tables \<times> balance_store option" where
  "start_service P S clock db =
     (case fetch_all_pending_burns P db of
        Inl e \<Rightarrow> (db, None)
      | Inr burns \<Rightarrow>
          (case balance_cache_new (payer_balance S) (map (\<lambda>b. (burn_payer b, burn_amount b)) burns) of
             Inl e \<Rightarrow> (db, None)
           | Inr balances \<Rightarrow>
               (case confirm_pending_txns P S clock db balances of
                  (db, balances, Inl e) \<Rightarrow> (db, None)
                | (db, balances, Inr _) \<Rightarrow> (db, Some balances))))"

inductive sys_step :: "system \<Rightarrow> system \<Rightarrow> bool" where
  debit: "s_running s \<Longrightarrow>
    debit_if_sufficient (pb :: pubkey \<Rightarrow> string + u64) (s_cache s) p (payload_size_to_dc (ucast (n :: u32))) m = (bal, Inr r) \<Longrightarrow>
    (case pg_owed (s_tables s) p of None \<Rightarrow> 0 | Some k \<Rightarrow> k) + int (uncommitted (s_open_txn s) p) +
      int (unat (payload_size_to_dc (ucast n))) < 2 ^ 63 \<Longrightarrow>
    sys_step s (s\<lparr>s_cache := bal,
      s_open_txn := (if r = None then s_open_txn s else s_open_txn s @ [(p, payload_size_to_dc (ucast n))])\<rparr>)"
| commit: "s_running s \<Longrightarrow> commit_file now (s_tables s) (s_open_txn s) = Inr db \<Longrightarrow>
    sys_step s (s\<lparr>s_tables := db, s_open_txn := [],
      s_committed := (\<lambda>p. s_committed s p + int (uncommitted (s_open_txn s) p))\<rparr>)"
| monitor: "s_running s \<Longrightarrow> sys_step s (s\<lparr>s_cache := set_balance (s_cache s) p b\<rparr>)"
| tick: "s_running s \<Longrightarrow> fresh_signatures (S :: (string, string) solana) (s_landed s) \<Longrightarrow>
    burner_tick (with_faults f pg_ops) S clock (with_faults f' pg_ops) S' clock' (s_tables s) (s_cache s) =
      (db, bal, sub, r) \<Longrightarrow>
    chain_after S (s_landed s) sub l \<Longrightarrow> honest_confirm (S' :: (string, string) solana) l \<Longrightarrow>
    sys_step s (s\<lparr>s_tables := db, s_cache := bal, s_landed := l, s_running := is_ok r,
      s_chain_burned := (\<lambda>p. s_chain_burned s p + burned_on_chain S sub l p)\<rparr>)"
| stop_in_burn: "s_running s \<Longrightarrow> fresh_signatures (S :: (string, string) solana) (s_landed s) \<Longrightarrow>
    burn (with_faults f pg_ops) S clock (s_tables s) (s_cache s) = (db, bal, sub, r) \<Longrightarrow>
    chain_after S (s_landed s) sub l \<Longrightarrow>
    sys_step s (s\<lparr>s_tables := db, s_landed := l, s_running := False,
      s_chain_burned := (\<lambda>p. s_chain_burned s p + burned_on_chain S sub l p)\<rparr>)"
| stop: "sys_step s (s\<lparr>s_running := False\<rparr>)"
| start: "\<not> s_running s \<Longrightarrow> honest_confirm (S :: (string, string) solana) (s_landed s) \<Longrightarrow>
    start_service (with_faults f pg_ops) S clock (s_tables s) = (db, r) \<Longrightarrow>
    sys_step s (s\<lparr>s_tables := db, s_cache := (case r of None \<Rightarrow> s_cache s | Some bal \<Rightarrow> bal),
      s_running := (r \<noteq> None), s_open_txn := []\<rparr>)"

definition sys_init :: "system \<Rightarrow> bool" where
  "sys_init s \<longleftrightarrow> \<not> s_running s \<and> s_tables s = \<lparr>pending_burns = [], pending_txns = []\<rparr> \<and>
     s_committed s = (\<lambda>_. 0) \<and> s_chain_burned s = (\<lambda>_. 0)"

definition sys_inv :: "system \<Rightarrow> bool" where
  "sys_inv s \<longleftrightarrow>
     pg_tables_inv (s_tables s) \<and> payers_known (pg_owed (s_tables s)) (pg_txns (s_tables s)) \<and>
     pending_covered (pg_owed (s_tables s)) (pg_txns (s_tables s)) \<and>
     (\<forall>p. outstanding (pg_owed (s_tables s)) (pg_txns (s_tables s)) (s_landed s) p = s_committed s p - s_chain_burned s p) \<and>
     (s_running s \<longrightarrow> pg_txns (s_tables s) = Map.empty \<and>
        cache_agrees (pg_owed (s_tables s)) (uncommitted (s_open_txn s)) (s_cache s) \<and>
        (\<forall>(p, a)\<in>set (s_open_txn s). 0 \<le> sint a \<and> s_cache s p \<noteq> None))"

section \<open>Every step keeps the invariant\<close>

lemma uncommitted_snoc:
  "uncommitted (xs @ [(p, a)]) = (uncommitted xs)(p := uncommitted xs p + unat a)"
  by (auto simp: uncommitted_def fun_eq_iff)

lemma uncommitted_Nil [simp]: "uncommitted [] = (\<lambda>_. 0)"
  by (simp add: uncommitted_def fun_eq_iff)

lemma uncommitted_Cons: "uncommitted ((p, a) # xs) q = (if q = p then unat a else 0) + uncommitted xs q"
  by (auto simp: uncommitted_def)

lemma uncommitted_absent: "p \<notin> fst ` set xs \<Longrightarrow> uncommitted xs p = 0"
  by (induction xs) (auto simp: uncommitted_Cons)

lemma commit_file_spec:
  assumes "commit_file now db xs = Inr db'" "pg_tables_inv db" "\<forall>(p, a)\<in>set xs. 0 \<le> sint a"
  shows "pg_tables_inv db' \<and> pg_txns db' = pg_txns db \<and>
    (\<forall>p. pg_owed db' p = (if p \<in> fst ` set xs
       then Some ((case pg_owed db p of None \<Rightarrow> 0 | Some n \<Rightarrow> n) + int (uncommitted xs p)) else pg_owed db p))"
  using assms
proof (induction xs arbitrary: db)
  case (Cons x xs)
  obtain p a where x: "x = (p, a)" by fastforce
  obtain db1 where db1: "pg_add_burned_amount now db p a = Inr db1" "commit_file now db1 xs = Inr db'"
    using Cons.prems(1) by (auto simp: x result_simps)
  have a: "sint a = int (unat a)" using Cons.prems(3) sint_nonneg_unat by (auto simp: x)
  note add = pg_add_burned [OF Cons.prems(2) db1(1)]
  note ih = Cons.IH [OF db1(2)]
  have "pg_tables_inv db' \<and> pg_txns db' = pg_txns db1 \<and>
    (\<forall>q. pg_owed db' q = (if q \<in> fst ` set xs
       then Some ((case pg_owed db1 q of None \<Rightarrow> 0 | Some n \<Rightarrow> n) + int (uncommitted xs q)) else pg_owed db1 q))"
    using ih add Cons.prems(3) by simp
  then show ?case
    using add a uncommitted_absent [of p xs]
    by (auto simp: x uncommitted_Cons image_iff simp del: of_nat_unat split: if_splits)
qed simp

lemma balance_cache_loop_spec:
  assumes "balance_cache_loop pb m burns = Inr m'" "distinct (map fst burns)"
  shows "\<exists>bs. m' = (\<lambda>p. case map_of burns p of None \<Rightarrow> m p | Some a \<Rightarrow> Some \<lparr>balance = bs p, burned = a\<rparr>)"
  using assms
proof (induction burns arbitrary: m)
  case (Cons x burns)
  obtain p a where x: "x = (p, a)" by fastforce
  obtain b where b: "balance_cache_loop pb (m(p \<mapsto> \<lparr>balance = b, burned = a\<rparr>)) burns = Inr m'"
    using Cons.prems(1) by (auto simp: x result_simps)
  obtain bs where bs: "m' = (\<lambda>q. case map_of burns q of None \<Rightarrow> (m(p \<mapsto> \<lparr>balance = b, burned = a\<rparr>)) q
      | Some a \<Rightarrow> Some \<lparr>balance = bs q, burned = a\<rparr>)"
    using Cons.IH [OF b] Cons.prems(2) by auto
  have "map_of burns p = None" using Cons.prems(2) by (simp add: x map_of_eq_None_iff)
  then show ?case
    by (intro exI [of _ "bs(p := b)"]) (auto simp: bs x fun_eq_iff split: option.splits)
qed auto

lemma start_cache_agrees:
  assumes "pg_tables_inv db" "pending_covered (pg_owed db) ts"
    and "fetch_all_pending_burns (with_faults f pg_ops) db = Inr burns"
    and "balance_cache_new pb (map (\<lambda>b. (burn_payer b, burn_amount b)) burns) = Inr bal"
  shows "cache_agrees (pg_owed db) (\<lambda>_. 0) bal"
proof -
  let ?bs = "map (\<lambda>b. (burn_payer b, burn_amount b)) burns"
  have all: "distinct (map burn_payer burns)" "\<forall>p. pg_owed db p = map_option sint (map_of ?bs p)"
    using pg.all_burns [OF assms(1,3)] by auto
  obtain bs where bal: "bal = (\<lambda>p. case map_of ?bs p of None \<Rightarrow> None | Some a \<Rightarrow> Some \<lparr>balance = bs p, burned = a\<rparr>)"
    using balance_cache_loop_spec [OF assms(4) [unfolded balance_cache_new_def]] all(1) by (auto simp: comp_def)
  have "sint a = int (unat a)" if "map_of ?bs p = Some a" for p a
    using pending_covered_nonneg [OF assms(2), of p "sint a"] all(2) that sint_nonneg_unat by auto
  then show ?thesis
    unfolding cache_agrees_def using all(2) by (auto simp: bal simp del: of_nat_unat split: option.splits)
qed

context pending_tables_contract
begin

lemma confirm_txn_covered:
  assumes "tables_inv db" "payers_known (owed db) (txns db)" "pending_covered (owed db) (txns db)"
    and t: "txns db (ptx_signature t) = Some (ptx_payer t, ptx_amount t)"
    and c: "confirm_txn P S clock i t db bal = (db', bal', r)"
  shows "pending_covered (owed db') (txns db')"
  using c
proof (cases rule: confirm_txn_cases)
  case failed
  then show ?thesis using assms by simp
next
  case (dropped t1 t2)
  obtain n where n: "owed db (ptx_payer t) = Some n" using assms(2) t by (auto simp: payers_known_def)
  have "txns t2 = (txns db)(ptx_signature t := None) \<and> owed t2 = owed db"
    using remove_pending [OF _ dropped(2)] begin_txn [OF dropped(1)] assms(1) by simp
  then show ?thesis
    using commit_txn [OF dropped(4)] pending_covered_remove(2) [OF finite_txns assms(3) t n] by simp
next
  case settled
  obtain n where n: "owed db (ptx_payer t) = Some n" using assms(2) t by (auto simp: payers_known_def)
  then show ?thesis
    using record_burn_spec [OF assms(1) settled(1)] pending_covered_remove(1) [OF finite_txns assms(3) t n] by simp
qed

lemma confirm_loop_covered:
  assumes "tables_inv db" "payers_known (owed db) (txns db)" "pending_covered (owed db) (txns db)"
    and "honest_confirm S landed"
    and "\<forall>t\<in>set ts. txns db (ptx_signature t) = Some (ptx_payer t, ptx_amount t)"
    and "distinct (map ptx_signature ts)"
    and "confirm_loop P S clock i ts db bal = (db', bal', r)"
  shows "pending_covered (owed db') (txns db')"
  using assms
proof (induction ts arbitrary: i db bal)
  case (Cons t ts)
  obtain db1 bal1 r1 where c: "confirm_txn P S clock i t db bal = (db1, bal1, r1)" by (rule prod_cases3)
  have t: "txns db (ptx_signature t) = Some (ptx_payer t, ptx_amount t)" using Cons.prems(5) by simp
  note one = confirm_txn_outstanding [OF Cons.prems(1,2,4) t c] confirm_txn_covered [OF Cons.prems(1-3) t c]
  show ?case
  proof (cases r1)
    case (Inl e)
    then show ?thesis using one c Cons.prems(7) by auto
  next
    case (Inr u)
    then have tx: "txns db1 = (txns db)(ptx_signature t := None)" using one(1) by simp
    have "\<forall>t'\<in>set ts. txns db1 (ptx_signature t') = Some (ptx_payer t', ptx_amount t')"
      using Cons.prems(5,6) tx by (auto simp: image_iff)
    moreover have "confirm_loop P S clock (Suc i) ts db1 bal1 = (db', bal', r)" using c Inr Cons.prems(7) by simp
    moreover have "tables_inv db1" "payers_known (owed db1) (txns db1)" "distinct (map ptx_signature ts)"
      using one Cons.prems(6) by auto
    ultimately show ?thesis using Cons.IH one(2) Cons.prems(4) by blast
  qed
qed auto

lemma confirm_pending_covered:
  assumes "tables_inv db" "payers_known (owed db) (txns db)" "pending_covered (owed db) (txns db)"
    and "honest_confirm S landed" and "confirm_pending_txns P S clock db bal = (db', bal', r)"
  shows "pending_covered (owed db') (txns db')"
proof (cases "fetch_all_pending_txns P db")
  case (Inl e)
  then show ?thesis using assms by (auto simp: confirm_pending_txns_def)
next
  case (Inr ts)
  then have l: "confirm_loop P S clock 0 ts db bal = (db', bal', r)"
    using assms(5) by (simp add: confirm_pending_txns_def)
  show ?thesis
    using confirm_loop_covered [OF assms(1-4) _ _ l] all_txns [OF assms(1) Inr] all_txns_entries [OF assms(1) Inr]
    by blast
qed

end

lemma outstanding_commit:
  assumes "commit_file now db xs = Inr db'" "pg_tables_inv db" "\<forall>(p, a)\<in>set xs. 0 \<le> sint a"
  shows "outstanding (pg_owed db') (pg_txns db') l p = outstanding (pg_owed db) (pg_txns db) l p + int (uncommitted xs p)"
proof -
  show ?thesis using commit_file_spec [OF assms] uncommitted_absent [of p xs] by (auto simp: outstanding_def)
qed

text \<open>The parts of the invariant that a commit has to keep.\<close>

lemma commit_keeps:
  assumes c: "commit_file now db xs = Inr db'" "pg_tables_inv db" "\<forall>(p, a)\<in>set xs. 0 \<le> sint a"
    and agrees: "cache_agrees (pg_owed db) (uncommitted xs) bal"
    and known: "payers_known (pg_owed db) (pg_txns db)" and cov: "pending_covered (pg_owed db) (pg_txns db)"
    and dom: "fst ` set xs \<subseteq> dom bal"
  shows "cache_agrees (pg_owed db') (\<lambda>_. 0) bal" "payers_known (pg_owed db') (pg_txns db')"
    "pending_covered (pg_owed db') (pg_txns db')"
proof -
  note spec = commit_file_spec [OF c]
  have ge: "(case pg_owed db p of None \<Rightarrow> 0 | Some n \<Rightarrow> n) \<le> (case pg_owed db' p of None \<Rightarrow> 0 | Some n \<Rightarrow> n)" for p
    using spec by auto
  show "payers_known (pg_owed db') (pg_txns db')"
    using known spec by (auto simp: payers_known_def)
  have cov': "\<forall>p. landed_pending (pg_txns db) UNIV p \<le> (case pg_owed db p of None \<Rightarrow> 0 | Some n \<Rightarrow> n)"
    using cov unfolding pending_covered_def by blast
  show "pending_covered (pg_owed db') (pg_txns db')"
    unfolding pending_covered_def
  proof (intro conjI allI impI)
    fix p show "landed_pending (pg_txns db') UNIV p \<le> (case pg_owed db' p of None \<Rightarrow> 0 | Some n \<Rightarrow> n)"
      using cov' ge [of p] spec order_trans by metis
  next
    fix sig p a assume "pg_txns db' sig = Some (p, a)"
    then show "0 \<le> sint a" using cov spec unfolding pending_covered_def by metis
  qed
  show "cache_agrees (pg_owed db') (\<lambda>_. 0) bal"
    unfolding cache_agrees_def
  proof
    fix p
    have o': "pg_owed db' p = (if p \<in> fst ` set xs
        then Some ((case pg_owed db p of None \<Rightarrow> 0 | Some n \<Rightarrow> n) + int (uncommitted xs p)) else pg_owed db p)"
      using spec by blast
    show "case bal p of None \<Rightarrow> pg_owed db' p = None \<and> (0 :: nat) = 0
        | Some acc \<Rightarrow> int (unat (burned acc)) = (case pg_owed db' p of None \<Rightarrow> 0 | Some n \<Rightarrow> n) + int 0"
      using cache_agreesD [OF agrees, of p] dom uncommitted_absent [of p xs] unfolding o' by (auto split: option.splits)
  qed
qed

lemma burn_covered:
  assumes "pg_tables_inv db" "pg_txns db = Map.empty" "ledger_ok (pg_owed db) Map.empty extra bal"
    and "burn (with_faults f pg_ops) S clock db bal = (db', bal', sub, r)"
  shows "pending_covered (pg_owed db') (pg_txns db')"
  using pg.burn_in_step [OF assms(1,3,2,4)] by (simp add: ledger_ok_def)

lemma tick_covered:
  assumes "pg_tables_inv db" "pg_txns db = Map.empty" "ledger_ok (pg_owed db) Map.empty extra bal"
    and "fresh_signatures S l"
    and "burner_tick (with_faults f pg_ops) S clock (with_faults f' pg_ops) S' clock' db bal = (db', bal', sub, r)"
    and "chain_after S l sub l'" "honest_confirm S' l'"
  shows "pending_covered (pg_owed db') (pg_txns db') \<and> payers_known (pg_owed db') (pg_txns db') \<and> pg_tables_inv db' \<and>
    outstanding (pg_owed db') (pg_txns db') l' p =
      outstanding (pg_owed db) (pg_txns db) l p - burned_on_chain S sub l' p \<and>
    (is_ok r \<longrightarrow> pg_txns db' = Map.empty \<and> cache_agrees (pg_owed db') extra bal')"
  using assms(5)
proof (cases rule: burner_tick_cases)
  case ok
  have known: "payers_known (pg_owed db) (pg_txns db)" using assms(2) by (simp add: payers_known_def)
  show ?thesis
    using pg.burn_outstanding [OF assms(1) known assms(4) ok(1) assms(6), of p] pg.burn_in_step [OF assms(1,3,2) ok(1)]
    by (auto simp: ledger_ok_def)
next
  case panic
  then show ?thesis using pg.burn_in_step [OF assms(1,3,2)] by blast
next
  case (confirm e db1 bal1 r1)
  have known: "payers_known (pg_owed db) (pg_txns db)" using assms(2) by (simp add: payers_known_def)
  note burn = pg.burn_outstanding [OF assms(1) known assms(4) confirm(1) assms(6), of p]
  have led: "ledger_ok (pg_owed db1) (pg_txns db1) extra bal1"
    using pg.burn_in_step [OF assms(1,3,2) confirm(1)] by simp
  have inv1: "pg_tables_inv db1" "payers_known (pg_owed db1) (pg_txns db1)" using burn by auto
  have cov: "pending_covered (pg_owed db1) (pg_txns db1)" using led by (simp add: ledger_ok_def)
  show ?thesis
    using burn pg.confirm_pending_outstanding [OF inv1 assms(7) confirm(2), of p]
      pg.confirm_pending_covered [OF inv1 cov assms(7) confirm(2)]
      pg.confirm_pending_in_step [OF inv1(1) led confirm(2)] confirm(3)
    by (auto simp: ledger_ok_def)
qed


lemma settle_burn_dom: "settle_burn bal p a = Some bal' \<Longrightarrow> bal' q = None \<longleftrightarrow> bal q = None"
  by (auto simp: settle_burn_def split: option.splits if_splits)

lemma burn_dom: "burn P S clock db bal = (db', bal', sub, r) \<Longrightarrow> bal' q = None \<longleftrightarrow> bal q = None"
  by (erule burn_cases) (simp_all add: settle_burn_dom split: option.splits)

lemma confirm_txn_dom: "confirm_txn P S clock i t db bal = (db', bal', r) \<Longrightarrow> bal' q = None \<longleftrightarrow> bal q = None"
  by (auto simp: confirm_txn_def settle_burn_dom split: sum.splits option.splits bool.splits)

lemma confirm_loop_dom: "confirm_loop P S clock i ts db bal = (db', bal', r) \<Longrightarrow> bal' q = None \<longleftrightarrow> bal q = None"
proof (induction ts arbitrary: i db bal)
  case (Cons t ts)
  obtain db1 bal1 r1 where c: "confirm_txn P S clock i t db bal = (db1, bal1, r1)" by (rule prod_cases3)
  show ?case using Cons.prems Cons.IH [of "Suc i" db1 bal1] confirm_txn_dom [OF c] c by (cases r1) auto
qed simp

lemma burner_tick_dom:
  assumes "burner_tick P S clock P' S' clock' db bal = (db', bal', sub, r)"
  shows "bal' q = None \<longleftrightarrow> bal q = None"
  using assms
proof (cases rule: burner_tick_cases)
  case (confirm e db1 bal1 r1)
  then have "bal' q = None \<longleftrightarrow> bal1 q = None"
    using confirm_loop_dom by (fastforce simp: confirm_pending_txns_def split: sum.splits)
  then show ?thesis using burn_dom [OF confirm(1)] by simp
qed (simp_all add: burn_dom)

lemma sys_inv_ledger:
  "sys_inv s \<Longrightarrow> s_running s \<Longrightarrow>
   ledger_ok (pg_owed (s_tables s)) Map.empty (uncommitted (s_open_txn s)) (s_cache s) \<and>
   pg_tables_inv (s_tables s) \<and> pg_txns (s_tables s) = Map.empty"
  by (auto simp: sys_inv_def ledger_ok_def payers_known_def)

lemma set_balance_agrees: "cache_agrees ow extra bal \<Longrightarrow> cache_agrees ow extra (set_balance bal p b)"
proof -
  assume a: "cache_agrees ow extra bal"
  define acc where "acc = (case bal p of Some a \<Rightarrow> a | None \<Rightarrow> \<lparr>balance = 0, burned = 0\<rparr>)\<lparr>balance := b\<rparr>"
  have "cache_agrees (ow(p := ow p)) (extra(p := extra p)) (bal(p \<mapsto> acc))"
    by (rule cache_agrees_upd [OF a])
       (use cache_agreesD [OF a, of p] in \<open>auto simp: acc_def split: option.splits\<close>)
  then show ?thesis by (simp add: set_balance_def acc_def Let_def)
qed

lemma debit_step_inv:
  assumes inv: "sys_inv s" "s_running s"
    and d: "debit_if_sufficient pb (s_cache s) p (payload_size_to_dc (ucast (n :: u32))) m = (bal, Inr r)"
    and small: "(case pg_owed (s_tables s) p of None \<Rightarrow> 0 | Some k \<Rightarrow> k) + int (uncommitted (s_open_txn s) p) +
      int (unat (payload_size_to_dc (ucast n))) < 2 ^ 63"
  shows "sys_inv (s\<lparr>s_cache := bal,
      s_open_txn := (if r = None then s_open_txn s else s_open_txn s @ [(p, payload_size_to_dc (ucast n))])\<rparr>)"
proof -
  let ?dc = "payload_size_to_dc (ucast n)"
  have agrees: "cache_agrees (pg_owed (s_tables s)) (uncommitted (s_open_txn s)) (s_cache s)"
    using inv by (simp add: sys_inv_def)
  have "(case pg_owed (s_tables s) p of None \<Rightarrow> 0 | Some k \<Rightarrow> k) + int (uncommitted (s_open_txn s) p) +
      int (unat ?dc) < 2 ^ 64" using small by simp
  note a = debit_agrees [OF agrees this d]
  have mono: "bal q \<noteq> None" if "s_cache s q \<noteq> None" for q
    using d that by (auto simp: debit_if_sufficient_def Let_def split: option.splits sum.splits if_splits)
  have "0 \<le> sint ?dc" by (simp add: sint_dc)
  then show ?thesis
    using inv a mono debit_known [OF d] by (auto simp: sys_inv_def uncommitted_snoc)
qed

lemma start_step_inv:
  assumes inv: "sys_inv s" "\<not> s_running s" and honest: "honest_confirm S (s_landed s)"
    and st: "start_service (with_faults f pg_ops) S clock (s_tables s) = (db, r)"
  shows "sys_inv (s\<lparr>s_tables := db, s_cache := (case r of None \<Rightarrow> s_cache s | Some bal \<Rightarrow> bal),
      s_running := (r \<noteq> None), s_open_txn := []\<rparr>)"
proof (cases "db = s_tables s \<and> r = None")
  case True
  then show ?thesis using inv by (simp add: sys_inv_def)
next
  case False
  let ?P = "with_faults f pg_ops"
  obtain burns bal0 bal r0 where b: "fetch_all_pending_burns ?P (s_tables s) = Inr burns"
      "balance_cache_new (payer_balance S) (map (\<lambda>b. (burn_payer b, burn_amount b)) burns) = Inr bal0"
      "confirm_pending_txns ?P S clock (s_tables s) bal0 = (db, bal, r0)"
      "r = (if is_ok r0 then Some bal else None)"
    using st False by (auto simp: start_service_def split: sum.splits prod.splits)
  have inv': "pg_tables_inv (s_tables s)" "payers_known (pg_owed (s_tables s)) (pg_txns (s_tables s))"
      "pending_covered (pg_owed (s_tables s)) (pg_txns (s_tables s))"
    using inv by (auto simp: sys_inv_def)
  have led: "ledger_ok (pg_owed (s_tables s)) (pg_txns (s_tables s)) (\<lambda>_. 0) bal0"
    using start_cache_agrees [OF inv'(1,3) b(1,2)] inv' by (simp add: ledger_ok_def)
  note out = pg.confirm_pending_outstanding [OF inv'(1,2) honest b(3)]
  note cov = pg.confirm_pending_covered [OF inv' honest b(3)]
  note step = pg.confirm_pending_in_step [OF inv'(1) led b(3)]
  show ?thesis
    using inv(1) out cov step b(4) by (auto simp: sys_inv_def ledger_ok_def)
qed

lemma sys_step_inv: "sys_step s s' \<Longrightarrow> sys_inv s \<Longrightarrow> sys_inv s'"
proof (induction rule: sys_step.induct)
  case (debit s pb p n m bal r)
  then show ?case using debit_step_inv by blast
next
  case (commit s now db)
  have pos: "\<forall>(p, a)\<in>set (s_open_txn s). 0 \<le> sint a" "fst ` set (s_open_txn s) \<subseteq> dom (s_cache s)"
    using commit(1,3) by (auto simp: sys_inv_def)
  have inv: "pg_tables_inv (s_tables s)" "cache_agrees (pg_owed (s_tables s)) (uncommitted (s_open_txn s)) (s_cache s)"
      "payers_known (pg_owed (s_tables s)) (pg_txns (s_tables s))"
      "pending_covered (pg_owed (s_tables s)) (pg_txns (s_tables s))"
    using commit(1,3) by (auto simp: sys_inv_def)
  show ?case
    using commit_keeps [OF commit(2) inv(1) pos(1) inv(2-4) pos(2)] outstanding_commit [OF commit(2) inv(1) pos(1)]
      commit_file_spec [OF commit(2) inv(1) pos(1)] commit(1,3)
    by (auto simp: sys_inv_def)
next
  case (monitor s p b)
  then show ?case by (auto simp: sys_inv_def set_balance_agrees) (auto simp: set_balance_def Let_def)
next
  case (tick s S f clock f' S' clock' db bal sub r l)
  have led: "pg_tables_inv (s_tables s)" "pg_txns (s_tables s) = Map.empty"
      "ledger_ok (pg_owed (s_tables s)) Map.empty (uncommitted (s_open_txn s)) (s_cache s)"
    using sys_inv_ledger [OF tick(6,1)] by auto
  note t = tick_covered [OF led tick(2-5)]
  have mono: "bal p \<noteq> None" if "s_cache s p \<noteq> None" for p
    using burner_tick_dom [OF tick(3)] that by auto
  show ?case using t tick(6,1) mono by (auto simp: sys_inv_def)
next
  case (stop_in_burn s S f clock db bal sub r l)
  have led: "pg_tables_inv (s_tables s)" "pg_txns (s_tables s) = Map.empty"
      "ledger_ok (pg_owed (s_tables s)) Map.empty (uncommitted (s_open_txn s)) (s_cache s)"
    using sys_inv_ledger [OF stop_in_burn(5,1)] by auto
  have known: "payers_known (pg_owed (s_tables s)) (pg_txns (s_tables s))" using led(2) by (simp add: payers_known_def)
  note o = pg.burn_outstanding [OF led(1) known stop_in_burn(2-4)]
  show ?case using o burn_covered [OF led stop_in_burn(3)] stop_in_burn(5) by (auto simp: sys_inv_def)
next
  case (stop s)
  then show ?case by (simp add: sys_inv_def)
next
  case (start s S f clock db r)
  then show ?case using start_step_inv by blast
qed


lemma sys_init_inv: "sys_init s \<Longrightarrow> sys_inv s"
  by (auto simp: sys_init_def sys_inv_def pg_tables_inv_def pg_owed_def pg_txns_def payers_known_def
      pending_covered_def landed_pending_def outstanding_def)

lemma landed_pending_le: "pending_covered ow ts \<Longrightarrow> finite (dom ts) \<Longrightarrow> landed_pending ts l p \<le> landed_pending ts UNIV p"
  unfolding landed_pending_def
  by (rule sum_mono2) (auto simp: pending_covered_def intro: finite_subset [of _ "dom ts"])


definition system_demo :: system where
  "system_demo = \<lparr>s_tables = \<lparr>pending_burns = [], pending_txns = []\<rparr>, s_cache = Map.empty, s_open_txn = [],
     s_landed = {}, s_running = False, s_committed = (\<lambda>_. 0), s_chain_burned = (\<lambda>_. 0)\<rparr>"

definition network_demo :: "(string, string) solana" where
  "network_demo = \<lparr>payer_balance = (\<lambda>_. Inr 100), make_burn_transaction = (\<lambda>_ _. Inl ''down''), get_signature = id,
     submit_transaction = (\<lambda>_. Inl ''down''), confirm_transaction = (\<lambda>_. Inl ''down'')\<rparr>"


end
