(* ===== verification/Mobile_Coverage.thy ===== *)
theory Mobile_Coverage
  imports Oracles_Prelude Complex_Main "HOL-Library.Multiset" "HOL-Library.Product_Lexorder"
begin

text \<open>
  Modelled coverage of the mobile verifier (\<^verbatim>\<open>src/mobile_verifier/src/coverage.rs\<close>) and
  the keys of radios (\<^verbatim>\<open>heartbeats/mod.rs\<close>). Tables are lists of rows. A hash map is an
  association list in the order of insertion, a binary heap the list of its elements,
  which \<open>into_sorted_vec\<close> sorts; elements that compare equal keep their order here.
  A finite \<open>f64\<close> is a rational number. The operations of \<open>h3o\<close> on cells and
  coordinates, the authorisation service and the text form of keys are arguments.

  The lemmas show which radios of a hexagon are rewarded and with how many points, that a
  coverage object read back is the one that was saved, and that the caches return what
  the database holds.
\<close>

section \<open>Keys and signal levels\<close>

type_synonym uuid = string

datatype hb_type = HbCbrs | HbWifi

datatype key_type = CbrsKey string | WifiKey pubkey

fun key_hb_type :: "key_type \<Rightarrow> hb_type" where
  "key_hb_type (CbrsKey _) = HbCbrs"
| "key_hb_type (WifiKey _) = HbWifi"

text \<open>The text stored in a column of type \<open>TEXT\<close>.\<close>

fun key_text :: "key_type \<Rightarrow> string" where
  "key_text (CbrsKey s) = s"
| "key_text (WifiKey p) = p"

definition to_id :: "key_type \<Rightarrow> string \<times> hb_type" where
  "to_id k = (key_text k, key_hb_type k)"

definition key_decode :: "(string \<Rightarrow> bool) \<Rightarrow> string \<Rightarrow> key_type" where
  "key_decode is_public_key text = (if is_public_key text then WifiKey text else CbrsKey text)"

fun is_wifi :: "key_type \<Rightarrow> bool" where
  "is_wifi (WifiKey _) = True"
| "is_wifi (CbrsKey _) = False"

fun is_cbrs :: "key_type \<Rightarrow> bool" where
  "is_cbrs (CbrsKey _) = True"
| "is_cbrs (WifiKey _) = False"

fun into_cbsd_id :: "key_type \<Rightarrow> string option" where
  "into_cbsd_id (CbrsKey s) = Some s"
| "into_cbsd_id (WifiKey _) = None"

datatype signal_level = NoSignal | LowSignal | MediumSignal | HighSignal

fun signal_rank :: "signal_level \<Rightarrow> nat" where
  "signal_rank NoSignal = 0"
| "signal_rank LowSignal = 1"
| "signal_rank MediumSignal = 2"
| "signal_rank HighSignal = 3"

lemma signal_rank_inj: "signal_rank a = signal_rank b \<longleftrightarrow> a = b"
  by (cases a; cases b) auto

instantiation signal_level :: linorder
begin

definition less_eq_signal_level :: "signal_level \<Rightarrow> signal_level \<Rightarrow> bool" where
  "less_eq_signal_level a b \<longleftrightarrow> signal_rank a \<le> signal_rank b"

definition less_signal_level :: "signal_level \<Rightarrow> signal_level \<Rightarrow> bool" where
  "less_signal_level a b \<longleftrightarrow> signal_rank a < signal_rank b"

instance
  by standard (auto simp: less_eq_signal_level_def less_signal_level_def signal_rank_inj)

end

section \<open>Coverage objects in the database\<close>

record radio_hex =
  rh_location :: u64
  rh_signal_level :: signal_level
  rh_signal_power :: i32

record coverage_object =
  co_pub_key :: pubkey
  co_uuid :: uuid
  co_key :: key_type
  co_claim_time :: timestamp
  co_indoor :: bool
  co_coverage :: "radio_hex list"
  co_trust_score :: u32

record object_row =
  obj_uuid :: uuid
  obj_radio_type :: hb_type
  obj_radio_key :: string
  obj_indoor :: bool
  obj_claim_time :: timestamp
  obj_trust_score :: i32
  obj_inserted_at :: timestamp
  obj_invalidated_at :: "timestamp option"

record hex_row =
  hx_uuid :: uuid
  hx_hex :: i64
  hx_signal_level :: signal_level
  hx_signal_power :: i32

text \<open>The reason is stored as the number of its constructor.\<close>

datatype update_reason = HeartbeatNotSeen | NewCoverageClaimTime

record seniority =
  sen_uuid :: uuid
  sen_ts :: timestamp
  sen_last_heartbeat :: timestamp
  sen_inserted_at :: timestamp
  sen_update_reason :: update_reason

record seniority_row = seniority +
  sen_radio_key :: string
  sen_radio_type :: hb_type

record coverage_tables =
  ct_objects :: "object_row list"
  ct_hexes :: "hex_row list"
  ct_seniority :: "seniority_row list"

datatype coverage_sql_error = RowAffectedTwice | RowNotFound

datatype coverage_validity = CoverageValid | CoverageInvalidPubKey

definition validate_coverage :: "(pubkey \<Rightarrow> 'e + bool) \<Rightarrow> coverage_object \<Rightarrow> 'e + coverage_validity" where
  "validate_coverage is_authorized co =
     res_bind (is_authorized (co_pub_key co))
       (\<lambda>ok. Inr (if ok then CoverageValid else CoverageInvalidPubKey))"

text \<open>The upsert of a list of rows by key: a conflicting row is replaced by \<open>upd old new\<close>.\<close>

fun upsert_row :: "('r \<Rightarrow> 'k) \<Rightarrow> ('r \<Rightarrow> 'r \<Rightarrow> 'r) \<Rightarrow> 'r \<Rightarrow> 'r list \<Rightarrow> 'r list" where
  "upsert_row key upd new [] = [new]"
| "upsert_row key upd new (r # rs) =
     (if key r = key new then upd r new # rs else r # upsert_row key upd new rs)"

definition upsert_object :: "object_row \<Rightarrow> object_row list \<Rightarrow> object_row list" where
  "upsert_object = upsert_row obj_uuid
     (\<lambda>r new. r\<lparr>obj_radio_type := obj_radio_type new, obj_radio_key := obj_radio_key new,
        obj_indoor := obj_indoor new, obj_claim_time := obj_claim_time new,
        obj_trust_score := obj_trust_score new, obj_inserted_at := obj_inserted_at new\<rparr>)"

definition upsert_hex :: "hex_row \<Rightarrow> hex_row list \<Rightarrow> hex_row list" where
  "upsert_hex = upsert_row (\<lambda>r. (hx_uuid r, hx_hex r))
     (\<lambda>r new. r\<lparr>hx_signal_level := hx_signal_level new, hx_signal_power := hx_signal_power new\<rparr>)"

definition COVERAGE_MAX_BATCH_ENTRIES :: nat where
  "COVERAGE_MAX_BATCH_ENTRIES = 65535 div 4"

function chunks :: "nat \<Rightarrow> 'a list \<Rightarrow> 'a list list" where
  "chunks n xs = (if xs = [] \<or> n = 0 then [] else take n xs # chunks n (drop n xs))"
  by pat_completeness auto
termination
  by (relation "measure (\<lambda>(n, xs). length xs)") auto

declare chunks.simps [simp del]

definition hex_row_of :: "uuid \<Rightarrow> radio_hex \<Rightarrow> hex_row" where
  "hex_row_of u h = \<lparr>hx_uuid = u, hx_hex = rh_location h, hx_signal_level = rh_signal_level h,
     hx_signal_power = rh_signal_power h\<rparr>"

text \<open>One statement must not touch a row twice.\<close>

definition insert_hexes :: "uuid \<Rightarrow> radio_hex list \<Rightarrow> hex_row list \<Rightarrow> coverage_sql_error + hex_row list" where
  "insert_hexes u batch rows =
     (if distinct (map rh_location batch) then Inr (foldl (\<lambda>rs h. upsert_hex (hex_row_of u h) rs) rows batch)
      else Inl RowAffectedTwice)"

fun insert_batches :: "uuid \<Rightarrow> radio_hex list list \<Rightarrow> hex_row list \<Rightarrow> coverage_sql_error + hex_row list" where
  "insert_batches u [] rows = Inr rows"
| "insert_batches u (b # bs) rows = res_bind (insert_hexes u b rows) (insert_batches u bs)"

definition save_coverage :: "timestamp \<Rightarrow> coverage_tables \<Rightarrow> coverage_object \<Rightarrow> coverage_sql_error + coverage_tables" where
  "save_coverage insertion_time db co =
     (let row = \<lparr>obj_uuid = co_uuid co, obj_radio_type = key_hb_type (co_key co),
                 obj_radio_key = key_text (co_key co), obj_indoor = co_indoor co,
                 obj_claim_time = co_claim_time co, obj_trust_score = co_trust_score co,
                 obj_inserted_at = insertion_time, obj_invalidated_at = None\<rparr>;
          db = db\<lparr>ct_objects := upsert_object row (ct_objects db)\<rparr>
      in res_bind (insert_batches (co_uuid co) (chunks COVERAGE_MAX_BATCH_ENTRIES (co_coverage co)) (ct_hexes db))
           (\<lambda>hexes. Inr (db\<lparr>ct_hexes := hexes\<rparr>)))"

text \<open>The loop of \<open>process_file\<close>, over the objects with the time at which each is
  saved: every object is written with its validity, the valid ones are saved. The objects
  written are returned on every path. \<open>Inl (Inl e)\<close> is an error of the service,
  \<open>Inl (Inr e)\<close> one of the database, and then nothing is committed.\<close>

fun process_coverage ::
  "(pubkey \<Rightarrow> 'e + bool) \<Rightarrow> (timestamp \<times> coverage_object) list \<Rightarrow> coverage_tables \<Rightarrow>
   (('e + coverage_sql_error) + coverage_tables) \<times> (coverage_object \<times> coverage_validity) list" where
  "process_coverage auth [] db = (Inr db, [])"
| "process_coverage auth ((now, co) # rest) db =
     (case validate_coverage auth co of
        Inl e \<Rightarrow> (Inl (Inl e), [])
      | Inr v \<Rightarrow>
          (case (if v = CoverageValid then save_coverage now db co else Inr db) of
             Inl e \<Rightarrow> (Inl (Inr e), [(co, v)])
           | Inr db \<Rightarrow> let (r, out) = process_coverage auth rest db in (r, (co, v) # out)))"

definition clear_coverage_objects :: "coverage_tables \<Rightarrow> timestamp \<Rightarrow> coverage_tables" where
  "clear_coverage_objects db ts =
     (let dead = (\<lambda>o'. case obj_invalidated_at o' of None \<Rightarrow> False | Some t \<Rightarrow> t < ts);
          db = db\<lparr>ct_hexes := filter (\<lambda>h. hx_uuid h \<notin> obj_uuid ` set (filter dead (ct_objects db))) (ct_hexes db)\<rparr>
      in db\<lparr>ct_objects := filter (\<lambda>o'. \<not> dead o') (ct_objects db)\<rparr>)"

section \<open>Reading coverage\<close>

record hex_coverage =
  hc_uuid :: uuid
  hc_hex :: i64
  hc_indoor :: bool
  hc_radio_key :: key_type
  hc_signal_level :: signal_level
  hc_signal_power :: i32
  hc_claim_time :: timestamp
  hc_inserted_at :: timestamp

text \<open>The join of the objects of a radio with their hexes; the claim time is replaced by the
  seniority.\<close>

definition covered_hex_stream ::
  "(string \<Rightarrow> bool) \<Rightarrow> coverage_tables \<Rightarrow> key_type \<Rightarrow> uuid \<Rightarrow> seniority_row \<Rightarrow>
   coverage_tables \<times> hex_coverage list" where
  "covered_hex_stream is_pk db key u sen =
     (let db' = db\<lparr>ct_seniority := filter (\<lambda>r. \<not> (sen_inserted_at r < sen_inserted_at sen \<and>
                     sen_radio_key r = key_text key)) (ct_seniority db)\<rparr>;
          objs = filter (\<lambda>o'. obj_radio_key o' = key_text key \<and> obj_uuid o' = u) (ct_objects db)
      in (db', concat (map (\<lambda>o'. map (\<lambda>h.
            \<lparr>hc_uuid = obj_uuid o', hc_hex = hx_hex h, hc_indoor = obj_indoor o',
             hc_radio_key = key_decode is_pk (obj_radio_key o'), hc_signal_level = hx_signal_level h,
             hc_signal_power = hx_signal_power h, hc_claim_time = sen_ts sen,
             hc_inserted_at = obj_inserted_at o'\<rparr>)
            (filter (\<lambda>h. hx_uuid h = obj_uuid o') (ct_hexes db))) objs)))"

definition fetch_seniority :: "coverage_tables \<Rightarrow> key_type \<Rightarrow> timestamp \<Rightarrow> coverage_sql_error + seniority_row" where
  "fetch_seniority db key period_end =
     (case sort_key (\<lambda>r. - sen_inserted_at r)
             (filter (\<lambda>r. sen_radio_key r = key_text key \<and> sen_inserted_at r \<le> period_end) (ct_seniority db)) of
        [] \<Rightarrow> Inl RowNotFound
      | r # _ \<Rightarrow> Inr r)"

definition fetch_latest :: "coverage_tables \<Rightarrow> key_type \<Rightarrow> seniority_row option" where
  "fetch_latest db key =
     (case sort_key (\<lambda>r. - sen_last_heartbeat r)
             (filter (\<lambda>r. sen_radio_key r = key_text key) (ct_seniority db)) of
        [] \<Rightarrow> None
      | r # _ \<Rightarrow> Some r)"

section \<open>Ranking the radios of a hexagon\<close>

record indoor_level =
  il_radio_key :: key_type
  il_seniority :: timestamp
  il_hotspot :: pubkey
  il_signal_level :: signal_level

record outdoor_level =
  ol_radio_key :: key_type
  ol_seniority :: timestamp
  ol_hotspot :: pubkey
  ol_signal_power :: i32
  ol_signal_level :: signal_level

fun indoor_points :: "signal_level \<Rightarrow> rat" where
  "indoor_points HighSignal = 400"
| "indoor_points LowSignal = 100"
| "indoor_points _ = 0"

fun outdoor_points :: "signal_level \<Rightarrow> rat" where
  "outdoor_points HighSignal = 16"
| "outdoor_points MediumSignal = 8"
| "outdoor_points LowSignal = 4"
| "outdoor_points NoSignal = 0"

text \<open>The order of the heaps: indoor by seniority; outdoor by descending power, then seniority.\<close>

definition indoor_key :: "indoor_level \<Rightarrow> timestamp" where
  "indoor_key l = il_seniority l"

definition outdoor_key :: "outdoor_level \<Rightarrow> int \<times> timestamp" where
  "outdoor_key l = (- sint (ol_signal_power l), ol_seniority l)"

record coverage_reward =
  cr_radio_key :: key_type
  cr_points :: rat
  cr_hotspot :: pubkey

record covered_hexes =
  ch_indoor :: "(u64 \<times> (signal_level \<times> indoor_level list) list) list"
  ch_outdoor :: "(u64 \<times> outdoor_level list) list"

definition MAX_INDOOR_RADIOS_PER_RES12_HEX :: nat where "MAX_INDOOR_RADIOS_PER_RES12_HEX = 5"
definition MAX_OUTDOOR_RADIOS_PER_RES12_HEX :: nat where "MAX_OUTDOOR_RADIOS_PER_RES12_HEX = 3"
definition OUTDOOR_REWARD_WEIGHTS :: "rat list" where "OUTDOOR_REWARD_WEIGHTS = [1, 3 / 4, 1 / 4]"

text \<open>\<open>entry(k).or_default()\<close> followed by a change of the value.\<close>

fun entry_update :: "'k \<Rightarrow> 'v \<Rightarrow> ('v \<Rightarrow> 'v) \<Rightarrow> ('k \<times> 'v) list \<Rightarrow> ('k \<times> 'v) list" where
  "entry_update k d f [] = [(k, f d)]"
| "entry_update k d f ((k', v) # xs) = (if k' = k then (k', f v) # xs else (k', v) # entry_update k d f xs)"

definition push_coverage :: "pubkey \<Rightarrow> hex_coverage \<Rightarrow> covered_hexes \<Rightarrow> covered_hexes" where
  "push_coverage hotspot hc ch =
     (if hc_indoor hc then
        ch\<lparr>ch_indoor := entry_update (hc_hex hc) []
             (entry_update (hc_signal_level hc) []
                (\<lambda>ls. ls @ [\<lparr>il_radio_key = hc_radio_key hc, il_seniority = hc_claim_time hc,
                             il_hotspot = hotspot, il_signal_level = hc_signal_level hc\<rparr>])) (ch_indoor ch)\<rparr>
      else
        let power = (if is_wifi (hc_radio_key hc) then hc_signal_power hc - 300 else hc_signal_power hc) in
        ch\<lparr>ch_outdoor := entry_update (hc_hex hc) []
             (\<lambda>ls. ls @ [\<lparr>ol_radio_key = hc_radio_key hc, ol_seniority = hc_claim_time hc,
                          ol_hotspot = hotspot, ol_signal_power = power,
                          ol_signal_level = hc_signal_level hc\<rparr>]) (ch_outdoor ch)\<rparr>)"

text \<open>\<open>None\<close> is the panic on a number that is not a cell.\<close>

fun aggregate_coverage ::
  "(u64 \<Rightarrow> bool) \<Rightarrow> pubkey \<Rightarrow> ('e + hex_coverage) list \<Rightarrow> covered_hexes \<Rightarrow> covered_hexes \<times> ('e option + unit)" where
  "aggregate_coverage valid_cell hotspot [] ch = (ch, Inr ())"
| "aggregate_coverage valid_cell hotspot (Inl e # hs) ch = (ch, Inl (Some e))"
| "aggregate_coverage valid_cell hotspot (Inr hc # hs) ch =
     (if valid_cell (hc_hex hc) then aggregate_coverage valid_cell hotspot hs (push_coverage hotspot hc ch)
      else (ch, Inl None))"

definition outdoor_hex_rewards :: "outdoor_level list \<Rightarrow> coverage_reward list" where
  "outdoor_hex_rewards radios =
     map (\<lambda>(cl, rank). \<lparr>cr_radio_key = ol_radio_key cl,
            cr_points = outdoor_points (ol_signal_level cl) * rank, cr_hotspot = ol_hotspot cl\<rparr>)
       (zip (take MAX_OUTDOOR_RADIOS_PER_RES12_HEX (sort_key outdoor_key radios)) OUTDOOR_REWARD_WEIGHTS)"

definition indoor_hex_rewards :: "(signal_level \<times> indoor_level list) list \<Rightarrow> coverage_reward list" where
  "indoor_hex_rewards levels =
     (case levels of
        [] \<Rightarrow> []
      | _ \<Rightarrow>
          let best = Max (fst ` set levels); radios = the (map_of levels best) in
          map (\<lambda>cl. \<lparr>cr_radio_key = il_radio_key cl, cr_points = indoor_points (il_signal_level cl),
                      cr_hotspot = il_hotspot cl\<rparr>)
            (take MAX_INDOOR_RADIOS_PER_RES12_HEX (sort_key indoor_key radios)))"

definition into_coverage_rewards :: "covered_hexes \<Rightarrow> coverage_reward list" where
  "into_coverage_rewards ch =
     filter (\<lambda>r. cr_points r > 0)
       (concat (map (\<lambda>(_, radios). outdoor_hex_rewards radios) (ch_outdoor ch)) @
        concat (map (\<lambda>(_, levels). indoor_hex_rewards levels) (ch_indoor ch)))"

section \<open>Caches\<close>

text \<open>A cache is the map of its live entries; between two calls entries may expire, so the
  callers pass the map that is left.\<close>

type_synonym claim_time_cache = "(string \<times> hb_type) \<times> uuid option \<rightharpoonup> timestamp"

definition query_claim_time :: "coverage_tables \<Rightarrow> key_type \<Rightarrow> uuid option \<Rightarrow> timestamp option" where
  "query_claim_time db key u =
     (case filter (\<lambda>o'. obj_radio_key o' = key_text key \<and> Some (obj_uuid o') = u) (ct_objects db) of
        [] \<Rightarrow> None
      | o' # _ \<Rightarrow> Some (obj_claim_time o'))"

definition fetch_coverage_claim_time ::
  "claim_time_cache \<Rightarrow> coverage_tables \<Rightarrow> key_type \<Rightarrow> uuid option \<Rightarrow> claim_time_cache \<times> timestamp option" where
  "fetch_coverage_claim_time c db key u =
     (case c (to_id key, u) of
        Some t \<Rightarrow> (c, Some t)
      | None \<Rightarrow>
          (case query_claim_time db key u of
             Some t \<Rightarrow> (c((to_id key, u) \<mapsto> t), Some t)
           | None \<Rightarrow> (c, None)))"

record coverage_object_meta =
  cm_inserted_at :: timestamp
  cm_indoor :: bool

type_synonym hex_cache = "uuid \<rightharpoonup> u64 list"

definition query_meta :: "coverage_tables \<Rightarrow> uuid \<Rightarrow> key_type \<Rightarrow> coverage_object_meta option" where
  "query_meta db u key =
     (case filter (\<lambda>o'. obj_uuid o' = u \<and> obj_radio_key o' = key_text key \<and> obj_invalidated_at o' = None)
             (ct_objects db) of
        [] \<Rightarrow> None
      | o' # _ \<Rightarrow> Some \<lparr>cm_inserted_at = obj_inserted_at o', cm_indoor = obj_indoor o'\<rparr>)"

definition query_hexes :: "coverage_tables \<Rightarrow> uuid \<Rightarrow> u64 list" where
  "query_hexes db u = map hx_hex (filter (\<lambda>h. hx_uuid h = u) (ct_hexes db))"

text \<open>\<open>None\<close> is the panic on a number that is not a cell.\<close>

definition fetch_coverage_object ::
  "(u64 \<Rightarrow> bool) \<Rightarrow> hex_cache \<Rightarrow> coverage_tables \<Rightarrow> uuid \<Rightarrow> key_type \<Rightarrow>
   (hex_cache \<times> (coverage_object_meta \<times> u64 list) option) option" where
  "fetch_coverage_object valid_cell c db u key =
     (case query_meta db u key of
        None \<Rightarrow> Some (c, None)
      | Some meta \<Rightarrow>
          (case c u of
             Some hexes \<Rightarrow> Some (c, Some (meta, hexes))
           | None \<Rightarrow>
               let hexes = query_hexes db u in
               if list_all valid_cell hexes then Some (c(u \<mapsto> hexes), Some (meta, hexes)) else None))"

text \<open>\<open>distance\<close> is the distance of the centre of a cell to the coordinates.\<close>

definition max_distance_m :: "(u64 \<Rightarrow> rat) \<Rightarrow> u64 list \<Rightarrow> rat" where
  "max_distance_m distance hexes = foldl (\<lambda>m h. max m (distance h)) 0 hexes"

section \<open>Who is rewarded for a hexagon\<close>

lemma sort_key_split:
  assumes "chosen = take n (sort_key f xs)" "rest = drop n (sort_key f xs)"
  shows "mset xs = mset (chosen @ rest)" "length chosen = min n (length xs)"
    "sorted (map f chosen)" "\<forall>c \<in> set chosen. \<forall>r \<in> set rest. f c \<le> f r"
proof -
  have s: "sort_key f xs = chosen @ rest" using assms by simp
  show "mset xs = mset (chosen @ rest)" by (metis s mset_sort)
  show "length chosen = min n (length xs)" using assms by (simp add: min.commute)
  have "sorted (map f (chosen @ rest))" by (metis s sorted_sort_key)
  then show "sorted (map f chosen)" "\<forall>c \<in> set chosen. \<forall>r \<in> set rest. f c \<le> f r"
    by (auto simp: sorted_append)
qed

lemma outdoor_hex_rewards_take:
  "outdoor_hex_rewards radios =
     map (\<lambda>(cl, rank). \<lparr>cr_radio_key = ol_radio_key cl,
            cr_points = outdoor_points (ol_signal_level cl) * rank, cr_hotspot = ol_hotspot cl\<rparr>)
       (zip (take 3 (sort_key outdoor_key radios)) [1, 3 / 4, 1 / 4])"
  by (simp add: outdoor_hex_rewards_def MAX_OUTDOOR_RADIOS_PER_RES12_HEX_def OUTDOOR_REWARD_WEIGHTS_def)

text \<open>C22: of the radios covering a hexagon outdoors exactly the best three, or all when there
  are fewer, are rewarded: no radio left out has a stronger signal, nor an equal one with an
  earlier seniority, than a radio that is rewarded. The first, second and third earn the whole,
  three quarters and one quarter of the points of their signal level.\<close>

theorem outdoor_rewards_best_three:
  "\<exists>chosen rest. mset radios = mset (chosen @ rest) \<and> length chosen = min 3 (length radios) \<and>
     sorted (map outdoor_key chosen) \<and>
     (\<forall>c \<in> set chosen. \<forall>r \<in> set rest. sint (ol_signal_power r) < sint (ol_signal_power c) \<or>
        sint (ol_signal_power r) = sint (ol_signal_power c) \<and> ol_seniority c \<le> ol_seniority r) \<and>
     outdoor_hex_rewards radios =
       map2 (\<lambda>c w. \<lparr>cr_radio_key = ol_radio_key c, cr_points = outdoor_points (ol_signal_level c) * w,
                    cr_hotspot = ol_hotspot c\<rparr>) chosen (take (length chosen) [1, 3 / 4, 1 / 4])"
proof -
  define chosen where "chosen = take 3 (sort_key outdoor_key radios)"
  define rest where "rest = drop 3 (sort_key outdoor_key radios)"
  note split = sort_key_split [OF chosen_def rest_def]
  have "zip chosen (take (length chosen) ws) = zip chosen ws" for ws :: "rat list"
    by (metis length_zip min.cobounded1 take_all take_zip order_refl)
  then have "outdoor_hex_rewards radios =
       map2 (\<lambda>c w. \<lparr>cr_radio_key = ol_radio_key c, cr_points = outdoor_points (ol_signal_level c) * w,
                    cr_hotspot = ol_hotspot c\<rparr>) chosen (take (length chosen) [1, 3 / 4, 1 / 4])"
    unfolding outdoor_hex_rewards_take chosen_def [symmetric] by simp
  moreover have "sint (ol_signal_power r) < sint (ol_signal_power c) \<or>
        sint (ol_signal_power r) = sint (ol_signal_power c) \<and> ol_seniority c \<le> ol_seniority r"
    if "c \<in> set chosen" "r \<in> set rest" for c r
    using split(4) that by (fastforce simp: outdoor_key_def)
  ultimately show ?thesis using split(1,2,3) by blast
qed

definition sample_outdoor :: "int \<Rightarrow> int \<Rightarrow> outdoor_level" where
  "sample_outdoor p ts = \<lparr>ol_radio_key = CbrsKey ''r'', ol_seniority = ts, ol_hotspot = ''h'',
     ol_signal_power = word_of_int p, ol_signal_level = HighSignal\<rparr>"

definition sample_radios :: "outdoor_level list" where
  "sample_radios = [sample_outdoor 1 0, sample_outdoor 2 7, sample_outdoor 2 5, sample_outdoor 3 9]"

lemma sample_radios_points: "map cr_points (outdoor_hex_rewards sample_radios) = [16, 12, 4]"
  by (simp add: outdoor_hex_rewards_take outdoor_key_def sample_outdoor_def sample_radios_def)

lemma outdoor_rewards_best_three_witness:
  "map cr_points (outdoor_hex_rewards sample_radios) = [16, 12, 4] \<and>
   (\<exists>chosen rest. mset sample_radios = mset (chosen @ rest) \<and> length chosen = 3 \<and> sorted (map outdoor_key chosen) \<and>
     (\<forall>c \<in> set chosen. \<forall>r \<in> set rest. sint (ol_signal_power r) < sint (ol_signal_power c) \<or>
        sint (ol_signal_power r) = sint (ol_signal_power c) \<and> ol_seniority c \<le> ol_seniority r))"
proof -
  have "min 3 (length sample_radios) = 3" by (simp add: sample_radios_def)
  then show ?thesis using outdoor_rewards_best_three [of sample_radios] sample_radios_points
    by (elim exE conjE) (intro conjI exI; simp)
qed

text \<open>The shape the aggregation keeps: one entry per hexagon and per level, no empty heap, and
  every radio below the level of its own signal.\<close>

definition levels_wf :: "(signal_level \<times> indoor_level list) list \<Rightarrow> bool" where
  "levels_wf levels \<longleftrightarrow> levels \<noteq> [] \<and> distinct (map fst levels) \<and>
     (\<forall>(sl, ls) \<in> set levels. ls \<noteq> [] \<and> (\<forall>l \<in> set ls. il_signal_level l = sl))"

definition covered_wf :: "covered_hexes \<Rightarrow> bool" where
  "covered_wf ch \<longleftrightarrow> distinct (map fst (ch_indoor ch)) \<and> distinct (map fst (ch_outdoor ch)) \<and>
     (\<forall>(_, levels) \<in> set (ch_indoor ch). levels_wf levels) \<and> (\<forall>(_, ls) \<in> set (ch_outdoor ch). ls \<noteq> [])"

lemma entry_update_keys: "fst ` set (entry_update k d f xs) = insert k (fst ` set xs)"
  by (induction k d f xs rule: entry_update.induct) auto

lemma entry_update_distinct: "distinct (map fst xs) \<Longrightarrow> distinct (map fst (entry_update k d f xs))"
  by (induction k d f xs rule: entry_update.induct) (auto simp: entry_update_keys)

lemma entry_update_all:
  assumes "\<forall>(k', v) \<in> set xs. P k' v" "P k (f d)" "\<And>v. P k v \<Longrightarrow> P k (f v)"
  shows "\<forall>(k', v) \<in> set (entry_update k d f xs). P k' v"
  using assms by (induction xs) (auto split: if_splits)

lemma entry_update_Nil [simp]: "entry_update k d f xs \<noteq> []"
  by (cases xs) (auto split: if_splits)

lemma entry_update_map_of:
  "map_of (entry_update k d f xs) k' =
     (if k' = k then Some (f (case map_of xs k of None \<Rightarrow> d | Some v \<Rightarrow> v)) else map_of xs k')"
  by (induction xs) auto

lemma levels_wf_push:
  assumes "levels = [] \<or> levels_wf levels" "il_signal_level l = sl"
  shows "levels_wf (entry_update sl [] (\<lambda>ls. ls @ [l]) levels)"
proof -
  have "\<forall>(k, v) \<in> set levels. v \<noteq> [] \<and> (\<forall>l \<in> set v. il_signal_level l = k)" "distinct (map fst levels)"
    using assms(1) by (auto simp: levels_wf_def)
  then show ?thesis
    unfolding levels_wf_def using assms(2)
      entry_update_all [of levels "\<lambda>k v. v \<noteq> [] \<and> (\<forall>l \<in> set v. il_signal_level l = k)" sl "\<lambda>ls. ls @ [l]" "[]"]
    by (simp add: entry_update_distinct)
qed

lemma push_coverage_wf:
  assumes "covered_wf ch"
  shows "covered_wf (push_coverage hotspot hc ch)"
proof (cases "hc_indoor hc")
  case True
  let ?l = "\<lparr>il_radio_key = hc_radio_key hc, il_seniority = hc_claim_time hc,
             il_hotspot = hotspot, il_signal_level = hc_signal_level hc\<rparr>"
  have nil: "levels_wf (entry_update (hc_signal_level hc) [] (\<lambda>ls. ls @ [?l]) [])"
    by (rule levels_wf_push) simp_all
  have "\<forall>(_, levels) \<in> set (entry_update (hc_hex hc) []
      (entry_update (hc_signal_level hc) [] (\<lambda>ls. ls @ [?l])) (ch_indoor ch)). levels_wf levels"
    by (rule entry_update_all [where P = "\<lambda>_ v. levels_wf v"])
      (use assms nil levels_wf_push in \<open>auto simp: covered_wf_def\<close>)
  then show ?thesis using True assms by (simp add: push_coverage_def covered_wf_def entry_update_distinct)
next
  case False
  have "\<forall>(_, ls) \<in> set (entry_update k [] (\<lambda>ls. ls @ [l]) (ch_outdoor ch)). ls \<noteq> []" for k l
    by (rule entry_update_all [where P = "\<lambda>_ v. v \<noteq> []"]) (use assms in \<open>auto simp: covered_wf_def\<close>)
  then show ?thesis using False assms by (simp add: push_coverage_def covered_wf_def entry_update_distinct Let_def)
qed

lemma aggregate_coverage_wf:
  "covered_wf ch \<Longrightarrow> aggregate_coverage valid_cell hotspot hs ch = (ch', r) \<Longrightarrow> covered_wf ch'"
  by (induction valid_cell hotspot hs ch rule: aggregate_coverage.induct)
    (auto split: if_splits simp: push_coverage_wf)

lemma indoor_hex_rewards_best:
  "levels \<noteq> [] \<Longrightarrow> map_of levels (Max (fst ` set levels)) = Some radios \<Longrightarrow>
   indoor_hex_rewards levels = map (\<lambda>c. \<lparr>cr_radio_key = il_radio_key c,
      cr_points = indoor_points (il_signal_level c), cr_hotspot = il_hotspot c\<rparr>) (take 5 (sort_key indoor_key radios))"
  by (cases levels) (simp_all add: indoor_hex_rewards_def Let_def MAX_INDOOR_RADIOS_PER_RES12_HEX_def)

text \<open>C23: of the radios covering a hexagon indoors only those with the highest signal level of
  the hexagon are rewarded, of these the five with the earliest seniority, each with all the
  points of the level.\<close>

theorem indoor_rewards_most_senior_of_best_level:
  assumes "aggregate_coverage valid_cell hotspot hs ch = (ch', r)" "covered_wf ch" "(hex, levels) \<in> set (ch_indoor ch')"
  shows "\<exists>best radios chosen rest. (best, radios) \<in> set levels \<and> (\<forall>(sl, ls) \<in> set levels. sl \<le> best) \<and>
     (\<forall>l \<in> set radios. il_signal_level l = best) \<and> mset radios = mset (chosen @ rest) \<and>
     length chosen = min 5 (length radios) \<and> chosen \<noteq> [] \<and>
     (\<forall>c \<in> set chosen. \<forall>r \<in> set rest. il_seniority c \<le> il_seniority r) \<and>
     indoor_hex_rewards levels = map (\<lambda>c. \<lparr>cr_radio_key = il_radio_key c, cr_points = indoor_points best,
        cr_hotspot = il_hotspot c\<rparr>) chosen"
proof -
  have "covered_wf ch'" using aggregate_coverage_wf [OF assms(2,1)] .
  then have wf: "levels_wf levels" using assms(3) by (auto simp: covered_wf_def)
  define best where "best = Max (fst ` set levels)"
  have ne: "fst ` set levels \<noteq> {}" using wf by (auto simp: levels_wf_def)
  then have "best \<in> fst ` set levels" using Max_in by (simp add: best_def)
  then obtain radios where mem: "(best, radios) \<in> set levels" by auto
  have "fst p \<le> best" if "p \<in> set levels" for p using that by (simp add: best_def)
  then have le: "\<forall>(sl, ls) \<in> set levels. sl \<le> best" by fastforce
  have radios: "radios \<noteq> []" "\<forall>l \<in> set radios. il_signal_level l = best"
    using mem wf by (auto simp: levels_wf_def)
  define chosen where "chosen = take 5 (sort_key indoor_key radios)"
  define rest where "rest = drop 5 (sort_key indoor_key radios)"
  note split = sort_key_split [OF chosen_def rest_def]
  have "set chosen \<subseteq> set radios" unfolding chosen_def using set_take_subset [of 5 "sort_key indoor_key radios"] by simp
  have "map_of levels best = Some radios" using mem wf by (simp add: levels_wf_def)
  then have "indoor_hex_rewards levels = map (\<lambda>c. \<lparr>cr_radio_key = il_radio_key c,
      cr_points = indoor_points (il_signal_level c), cr_hotspot = il_hotspot c\<rparr>) chosen"
    using wf indoor_hex_rewards_best unfolding best_def chosen_def by (simp add: levels_wf_def)
  then have rewards: "indoor_hex_rewards levels = map (\<lambda>c. \<lparr>cr_radio_key = il_radio_key c,
      cr_points = indoor_points best, cr_hotspot = il_hotspot c\<rparr>) chosen"
    using \<open>set chosen \<subseteq> set radios\<close> radios(2) by (simp add: subset_iff cong: map_cong)
  have "chosen \<noteq> []" using split(2) radios(1) by (cases radios; cases chosen) simp_all
  moreover have "\<forall>c \<in> set chosen. \<forall>r \<in> set rest. il_seniority c \<le> il_seniority r"
    using split(4) by (simp add: indoor_key_def)
  ultimately show ?thesis using mem le radios(2) split(1,2) rewards
    by - (rule exI [of _ best], rule exI [of _ radios], rule exI [of _ chosen], rule exI [of _ rest], (intro conjI; assumption))
qed

definition sample_hex_coverage :: "signal_level \<Rightarrow> int \<Rightarrow> hex_coverage" where
  "sample_hex_coverage sl ts = \<lparr>hc_uuid = ''u'', hc_hex = 9, hc_indoor = True, hc_radio_key = CbrsKey ''r'',
     hc_signal_level = sl, hc_signal_power = 0, hc_claim_time = ts, hc_inserted_at = 0\<rparr>"

definition no_coverage :: covered_hexes where
  "no_coverage = \<lparr>ch_indoor = [], ch_outdoor = []\<rparr>"

lemma no_coverage_wf [simp]: "covered_wf no_coverage"
  by (simp add: no_coverage_def covered_wf_def)

definition sample_aggregate :: "covered_hexes \<times> (string option + unit)" where
  "sample_aggregate = aggregate_coverage (\<lambda>_. True) ''h''
     [Inr (sample_hex_coverage LowSignal 1), Inr (sample_hex_coverage HighSignal 2)] no_coverage"

lemma sample_aggregate_indoor:
  "ch_indoor (fst sample_aggregate) =
     [(9, [(LowSignal, [\<lparr>il_radio_key = CbrsKey ''r'', il_seniority = 1, il_hotspot = ''h'', il_signal_level = LowSignal\<rparr>]),
           (HighSignal, [\<lparr>il_radio_key = CbrsKey ''r'', il_seniority = 2, il_hotspot = ''h'', il_signal_level = HighSignal\<rparr>])])]"
  by (simp add: sample_aggregate_def push_coverage_def sample_hex_coverage_def no_coverage_def)

lemma indoor_rewards_most_senior_of_best_level_witness:
  "\<exists>hex levels best radios. (hex, levels) \<in> set (ch_indoor (fst sample_aggregate)) \<and> (best, radios) \<in> set levels \<and>
     (\<forall>(sl, ls) \<in> set levels. sl \<le> best) \<and> map cr_points (indoor_hex_rewards levels) = replicate (min 5 (length radios)) (indoor_points best)"
proof -
  define levels where "levels = snd (hd (ch_indoor (fst sample_aggregate)))"
  have mem: "(9, levels) \<in> set (ch_indoor (fst sample_aggregate))"
    by (simp add: levels_def sample_aggregate_indoor)
  have run: "aggregate_coverage (\<lambda>_. True) ''h''
     [Inr (sample_hex_coverage LowSignal 1), Inr (sample_hex_coverage HighSignal 2)] no_coverage =
       (fst sample_aggregate, snd sample_aggregate)" by (simp add: sample_aggregate_def)
  obtain best radios and chosen :: "indoor_level list" where r: "(best, radios) \<in> set levels" "\<forall>(sl, ls) \<in> set levels. sl \<le> best"
    "length chosen = min 5 (length radios)" "indoor_hex_rewards levels = map (\<lambda>c. \<lparr>cr_radio_key = il_radio_key c,
      cr_points = indoor_points best, cr_hotspot = il_hotspot c\<rparr>) chosen"
    using indoor_rewards_most_senior_of_best_level [OF run no_coverage_wf mem] by (elim exE conjE) (rule that; assumption)
  have "map cr_points (indoor_hex_rewards levels) = replicate (min 5 (length radios)) (indoor_points best)"
    by (simp add: r comp_def map_replicate_const)
  then show ?thesis using mem r(1,2) by - (rule exI [of _ 9], rule exI [of _ levels], rule exI [of _ best], rule exI [of _ radios], (intro conjI; assumption))
qed

lemma sum_list_le_length:
  fixes f :: "'a \<Rightarrow> rat"
  shows "(\<And>x. x \<in> set xs \<Longrightarrow> f x \<le> b) \<Longrightarrow> sum_list (map f xs) \<le> of_nat (length xs) * b"
proof (induction xs)
  case (Cons a xs)
  have "f a \<le> b" "sum_list (map f xs) \<le> of_nat (length xs) * b" using Cons by simp_all
  then show ?case by (simp add: algebra_simps)
qed simp

lemma sum_list_filter_le:
  fixes f :: "'a \<Rightarrow> rat"
  shows "(\<And>x. x \<in> set xs \<Longrightarrow> 0 \<le> f x) \<Longrightarrow> sum_list (map f (filter P xs)) \<le> sum_list (map f xs)"
  by (induction xs) (auto intro: add_increasing)

lemma sum_list_concat_map: "sum_list (map f (concat xss)) = sum_list (map (\<lambda>xs. sum_list (map f xs)) xss)"
  by (induction xss) auto

lemma outdoor_points_bounds: "0 \<le> outdoor_points sl" "outdoor_points sl \<le> 16"
  by (cases sl; simp)+

lemma indoor_points_bounds: "0 \<le> indoor_points sl" "indoor_points sl \<le> 400"
  by (cases sl; simp)+

lemma outdoor_hex_nonneg: "r \<in> set (outdoor_hex_rewards radios) \<Longrightarrow> 0 \<le> cr_points r"
  by (auto simp: outdoor_hex_rewards_take outdoor_points_bounds dest!: set_zip_rightD)

lemma outdoor_hex_total: "sum_list (map cr_points (outdoor_hex_rewards radios)) \<le> 32"
proof -
  define best where "best = take 3 (sort_key outdoor_key radios)"
  have eq: "map cr_points (outdoor_hex_rewards radios) =
    map2 (\<lambda>c w. outdoor_points (ol_signal_level c) * w) best [1, 3 / 4, 1 / 4]"
    by (auto simp: outdoor_hex_rewards_take best_def comp_def)
  have "length best \<le> 3" by (simp add: best_def)
  then consider "best = []" | a where "best = [a]" | a b where "best = [a, b]" | a b c where "best = [a, b, c]"
    by (auto simp: le_Suc_eq numeral_3_eq_3 length_Suc_conv)
  then show ?thesis
  proof cases
    case (4 a b c)
    then show ?thesis
      using outdoor_points_bounds(2) [of "ol_signal_level a"] outdoor_points_bounds(2) [of "ol_signal_level b"]
        outdoor_points_bounds(2) [of "ol_signal_level c"] by (simp add: eq)
  next
    case (3 a b)
    then show ?thesis using outdoor_points_bounds(2) [of "ol_signal_level a"]
      outdoor_points_bounds(2) [of "ol_signal_level b"] by (simp add: eq)
  next
    case (2 a)
    then show ?thesis using outdoor_points_bounds(2) [of "ol_signal_level a"] by (simp add: eq)
  qed (simp add: eq)
qed

lemma indoor_hex_nonneg: "r \<in> set (indoor_hex_rewards levels) \<Longrightarrow> 0 \<le> cr_points r"
  by (auto simp: indoor_hex_rewards_def Let_def indoor_points_bounds split: list.splits)

lemma indoor_hex_total: "sum_list (map cr_points (indoor_hex_rewards levels)) \<le> 2000"
proof -
  have "length (indoor_hex_rewards levels) \<le> 5"
    by (auto simp: indoor_hex_rewards_def Let_def MAX_INDOOR_RADIOS_PER_RES12_HEX_def split: list.splits)
  moreover have "sum_list (map cr_points (indoor_hex_rewards levels)) \<le> of_nat (length (indoor_hex_rewards levels)) * 400"
    by (rule sum_list_le_length)
      (auto simp: indoor_hex_rewards_def Let_def indoor_points_bounds split: list.splits)
  ultimately show ?thesis by linarith
qed

text \<open>Every coverage reward has positive points, and the points of all rewards are at most
  32 for each hexagon covered outdoors and 2000 for each hexagon covered indoors.\<close>

theorem coverage_points_bounded:
  "list_all (\<lambda>r. 0 < cr_points r) (into_coverage_rewards ch) \<and>
   sum_list (map cr_points (into_coverage_rewards ch)) \<le>
     32 * of_nat (length (ch_outdoor ch)) + 2000 * of_nat (length (ch_indoor ch))"
proof -
  let ?out = "concat (map (\<lambda>(_, radios). outdoor_hex_rewards radios) (ch_outdoor ch))"
  let ?in = "concat (map (\<lambda>(_, levels). indoor_hex_rewards levels) (ch_indoor ch))"
  have "sum_list (map cr_points (into_coverage_rewards ch)) \<le> sum_list (map cr_points (?out @ ?in))"
    unfolding into_coverage_rewards_def
    by (rule sum_list_filter_le) (auto intro: outdoor_hex_nonneg indoor_hex_nonneg)
  also have "\<dots> = sum_list (map cr_points ?out) + sum_list (map cr_points ?in)" by simp
  also have "sum_list (map cr_points ?out) \<le> of_nat (length (ch_outdoor ch)) * 32"
    unfolding sum_list_concat_map map_map by (rule sum_list_le_length) (auto simp: outdoor_hex_total)
  also have "sum_list (map cr_points ?in) \<le> of_nat (length (ch_indoor ch)) * 2000"
    unfolding sum_list_concat_map map_map by (rule sum_list_le_length) (auto simp: indoor_hex_total)
  finally show ?thesis by (auto simp: into_coverage_rewards_def list_all_iff)
qed

section \<open>Saved coverage is read back\<close>

lemma concat_chunks: "0 < n \<Longrightarrow> concat (chunks n xs) = xs"
  by (induction n xs rule: chunks.induct) (simp add: chunks.simps)

lemma upsert_row_fresh: "key new \<notin> key ` set rs \<Longrightarrow> upsert_row key upd new rs = rs @ [new]"
  by (induction rs) auto

lemma hex_row_of_simps [simp]:
  "hx_uuid (hex_row_of u h) = u" "hx_hex (hex_row_of u h) = rh_location h"
  "hx_signal_level (hex_row_of u h) = rh_signal_level h" "hx_signal_power (hex_row_of u h) = rh_signal_power h"
  by (simp_all add: hex_row_of_def)

lemma insert_hexes_fresh:
  assumes "\<forall>r \<in> set rows. hx_uuid r = u \<longrightarrow> hx_hex r \<notin> rh_location ` set batch" "distinct (map rh_location batch)"
  shows "foldl (\<lambda>rs h. upsert_hex (hex_row_of u h) rs) rows batch = rows @ map (hex_row_of u) batch"
  using assms
proof (induction batch arbitrary: rows)
  case (Cons h batch)
  have "upsert_hex (hex_row_of u h) rows = rows @ [hex_row_of u h]"
    unfolding upsert_hex_def by (rule upsert_row_fresh) (use Cons.prems in auto)
  then show ?case using Cons.prems Cons.IH [of "rows @ [hex_row_of u h]"] by auto
qed simp

lemma insert_batches_fresh:
  assumes "\<forall>r \<in> set rows. hx_uuid r = u \<longrightarrow> hx_hex r \<notin> rh_location ` set (concat bs)"
    "distinct (map rh_location (concat bs))"
  shows "insert_batches u bs rows = Inr (rows @ map (hex_row_of u) (concat bs))"
  using assms
proof (induction bs arbitrary: rows)
  case (Cons b bs)
  have "insert_hexes u b rows = Inr (rows @ map (hex_row_of u) b)"
    using Cons.prems insert_hexes_fresh [of rows u b] by (auto simp: insert_hexes_def)
  moreover have "rh_location h \<notin> rh_location ` set (concat bs)" if "h \<in> set b" for h
    using Cons.prems(2) that by auto
  then have "\<forall>r \<in> set (rows @ map (hex_row_of u) b). hx_uuid r = u \<longrightarrow> hx_hex r \<notin> rh_location ` set (concat bs)"
    using Cons.prems(1) by (simp add: ball_Un) blast
  ultimately show ?case using Cons.prems Cons.IH [of "rows @ map (hex_row_of u) b"] by simp
qed simp

lemma save_coverage_fresh:
  assumes "co_uuid co \<notin> obj_uuid ` set (ct_objects db)" "co_uuid co \<notin> hx_uuid ` set (ct_hexes db)"
    "distinct (map rh_location (co_coverage co))"
  shows "save_coverage now db co = Inr (db\<lparr>
     ct_objects := ct_objects db @ [\<lparr>obj_uuid = co_uuid co, obj_radio_type = key_hb_type (co_key co),
       obj_radio_key = key_text (co_key co), obj_indoor = co_indoor co, obj_claim_time = co_claim_time co,
       obj_trust_score = co_trust_score co, obj_inserted_at = now, obj_invalidated_at = None\<rparr>],
     ct_hexes := ct_hexes db @ map (hex_row_of (co_uuid co)) (co_coverage co)\<rparr>)"
proof -
  have n: "0 < COVERAGE_MAX_BATCH_ENTRIES" by (simp add: COVERAGE_MAX_BATCH_ENTRIES_def)
  have "\<forall>r \<in> set (ct_hexes db). hx_uuid r = co_uuid co \<longrightarrow>
      hx_hex r \<notin> rh_location ` set (concat (chunks COVERAGE_MAX_BATCH_ENTRIES (co_coverage co)))"
    using assms(2) by (auto simp: image_iff)
  then have "insert_batches (co_uuid co) (chunks COVERAGE_MAX_BATCH_ENTRIES (co_coverage co)) (ct_hexes db) =
      Inr (ct_hexes db @ map (hex_row_of (co_uuid co)) (co_coverage co))"
    using insert_batches_fresh [of "ct_hexes db" "co_uuid co" "chunks COVERAGE_MAX_BATCH_ENTRIES (co_coverage co)"]
      assms(3) concat_chunks [OF n] by metis
  moreover have "upsert_object row (ct_objects db) = ct_objects db @ [row]" if "obj_uuid row = co_uuid co" for row
    unfolding upsert_object_def by (rule upsert_row_fresh) (use assms(1) that in auto)
  ultimately show ?thesis by (simp add: save_coverage_def Let_def)
qed

text \<open>C32: saving a coverage object under a new identifier, in as many batches as it needs, and
  reading the hexagons of that radio and object back gives exactly the claimed hexagons, each
  once, with the claim time replaced by the seniority of the radio; the read deletes only older
  seniority rows of the same radio.\<close>

theorem saved_coverage_read_back:
  assumes "co_uuid co \<notin> obj_uuid ` set (ct_objects db)" "co_uuid co \<notin> hx_uuid ` set (ct_hexes db)"
    "distinct (map rh_location (co_coverage co))"
  shows "\<exists>db' db''. save_coverage now db co = Inr db' \<and>
     covered_hex_stream is_pk db' (co_key co) (co_uuid co) sen =
       (db'', map (\<lambda>h. \<lparr>hc_uuid = co_uuid co, hc_hex = rh_location h, hc_indoor = co_indoor co,
          hc_radio_key = key_decode is_pk (key_text (co_key co)), hc_signal_level = rh_signal_level h,
          hc_signal_power = rh_signal_power h, hc_claim_time = sen_ts sen, hc_inserted_at = now\<rparr>) (co_coverage co)) \<and>
     ct_objects db'' = ct_objects db' \<and> ct_hexes db'' = ct_hexes db' \<and>
     set (ct_seniority db) - set (ct_seniority db'') =
       {r \<in> set (ct_seniority db). sen_inserted_at r < sen_inserted_at sen \<and> sen_radio_key r = key_text (co_key co)}"
proof -
  have objs: "filter (\<lambda>o'. obj_radio_key o' = k \<and> obj_uuid o' = co_uuid co) (ct_objects db) = []" for k
    using assms(1) by (auto simp: filter_empty_conv image_iff)
  have hexes: "filter (\<lambda>h. hx_uuid h = co_uuid co) (ct_hexes db) = []"
    using assms(2) by (auto simp: filter_empty_conv image_iff)
  have all: "filter (\<lambda>h. hx_uuid h = co_uuid co) (map (hex_row_of (co_uuid co)) hs) = map (hex_row_of (co_uuid co)) hs" for hs
    by (simp add: filter_id_conv)
  show ?thesis unfolding save_coverage_fresh [OF assms] covered_hex_stream_def
    by (auto simp: objs hexes all Let_def comp_def)
qed

lemma saved_coverage_read_back_witness:
  "\<exists>db' db''. save_coverage 5 \<lparr>ct_objects = [], ct_hexes = [], ct_seniority = []\<rparr>
      \<lparr>co_pub_key = ''k'', co_uuid = ''u'', co_key = CbrsKey ''r'', co_claim_time = 1, co_indoor = True,
       co_coverage = [\<lparr>rh_location = 9, rh_signal_level = HighSignal, rh_signal_power = 0\<rparr>], co_trust_score = 0\<rparr> = Inr db' \<and>
     covered_hex_stream (\<lambda>_. False) db' (CbrsKey ''r'') ''u''
       \<lparr>sen_uuid = ''u'', sen_ts = 3, sen_last_heartbeat = 4, sen_inserted_at = 3, sen_update_reason = HeartbeatNotSeen,
        sen_radio_key = ''r'', sen_radio_type = HbCbrs\<rparr> =
       (db'', [\<lparr>hc_uuid = ''u'', hc_hex = 9, hc_indoor = True, hc_radio_key = CbrsKey ''r'', hc_signal_level = HighSignal,
          hc_signal_power = 0, hc_claim_time = 3, hc_inserted_at = 5\<rparr>])"
  using saved_coverage_read_back [of "\<lparr>co_pub_key = ''k'', co_uuid = ''u'', co_key = CbrsKey ''r'', co_claim_time = 1, co_indoor = True,
       co_coverage = [\<lparr>rh_location = 9, rh_signal_level = HighSignal, rh_signal_power = 0\<rparr>], co_trust_score = 0\<rparr>"
      "\<lparr>ct_objects = [], ct_hexes = [], ct_seniority = []\<rparr>" 5 "\<lambda>_. False"
      "\<lparr>sen_uuid = ''u'', sen_ts = 3, sen_last_heartbeat = 4, sen_inserted_at = 3, sen_update_reason = HeartbeatNotSeen,
        sen_radio_key = ''r'', sen_radio_type = HbCbrs\<rparr>"]
  by (auto simp: key_decode_def)

section \<open>Caches\<close>

definition claim_cache_ok :: "claim_time_cache \<Rightarrow> coverage_tables \<Rightarrow> bool" where
  "claim_cache_ok c db \<longleftrightarrow> (\<forall>key u t. c (to_id key, u) = Some t \<longrightarrow> query_claim_time db key u = Some t)"

definition hex_cache_ok :: "hex_cache \<Rightarrow> coverage_tables \<Rightarrow> bool" where
  "hex_cache_ok c db \<longleftrightarrow> (\<forall>u hs. c u = Some hs \<longrightarrow> hs = query_hexes db u)"

lemma to_id_inj: "to_id k = to_id k' \<longleftrightarrow> k = k'"
  by (cases k; cases k') (auto simp: to_id_def)

lemma fetch_coverage_claim_time_db:
  assumes "claim_cache_ok c db" "fetch_coverage_claim_time c db key u = (c', t)"
  shows "t = query_claim_time db key u \<and> claim_cache_ok c' db"
proof (cases "c (to_id key, u)")
  case None
  then show ?thesis using assms
    by (cases "query_claim_time db key u") (auto simp: fetch_coverage_claim_time_def claim_cache_ok_def to_id_inj split: if_splits)
next
  case (Some a)
  then have "query_claim_time db key u = Some a" using assms(1) unfolding claim_cache_ok_def by blast
  then show ?thesis using assms Some by (simp add: fetch_coverage_claim_time_def)
qed

lemma fetch_coverage_object_db:
  assumes "hex_cache_ok c db" "fetch_coverage_object valid_cell c db u key = Some (c', r)"
  shows "r = map_option (\<lambda>m. (m, query_hexes db u)) (query_meta db u key) \<and> hex_cache_ok c' db"
  using assms
  by (cases "query_meta db u key"; cases "c u")
    (auto simp: fetch_coverage_object_def hex_cache_ok_def Let_def split: if_splits)

end
