(* ===== verification/File_Store.thy ===== *)
theory File_Store
  imports Timestamps "HOL-Library.List_Lexorder" "HOL-Library.Char_ord" "HOL-Library.Sublist"
begin

text \<open>
  The names of files (\<^verbatim>\<open>src/file_store/src/file_info.rs\<close>) and the listing of a bucket
  (\<^verbatim>\<open>src/file_store/src/file_store.rs\<close>). The regular expression of the names is
  translated to a search with its order of alternatives; strings are ASCII. The storage service is a function
  from a request and a continuation token to a response. A key that matches the expression
  and has a number that is no time makes the listing panic.

  The lemmas show that names are read back, that a listing ends when the tokens of the
  service do, and that it contains exactly the files of the window for times with thirteen-digit
  milliseconds, where the order of the names is the order of the times.
\<close>

section \<open>File types\<close>

datatype file_type =
  CbrsHeartbeatFile | CellSpeedtestFile | EntropyFile | SubnetworkRewardsFile
| CbrsHeartbeatIngestReportFile | CellSpeedtestIngestReportFile | EntropyReportFile | IotBeaconIngestReportFile
| IotWitnessIngestReportFile | IotPocFile | IotInvalidBeaconReportFile | IotInvalidWitnessReportFile
| SpeedtestAvgFile | ValidatedHeartbeatFile | SignedPocReceiptTxnFile | RadioRewardShareFile
| RewardManifestFile | IotPacketReportFile | IotValidPacketFile | InvalidPacketFile
| NonRewardablePacketFile | IotRewardShareFile | DataTransferSessionIngestReportFile | InvalidDataTransferSessionIngestReportFile
| ValidDataTransferSessionFile | PriceReportFile | MobileRewardShareFile | SubscriberLocationReqFile
| SubscriberLocationIngestReportFile | VerifiedSubscriberLocationIngestReportFile | MapperMsgFile | CoverageObjectFile
| CoverageObjectIngestReportFile | SeniorityUpdateFile | VerifiedSpeedtestFile | WifiHeartbeatFile
| WifiHeartbeatIngestReportFile

fun to_str :: "file_type \<Rightarrow> string" where
  "to_str CbrsHeartbeatFile = ''cbrs_heartbeat''"
| "to_str CellSpeedtestFile = ''cell_speedtest''"
| "to_str EntropyFile = ''entropy''"
| "to_str SubnetworkRewardsFile = ''subnetwork_rewards''"
| "to_str CbrsHeartbeatIngestReportFile = ''heartbeat_report''"
| "to_str CellSpeedtestIngestReportFile = ''speedtest_report''"
| "to_str EntropyReportFile = ''entropy_report''"
| "to_str IotBeaconIngestReportFile = ''iot_beacon_ingest_report''"
| "to_str IotWitnessIngestReportFile = ''iot_witness_ingest_report''"
| "to_str IotPocFile = ''iot_poc''"
| "to_str IotInvalidBeaconReportFile = ''iot_invalid_beacon''"
| "to_str IotInvalidWitnessReportFile = ''iot_invalid_witness''"
| "to_str SpeedtestAvgFile = ''speedtest_avg''"
| "to_str ValidatedHeartbeatFile = ''validated_heartbeat''"
| "to_str SignedPocReceiptTxnFile = ''signed_poc_receipt_txn''"
| "to_str RadioRewardShareFile = ''radio_reward_share''"
| "to_str RewardManifestFile = ''reward_manifest''"
| "to_str IotPacketReportFile = ''packetreport''"
| "to_str IotValidPacketFile = ''iot_valid_packet''"
| "to_str InvalidPacketFile = ''invalid_packet''"
| "to_str NonRewardablePacketFile = ''non_rewardable_packet''"
| "to_str IotRewardShareFile = ''iot_reward_share''"
| "to_str DataTransferSessionIngestReportFile = ''data_transfer_session_ingest_report''"
| "to_str InvalidDataTransferSessionIngestReportFile = ''invalid_data_transfer_session_ingest_report''"
| "to_str ValidDataTransferSessionFile = ''valid_data_transfer_session''"
| "to_str PriceReportFile = ''price_report''"
| "to_str MobileRewardShareFile = ''mobile_reward_share''"
| "to_str SubscriberLocationReqFile = ''subscriber_location_req''"
| "to_str SubscriberLocationIngestReportFile = ''subscriber_location_report''"
| "to_str VerifiedSubscriberLocationIngestReportFile = ''verified_subscriber_location_report''"
| "to_str MapperMsgFile = ''mapper_msg''"
| "to_str CoverageObjectFile = ''coverage_object''"
| "to_str CoverageObjectIngestReportFile = ''coverage_object_ingest_report''"
| "to_str SeniorityUpdateFile = ''seniority_update''"
| "to_str VerifiedSpeedtestFile = ''verified_speedtest''"
| "to_str WifiHeartbeatFile = ''wifi_heartbeat''"
| "to_str WifiHeartbeatIngestReportFile = ''wifi_heartbeat_report''"

definition file_type_from_str :: "string \<Rightarrow> file_type option" where
  "file_type_from_str s =
     (if s = ''subscriber_location_req'' then Some SubscriberLocationReqFile
      else if s = ''subscriber_location_report'' then Some SubscriberLocationIngestReportFile
      else if s = ''verified_subscriber_location_report'' then Some VerifiedSubscriberLocationIngestReportFile
      else if s = ''cbrs_heartbeat'' then Some CbrsHeartbeatFile
      else if s = ''wifi_heartbeat'' then Some WifiHeartbeatFile
      else if s = ''cell_speedtest'' then Some CellSpeedtestFile
      else if s = ''verified_speedtest'' then Some VerifiedSpeedtestFile
      else if s = ''heartbeat_report'' then Some CbrsHeartbeatIngestReportFile
      else if s = ''wifi_heartbeat_report'' then Some WifiHeartbeatIngestReportFile
      else if s = ''speedtest_report'' then Some CellSpeedtestIngestReportFile
      else if s = ''entropy'' then Some EntropyFile
      else if s = ''subnetwork_rewards'' then Some SubnetworkRewardsFile
      else if s = ''entropy_report'' then Some EntropyReportFile
      else if s = ''iot_beacon_ingest_report'' then Some IotBeaconIngestReportFile
      else if s = ''iot_witness_ingest_report'' then Some IotWitnessIngestReportFile
      else if s = ''iot_poc'' then Some IotPocFile
      else if s = ''iot_invalid_beacon'' then Some IotInvalidBeaconReportFile
      else if s = ''iot_invalid_witness'' then Some IotInvalidWitnessReportFile
      else if s = ''speedtest_avg'' then Some SpeedtestAvgFile
      else if s = ''validated_heartbeat'' then Some ValidatedHeartbeatFile
      else if s = ''signed_poc_receipt_txn'' then Some SignedPocReceiptTxnFile
      else if s = ''radio_reward_share'' then Some RadioRewardShareFile
      else if s = ''reward_manifest'' then Some RewardManifestFile
      else if s = ''packetreport'' then Some IotPacketReportFile
      else if s = ''iot_valid_packet'' then Some IotValidPacketFile
      else if s = ''invalid_packet'' then Some InvalidPacketFile
      else if s = ''non_rewardable_packet'' then Some NonRewardablePacketFile
      else if s = ''iot_reward_share'' then Some IotRewardShareFile
      else if s = ''data_transfer_session_ingest_report'' then Some DataTransferSessionIngestReportFile
      else if s = ''invalid_data_transfer_session_ingest_report'' then Some InvalidDataTransferSessionIngestReportFile
      else if s = ''valid_data_transfer_session'' then Some ValidDataTransferSessionFile
      else if s = ''price_report'' then Some PriceReportFile
      else if s = ''mobile_reward_share'' then Some MobileRewardShareFile
      else if s = ''mapper_msg'' then Some MapperMsgFile
      else if s = ''coverage_object'' then Some CoverageObjectFile
      else if s = ''coverage_object_ingest_report'' then Some CoverageObjectIngestReportFile
      else if s = ''seniority_update'' then Some SeniorityUpdateFile
      else None)"

section \<open>Names of files\<close>

fun digit_char :: "nat \<Rightarrow> char" where
  "digit_char d = char_of (48 + d)"

fun show_nat :: "nat \<Rightarrow> string" where
  "show_nat n = (if n < 10 then [digit_char n] else show_nat (n div 10) @ [digit_char (n mod 10)])"

declare show_nat.simps [simp del]

definition show_int :: "int \<Rightarrow> string" where
  "show_int i = (if i < 0 then CHR ''-'' # show_nat (nat (- i)) else show_nat (nat i))"

definition is_digit :: "char \<Rightarrow> bool" where
  "is_digit c \<longleftrightarrow> 48 \<le> (of_char c :: nat) \<and> (of_char c :: nat) \<le> 57"

definition digit_val :: "char \<Rightarrow> nat" where
  "digit_val c = of_char c - 48"

definition parse_nat :: "string \<Rightarrow> nat" where
  "parse_nat s = foldl (\<lambda>acc c. acc * 10 + digit_val c) 0 s"

text \<open>\<open>u64::from_str\<close> on a string of digits.\<close>

definition u64_from_digits :: "string \<Rightarrow> u64 option" where
  "u64_from_digits s = (if s = [] \<or> 2 ^ 64 \<le> parse_nat s then None else Some (of_nat (parse_nat s)))"

definition is_prefix_char :: "char \<Rightarrow> bool" where
  "is_prefix_char c \<longleftrightarrow> (97 \<le> (of_char c :: nat) \<and> (of_char c :: nat) \<le> 122) \<or> c = CHR '','' \<or> c = CHR ''_''"

text \<open>The expression \<open>([a-z,_]+).(\\d+)(.gz)?\<close> is searched for anywhere in the string: the
  leftmost start at which it matches, there the longest first group that lets the rest match,
  and then all digits. The first argument of \<open>match_group\<close> is the length of the group that is tried.\<close>

fun match_group :: "nat \<Rightarrow> string \<Rightarrow> (string \<times> string) option" where
  "match_group 0 s = None"
| "match_group (Suc k) s =
     (case drop (Suc k) s of
        c # d # rest \<Rightarrow>
          if c \<noteq> CHR 0x0A \<and> is_digit d then Some (take (Suc k) s, takeWhile is_digit (d # rest)) else match_group k s
      | _ \<Rightarrow> match_group k s)"

fun re_captures :: "string \<Rightarrow> (string \<times> string) option" where
  "re_captures [] = None"
| "re_captures (c # s) =
     (case match_group (length (takeWhile is_prefix_char (c # s))) (c # s) of
        Some m \<Rightarrow> Some m
      | None \<Rightarrow> re_captures s)"

record file_info =
  fi_key :: string
  fi_prefix :: string
  fi_timestamp :: timestamp
  fi_size :: nat

datatype file_error = FailedFileInfo | FailedTimestamp | BadTimestamp timestamp_error | S3Error

definition file_info_from_str :: "(timestamp \<Rightarrow> bool) \<Rightarrow> string \<Rightarrow> file_error + file_info" where
  "file_info_from_str representable s =
     (case re_captures s of
        None \<Rightarrow> Inl FailedFileInfo
      | Some (pre, digits) \<Rightarrow>
          (case u64_from_digits digits of
             None \<Rightarrow> Inl FailedTimestamp
           | Some ms \<Rightarrow>
               (case to_timestamp_millis representable ms of
                  Inl e \<Rightarrow> Inl (BadTimestamp e)
                | Inr t \<Rightarrow> Inr \<lparr>fi_key = s, fi_prefix = pre, fi_timestamp = t, fi_size = 0\<rparr>)))"

definition file_matches :: "string \<Rightarrow> bool" where
  "file_matches s \<longleftrightarrow> re_captures s \<noteq> None"

definition file_info_of :: "string \<Rightarrow> timestamp \<Rightarrow> file_info" where
  "file_info_of pre t =
     \<lparr>fi_key = pre @ ''.'' @ show_int (t div 1000000) @ ''.gz'', fi_prefix = pre, fi_timestamp = t, fi_size = 0\<rparr>"

definition file_info_of_type :: "file_type \<Rightarrow> timestamp \<Rightarrow> file_info" where
  "file_info_of_type ft t = file_info_of (to_str ft) t"

record s3_object =
  ob_key :: "string option"
  ob_size :: nat

definition file_info_of_object :: "(timestamp \<Rightarrow> bool) \<Rightarrow> s3_object \<Rightarrow> file_error + file_info" where
  "file_info_of_object representable ob =
     (case ob_key ob of
        None \<Rightarrow> Inl FailedFileInfo
      | Some key \<Rightarrow> map_sum (\<lambda>e. e) (\<lambda>i. i\<lparr>fi_size := ob_size ob\<rparr>) (file_info_from_str representable key))"

section \<open>Listing a bucket\<close>

text \<open>A page is a response of the service, an error or its objects with the token of the next page. The
  loop asks until a response has no token; an error has none. The recursion is partial because a
  service could hand out tokens for ever.\<close>

partial_function (option) list_pages ::
  "('t option \<Rightarrow> unit + s3_object list \<times> 't option) \<Rightarrow> 't option \<Rightarrow> (unit + s3_object list) list option" where
  "list_pages send next =
     (case send next of
        Inl e \<Rightarrow> Some [Inl e]
      | Inr (contents, token) \<Rightarrow>
          (case token of
             None \<Rightarrow> Some [Inr contents]
           | Some t \<Rightarrow> Option.bind (list_pages send (Some t)) (\<lambda>pages. Some (Inr contents # pages))))"

definition in_window :: "timestamp option \<Rightarrow> timestamp option \<Rightarrow> file_info \<Rightarrow> bool" where
  "in_window after before info \<longleftrightarrow>
     (case after of None \<Rightarrow> True | Some a \<Rightarrow> fi_timestamp info > a) \<and> (case before of None \<Rightarrow> True | Some b \<Rightarrow> fi_timestamp info \<le> b)"

text \<open>The objects of a page whose key matches are decoded; a key that matches and cannot be decoded is a
  panic, \<open>None\<close>.\<close>

fun page_infos :: "(timestamp \<Rightarrow> bool) \<Rightarrow> timestamp option \<Rightarrow> timestamp option \<Rightarrow> s3_object list \<Rightarrow> file_info list option" where
  "page_infos representable after before [] = Some []"
| "page_infos representable after before (ob # obs) =
     (if file_matches (case ob_key ob of Some k \<Rightarrow> k | None \<Rightarrow> [])
      then case file_info_of_object representable ob of
             Inl e \<Rightarrow> None
           | Inr info \<Rightarrow> map_option (\<lambda>is. if in_window after before info then info # is else is) (page_infos representable after before obs)
      else page_infos representable after before obs)"

fun collect_pages :: "(timestamp \<Rightarrow> bool) \<Rightarrow> timestamp option \<Rightarrow> timestamp option \<Rightarrow> (unit + s3_object list) list \<Rightarrow> (file_error + file_info list) option" where
  "collect_pages representable after before [] = Some (Inr [])"
| "collect_pages representable after before (Inl e # pages) = Some (Inl S3Error)"
| "collect_pages representable after before (Inr obs # pages) =
     (case page_infos representable after before obs of
        None \<Rightarrow> None
      | Some infos \<Rightarrow> map_option (map_sum (\<lambda>e. e) ((@) infos)) (collect_pages representable after before pages))"

text \<open>The request of a listing: the pre and the name after which to start.\<close>

definition start_after :: "string \<Rightarrow> timestamp option \<Rightarrow> string option" where
  "start_after pre after = map_option (\<lambda>t. fi_key (file_info_of pre t)) after"

text \<open>\<open>None\<close> is a listing that does not end, \<open>Some None\<close> a panic.\<close>

definition list_all_files ::
  "(timestamp \<Rightarrow> bool) \<Rightarrow> (string \<Rightarrow> string option \<Rightarrow> 't option \<Rightarrow> unit + s3_object list \<times> 't option) \<Rightarrow> string \<Rightarrow>
   timestamp option \<Rightarrow> timestamp option \<Rightarrow> (file_error + file_info list) option option" where
  "list_all_files representable request pre after before =
     map_option (collect_pages representable after before) (list_pages (request pre (start_after pre after)) None)"

section \<open>Names can be read back\<close>

lemma file_type_roundtrip [simp]: "file_type_from_str (to_str ft) = Some ft"
  by (cases ft) (simp_all add: file_type_from_str_def)

lemma of_char_digit: "d < 10 \<Longrightarrow> of_char (digit_char d) = 48 + d"
  by (simp add: take_bit_eq_mod)

lemma digit_char_facts: "d < 10 \<Longrightarrow> is_digit (digit_char d) \<and> digit_val (digit_char d) = d"
  unfolding is_digit_def digit_val_def by (simp only: of_char_digit) simp

lemma parse_nat_snoc: "parse_nat (s @ [c]) = parse_nat s * 10 + digit_val c"
  by (simp add: parse_nat_def)

lemma show_nat_facts: "list_all is_digit (show_nat n) \<and> show_nat n \<noteq> [] \<and> parse_nat (show_nat n) = n"
proof (induction n rule: show_nat.induct)
  case (1 n)
  have d: "is_digit (digit_char (n mod 10))" "digit_val (digit_char (n mod 10)) = n mod 10" using digit_char_facts [of "n mod 10"] by simp_all
  show ?case
  proof (cases "n < 10")
    case True
    then show ?thesis using d by (simp add: show_nat.simps [of n] parse_nat_def del: digit_char.simps)
  next
    case False
    then show ?thesis using 1 d by (simp add: show_nat.simps [of n] parse_nat_snoc del: digit_char.simps)
  qed
qed

lemma not_digit_consts: "\<not> is_digit CHR ''.''" "\<not> is_digit CHR ''-''" "\<not> is_prefix_char CHR ''.''"
  by (simp_all add: is_digit_def is_prefix_char_def)

lemma re_captures_name:
  assumes "list_all is_prefix_char pre" "pre \<noteq> []" "list_all is_digit ds" "ds \<noteq> []"
  shows "re_captures (pre @ CHR ''.'' # ds @ CHR ''.'' # rest) = Some (pre, ds)"
proof -
  let ?s = "pre @ CHR ''.'' # ds @ CHR ''.'' # rest"
  obtain c p where p: "pre = c # p" using assms(2) by (cases pre) auto
  obtain d e where d: "ds = d # e" using assms(4) by (cases ds) auto
  have "takeWhile is_prefix_char ?s = pre" using assms(1) not_digit_consts(3) by (simp add: takeWhile_append2 list_all_iff)
  moreover have "takeWhile is_digit (ds @ CHR ''.'' # rest) = ds" using assms(3) not_digit_consts(1) by (simp add: takeWhile_append2 list_all_iff)
  moreover have "match_group (length pre) ?s = Some (pre, takeWhile is_digit (ds @ CHR ''.'' # rest))"
    using assms(3) by (simp add: p d)
  ultimately have "match_group (length (takeWhile is_prefix_char ?s)) ?s = Some (pre, ds)" by simp
  then show ?thesis unfolding p append_Cons re_captures.simps by simp
qed

lemma to_str_prefix: "list_all is_prefix_char (to_str ft) \<and> to_str ft \<noteq> []"
  by (cases ft) (simp_all add: is_prefix_char_def)

text \<open>C37: the name of a file of a type and a time at or after the epoch is recognised, and reading it gives the
  type and the time to the millisecond.\<close>

theorem file_name_roundtrip:
  assumes "0 \<le> t" "t div 1000000 < 2 ^ 63" "representable (t - t mod 1000000)"
  shows "\<exists>info. file_info_from_str representable (fi_key (file_info_of_type ft t)) = Inr info \<and>
    file_matches (fi_key info) \<and> file_type_from_str (fi_prefix info) = Some ft \<and> fi_timestamp info = t - t mod 1000000"
proof -
  let ?ms = "t div 1000000" and ?ds = "show_nat (nat (t div 1000000))"
  have ms: "0 \<le> ?ms" using assms(1) by simp
  then have key: "fi_key (file_info_of_type ft t) = to_str ft @ CHR ''.'' # ?ds @ CHR ''.'' # ''gz''"
    by (simp add: file_info_of_type_def file_info_of_def show_int_def)
  have cap: "re_captures (to_str ft @ CHR ''.'' # ?ds @ CHR ''.'' # ''gz'') = Some (to_str ft, ?ds)"
    using re_captures_name to_str_prefix show_nat_facts by simp
  have small: "nat ?ms < 2 ^ 63" using assms(2) ms by simp
  then have "u64_from_digits ?ds = Some (of_nat (nat ?ms))" using show_nat_facts [of "nat ?ms"] by (simp add: u64_from_digits_def)
  moreover have "unat (of_nat (nat ?ms) :: u64) = nat ?ms" using small by (simp add: unat_of_nat)
  moreover have "milliseconds ?ms = t - t mod 1000000" by (simp add: minus_mod_eq_mult_div)
  ultimately have "file_info_from_str representable (fi_key (file_info_of_type ft t)) =
    Inr \<lparr>fi_key = fi_key (file_info_of_type ft t), fi_prefix = to_str ft, fi_timestamp = t - t mod 1000000, fi_size = 0\<rparr>"
    using small ms assms(3) by (simp add: file_info_from_str_def key cap to_timestamp_millis_def)
  then show ?thesis by (simp add: file_matches_def key cap)
qed

lemma file_name_roundtrip_witness:
  "\<exists>info. file_info_from_str (\<lambda>_. True) ''iot_poc.1700000000123.gz'' = Inr info \<and> file_type_from_str (fi_prefix info) = Some IotPocFile \<and>
    fi_timestamp info = 1700000000123000000"
proof -
  have "fi_key (file_info_of_type IotPocFile 1700000000123456789) = ''iot_poc.1700000000123.gz''"
    by (simp add: file_info_of_type_def file_info_of_def show_int_def show_nat.simps char_of_def bit_0)
  then show ?thesis using file_name_roundtrip [of 1700000000123456789 "\<lambda>_. True" IotPocFile] by auto
qed

section \<open>Listings end\<close>

text \<open>The responses to a request list some objects page by page.\<close>

inductive pages_of :: "('t option \<Rightarrow> unit + s3_object list \<times> 't option) \<Rightarrow> 't option \<Rightarrow> s3_object list \<Rightarrow> bool" where
  last_page: "send next = Inr (obs, None) \<Longrightarrow> pages_of send next obs"
| more_pages: "send next = Inr (obs, Some t) \<Longrightarrow> pages_of send (Some t) rest \<Longrightarrow> pages_of send next (obs @ rest)"

lemma list_pages_of:
  "pages_of send next objs \<Longrightarrow> \<exists>pages. list_pages send next = Some (map Inr pages) \<and> concat pages = objs"
proof (induction rule: pages_of.induct)
  case (last_page send "next" obs)
  then show ?case by (intro exI [of _ "[obs]"]) (simp add: list_pages.simps)
next
  case (more_pages send "next" obs t rest)
  then obtain pages where "list_pages send (Some t) = Some (map Inr pages)" "concat pages = rest" by blast
  then show ?case using more_pages(1) by (intro exI [of _ "obs # pages"]) (simp add: list_pages.simps [of send "next"])
qed

text \<open>A listing ends, after at most as many requests as the service has tokens left, when every token that the
  service hands out is smaller than the one it was asked with in some measure.\<close>

theorem listing_ends:
  assumes "\<forall>next obs t. send next = Inr (obs, Some t) \<longrightarrow> rank t < (case next of None \<Rightarrow> bound | Some n \<Rightarrow> rank n)"
  shows "\<exists>pages. list_pages send None = Some pages \<and> length pages \<le> Suc bound"
proof -
  have step: "\<exists>pages. list_pages send next = Some pages \<and> length pages \<le> Suc n"
    if "(case next of None \<Rightarrow> bound | Some t \<Rightarrow> rank t) \<le> n" for "next" n
    using that
  proof (induction n arbitrary: "next" rule: less_induct)
    case (less n)
    show ?case
    proof (cases "\<exists>obs t. send next = Inr (obs, Some t)")
      case True
      then obtain obs t where s: "send next = Inr (obs, Some t)" by blast
      then have "rank t < n" using assms less.prems by fastforce
      from less.IH [OF this, of "Some t"] obtain pages where "list_pages send (Some t) = Some pages" "length pages \<le> Suc (rank t)" by auto
      then show ?thesis using s \<open>rank t < n\<close> by (simp add: list_pages.simps [of send "next"])
    next
      case False
      then show ?thesis by (cases "send next") (auto simp: list_pages.simps [of send "next"] split: option.splits)
    qed
  qed
  from step [of None bound] show ?thesis by simp
qed

lemma listing_ends_witness:
  "\<exists>pages. list_pages (\<lambda>next. case next of None \<Rightarrow> Inr ([], Some 3) | Some 0 \<Rightarrow> Inr ([], None) | Some (Suc n) \<Rightarrow> Inr ([], Some n)) None = Some pages \<and>
    length pages \<le> 5"
proof -
  have "\<forall>next obs t. (case next of None \<Rightarrow> Inr ([], Some (3 :: nat)) | Some 0 \<Rightarrow> Inr ([], None) | Some (Suc n) \<Rightarrow> Inr ([], Some n)) =
      (Inr (obs, Some t) :: unit + s3_object list \<times> nat option) \<longrightarrow> t < (case next of None \<Rightarrow> 4 | Some n \<Rightarrow> n)"
    by (auto split: option.splits nat.splits)
  from listing_ends [OF this] show ?thesis by simp
qed

section \<open>Listings are complete\<close>

lemma parse_nat_Cons: "parse_nat (c # s) = digit_val c * 10 ^ length s + parse_nat s"
proof -
  have "foldl (\<lambda>acc c. acc * 10 + digit_val c) a s = a * 10 ^ length s + parse_nat s" for a
    unfolding parse_nat_def
  proof (induction s arbitrary: a)
    case (Cons d s)
    have "foldl (\<lambda>acc c. acc * 10 + digit_val c) a (d # s) = (a * 10 + digit_val d) * 10 ^ length s + parse_nat s"
      using Cons [of "a * 10 + digit_val d"] by (simp add: parse_nat_def)
    moreover have "foldl (\<lambda>acc c. acc * 10 + digit_val c) 0 (d # s) = digit_val d * 10 ^ length s + parse_nat s"
      using Cons [of "digit_val d"] by (simp add: parse_nat_def)
    ultimately show ?case by (simp add: algebra_simps)
  qed simp
  from this [of "digit_val c"] show ?thesis by (simp add: parse_nat_def)
qed

lemma parse_nat_bound: "list_all is_digit s \<Longrightarrow> parse_nat s < 10 ^ length s"
proof (induction s)
  case (Cons c s)
  then have "digit_val c \<le> 9" "parse_nat s < 10 ^ length s" by (auto simp: is_digit_def digit_val_def)
  then have "digit_val c * 10 ^ length s + parse_nat s < 9 * 10 ^ length s + 10 ^ length s"
    by (intro add_le_less_mono mult_right_mono) simp_all
  then show ?case by (simp add: parse_nat_Cons)
qed (simp add: parse_nat_def)

lemma digits_less:
  assumes "length xs = length ys" "list_all is_digit xs" "list_all is_digit ys" "parse_nat xs < parse_nat ys"
  shows "xs @ zs < ys @ zs"
  using assms
proof (induction xs ys rule: list_induct2)
  case (Cons c xs d ys)
  note b = parse_nat_bound [of xs] parse_nat_bound [of ys]
  have v: "(of_char c :: nat) = 48 + digit_val c" "(of_char d :: nat) = 48 + digit_val d"
    using Cons.prems by (simp_all add: is_digit_def digit_val_def)
  have less: "digit_val c * 10 ^ length xs + parse_nat xs < digit_val d * 10 ^ length xs + parse_nat ys"
    using Cons.prems(3) Cons.hyps by (simp add: parse_nat_Cons)
  have "\<not> digit_val d < digit_val c"
  proof
    assume "digit_val d < digit_val c"
    then have "digit_val d * 10 ^ length xs + 10 ^ length xs \<le> digit_val c * 10 ^ length xs"
      by (metis Suc_leI add.commute mult_Suc mult_le_mono1)
    then show False using less b Cons.prems Cons.hyps by simp
  qed
  then consider "digit_val c < digit_val d" | "digit_val c = digit_val d" by linarith
  then show ?case
  proof cases
    case 1
    then have "c < d" unfolding less_char_def v by simp
    then show ?thesis by simp
  next
    case 2
    then have "c = d" using v by (metis of_char_eq_iff)
    then show ?thesis using Cons.IH less Cons.prems 2 by simp
  qed
qed (simp add: parse_nat_def)

lemma append_less_append: "(pre @ x < pre @ (y :: string)) = (x < y)"
  by (induction pre) auto

text \<open>The milliseconds of a time between the years 2001 and 2286 have thirteen digits.\<close>

definition thirteen_digits :: "timestamp \<Rightarrow> bool" where
  "thirteen_digits t \<longleftrightarrow> 10 ^ 12 \<le> t div 1000000 \<and> t div 1000000 < 10 ^ 13"

lemma length_show_nat: "0 < k \<Longrightarrow> 10 ^ (k - 1) \<le> n \<Longrightarrow> n < 10 ^ k \<Longrightarrow> length (show_nat n) = k"
proof (induction k arbitrary: n)
  case (Suc k)
  show ?case
  proof (cases "k = 0")
    case True
    then show ?thesis using Suc.prems by (simp add: show_nat.simps)
  next
    case False
    then obtain j where k: "k = Suc j" by (cases k) auto
    have "10 ^ j \<le> n div 10" "n div 10 < 10 ^ k" using Suc.prems k by (simp_all add: less_mult_imp_div_less mult.commute div_le_mono [of "10 * 10 ^ j" n 10])
    moreover have "\<not> n < 10" using Suc.prems(2) k by (metis One_nat_def add_diff_cancel_left' le_trans not_le one_le_numeral plus_1_eq_Suc power_Suc power_increasing_iff mult.right_neutral power_one_right self_le_power zero_less_Suc)
    ultimately show ?thesis using Suc.IH [of "n div 10"] k by (simp add: show_nat.simps [of n])
  qed
qed simp

lemma key_order:
  assumes "thirteen_digits a" "thirteen_digits t" "a div 1000000 < t div 1000000"
  shows "fi_key (file_info_of pre a) < fi_key (file_info_of pre t)"
proof -
  let ?n = "\<lambda>t. nat (t div 1000000)"
  have len: "length (show_nat (?n t)) = 13" if "thirteen_digits t" for t
    using that by (intro length_show_nat) (auto simp: thirteen_digits_def nat_le_eq_zle nat_less_iff le_nat_iff)
  have "parse_nat (show_nat (?n a)) < parse_nat (show_nat (?n t))" using assms by (simp add: show_nat_facts thirteen_digits_def)
  then have "show_nat (?n a) @ ''.gz'' < show_nat (?n t) @ ''.gz''"
    using digits_less len assms show_nat_facts by simp
  moreover have "show_int (t div 1000000) = show_nat (?n t)" if "thirteen_digits t" for t
    using that by (simp add: show_int_def thirteen_digits_def)
  ultimately show ?thesis using assms(1,2) by (simp add: file_info_of_def append_less_append)
qed

lemma object_matches:
  assumes "file_info_of_object rep ob = Inr info"
  shows "file_matches (case ob_key ob of Some k \<Rightarrow> k | None \<Rightarrow> [])"
  using assms by (auto simp: file_info_of_object_def file_info_from_str_def file_matches_def split: option.splits)

lemma page_infos_ok:
  assumes "list_all (\<lambda>ob. \<exists>info. file_info_of_object rep ob = Inr info) obs"
  shows "page_infos rep after before obs = Some (filter (in_window after before) (map (\<lambda>ob. projr (file_info_of_object rep ob)) obs))"
  using assms
proof (induction obs)
  case (Cons ob obs)
  then obtain info where i: "file_info_of_object rep ob = Inr info" by auto
  then show ?case using Cons object_matches [OF i] by simp
qed simp

lemma collect_pages_ok:
  assumes "list_all (\<lambda>ob. \<exists>info. file_info_of_object rep ob = Inr info) (concat pages)"
  shows "collect_pages rep after before (map Inr pages) =
    Some (Inr (filter (in_window after before) (map (\<lambda>ob. projr (file_info_of_object rep ob)) (concat pages))))"
  using assms by (induction pages) (simp_all add: page_infos_ok)

lemma object_time:
  assumes "ob_key ob = Some (fi_key (file_info_of_type ft t))" "file_info_of_object rep ob = Inr info" "thirteen_digits t"
  shows "fi_timestamp info = t - t mod 1000000"
proof -
  have t: "0 \<le> t" "t div 1000000 < 2 ^ 63" using assms(3) by (auto simp: thirteen_digits_def)
  have key: "fi_key (file_info_of_type ft t) = to_str ft @ CHR ''.'' # show_nat (nat (t div 1000000)) @ CHR ''.'' # ''gz''"
    using t by (simp add: file_info_of_type_def file_info_of_def show_int_def pos_imp_zdiv_nonneg_iff)
  have cap: "re_captures (fi_key (file_info_of_type ft t)) = Some (to_str ft, show_nat (nat (t div 1000000)))"
    unfolding key using re_captures_name to_str_prefix show_nat_facts by simp
  define n where "n = nat (t div 1000000)"
  have n: "n < 2 ^ 63" "int n = t div 1000000" using t by (simp_all add: n_def pos_imp_zdiv_nonneg_iff)
  have u: "u64_from_digits (show_nat n) = Some (of_nat n)" using n show_nat_facts [of n] by (simp add: u64_from_digits_def)
  have "unat (of_nat n :: u64) = n" using n by (simp add: unat_of_nat)
  then have "to_timestamp_millis rep (of_nat n) = Inr t' \<Longrightarrow> t' = milliseconds (int n)" for t'
    by (auto simp: to_timestamp_millis_def Let_def simp del: of_nat_unat split: if_splits)
  then show ?thesis using assms(1,2) cap u unfolding n_def [symmetric]
    by (auto simp: file_info_of_object_def file_info_from_str_def n minus_mod_eq_mult_div split: sum.splits)
qed

text \<open>What the storage service documents of a request: the objects of the bucket whose key has the prefix and comes
  after the given one, in pages.\<close>

definition s3_lists :: "(string \<Rightarrow> string option \<Rightarrow> 't option \<Rightarrow> unit + s3_object list \<times> 't option) \<Rightarrow> s3_object list \<Rightarrow> bool" where
  "s3_lists request bucket \<longleftrightarrow> (\<forall>pre start. \<exists>objs. pages_of (request pre start) None objs \<and>
     set objs = {ob \<in> set bucket. \<exists>k. ob_key ob = Some k \<and> prefix pre k \<and> (case start of None \<Rightarrow> True | Some s \<Rightarrow> s < k)})"

text \<open>C25: when every object of the bucket can be decoded, listing a type returns files of the window only, and every file of the type
  whose time, cut to the millisecond, lies in the window is returned, for times of thirteen-digit milliseconds.\<close>

theorem listing_exact:
  assumes "s3_lists request bucket" "list_all (\<lambda>ob. \<exists>info. file_info_of_object rep ob = Inr info) bucket" "thirteen_digits after"
  shows "\<exists>infos. list_all_files rep request (to_str ft) (Some after) (Some before) = Some (Some (Inr infos)) \<and>
    (\<forall>info \<in> set infos. after < fi_timestamp info \<and> fi_timestamp info \<le> before) \<and>
    (\<forall>ob \<in> set bucket. \<forall>t info. ob_key ob = Some (fi_key (file_info_of_type ft t)) \<longrightarrow> thirteen_digits t \<longrightarrow>
       file_info_of_object rep ob = Inr info \<longrightarrow> after < fi_timestamp info \<longrightarrow> fi_timestamp info \<le> before \<longrightarrow> info \<in> set infos)"
proof -
  let ?pre = "to_str ft" and ?start = "start_after (to_str ft) (Some after)"
  obtain objs where objs: "pages_of (request ?pre ?start) None objs"
    "set objs = {ob \<in> set bucket. \<exists>k. ob_key ob = Some k \<and> prefix ?pre k \<and> (case ?start of None \<Rightarrow> True | Some s \<Rightarrow> s < k)}"
    using assms(1) unfolding s3_lists_def by blast
  obtain pages where pages: "list_pages (request ?pre ?start) None = Some (map Inr pages)" "concat pages = objs"
    using list_pages_of [OF objs(1)] by blast
  let ?infos = "filter (in_window (Some after) (Some before)) (map (\<lambda>ob. projr (file_info_of_object rep ob)) objs)"
  have "list_all (\<lambda>ob. \<exists>info. file_info_of_object rep ob = Inr info) (concat pages)"
    using assms(2) objs(2) unfolding pages(2) list_all_iff by blast
  then have run: "list_all_files rep request ?pre (Some after) (Some before) = Some (Some (Inr ?infos))"
    using collect_pages_ok by (simp add: list_all_files_def pages)
  have "info \<in> set ?infos" if "ob \<in> set bucket" "ob_key ob = Some (fi_key (file_info_of_type ft t))" "thirteen_digits t"
    "file_info_of_object rep ob = Inr info" "after < fi_timestamp info" "fi_timestamp info \<le> before" for ob t info
  proof -
    have "fi_timestamp info = t - t mod 1000000" using object_time [OF that(2,4,3)] .
    then have "after div 1000000 < t div 1000000" using that(5) by (simp add: minus_mod_eq_mult_div)
    then have "fi_key (file_info_of ?pre after) < fi_key (file_info_of ?pre t)" using key_order [OF assms(3) that(3)] by blast
    moreover have "prefix ?pre (fi_key (file_info_of ?pre t))" by (simp add: file_info_of_def)
    ultimately have "ob \<in> set objs" using that(1,2) unfolding objs(2) by (simp add: start_after_def file_info_of_type_def)
    then show ?thesis using that(4-6) by (force simp: in_window_def image_iff)
  qed
  then show ?thesis using run by (intro exI [of _ ?infos]) (auto simp: in_window_def)
qed

definition sample_object :: s3_object where
  "sample_object = \<lparr>ob_key = Some (fi_key (file_info_of_type IotPocFile 1700000000123000000)), ob_size = 1\<rparr>"

definition sample_request :: "string \<Rightarrow> string option \<Rightarrow> unit option \<Rightarrow> unit + s3_object list \<times> unit option" where
  "sample_request pre start next =
     Inr (filter (\<lambda>ob. \<exists>k. ob_key ob = Some k \<and> prefix pre k \<and> (case start of None \<Rightarrow> True | Some s \<Rightarrow> s < k)) [sample_object], None)"

lemma sample_request_lists: "s3_lists sample_request [sample_object]"
  unfolding s3_lists_def
proof (intro allI exI conjI)
  fix pre :: string and start
  show "pages_of (sample_request pre start) None
      (filter (\<lambda>ob. \<exists>k. ob_key ob = Some k \<and> prefix pre k \<and> (case start of None \<Rightarrow> True | Some s \<Rightarrow> s < k)) [sample_object])"
    by (rule pages_of.last_page) (simp add: sample_request_def)
qed auto

lemma sample_object_info:
  "file_info_of_object (\<lambda>_. True) sample_object =
     Inr \<lparr>fi_key = fi_key (file_info_of_type IotPocFile 1700000000123000000), fi_prefix = ''iot_poc'', fi_timestamp = 1700000000123000000, fi_size = 1\<rparr>"
proof -
  let ?ds = "show_nat 1700000000123"
  have key: "fi_key (file_info_of_type IotPocFile 1700000000123000000) = to_str IotPocFile @ CHR ''.'' # ?ds @ CHR ''.'' # ''gz''"
    by (simp add: file_info_of_type_def file_info_of_def show_int_def)
  have cap: "re_captures (fi_key (file_info_of_type IotPocFile 1700000000123000000)) = Some (to_str IotPocFile, ?ds)"
    unfolding key using to_str_prefix [of IotPocFile] show_nat_facts [of 1700000000123] by (intro re_captures_name) simp_all
  have "u64_from_digits ?ds = Some 1700000000123" using show_nat_facts [of 1700000000123] by (simp add: u64_from_digits_def)
  then show ?thesis by (simp add: sample_object_def file_info_of_object_def file_info_from_str_def cap to_timestamp_millis_def)
qed

lemma listing_exact_witness:
  "\<exists>infos. list_all_files (\<lambda>_. True) sample_request (to_str IotPocFile) (Some 1700000000000000000) (Some 1700000001000000000) = Some (Some (Inr infos)) \<and>
    \<lparr>fi_key = fi_key (file_info_of_type IotPocFile 1700000000123000000), fi_prefix = ''iot_poc'', fi_timestamp = 1700000000123000000, fi_size = 1\<rparr> \<in> set infos"
proof -
  have d: "list_all (\<lambda>ob. \<exists>info. file_info_of_object (\<lambda>_. True) ob = Inr info) [sample_object]" using sample_object_info by simp
  have t: "thirteen_digits 1700000000000000000" "thirteen_digits 1700000000123000000" by (simp_all add: thirteen_digits_def)
  have key: "ob_key sample_object = Some (fi_key (file_info_of_type IotPocFile 1700000000123000000))" by (simp add: sample_object_def)
  from listing_exact [OF sample_request_lists d t(1), of IotPocFile 1700000001000000000]
  obtain infos where run: "list_all_files (\<lambda>_. True) sample_request (to_str IotPocFile) (Some 1700000000000000000) (Some 1700000001000000000) = Some (Some (Inr infos))"
    and all: "\<forall>ob \<in> set [sample_object]. \<forall>t info. ob_key ob = Some (fi_key (file_info_of_type IotPocFile t)) \<longrightarrow> thirteen_digits t \<longrightarrow>
       file_info_of_object (\<lambda>_. True) ob = Inr info \<longrightarrow> 1700000000000000000 < fi_timestamp info \<longrightarrow> fi_timestamp info \<le> 1700000001000000000 \<longrightarrow> info \<in> set infos"
    by blast
  have "\<lparr>fi_key = fi_key (file_info_of_type IotPocFile 1700000000123000000), fi_prefix = ''iot_poc'', fi_timestamp = 1700000000123000000, fi_size = 1\<rparr> \<in> set infos"
    by (rule all [rule_format, OF _ key t(2) sample_object_info]) simp_all
  then show ?thesis using run by blast
qed

text \<open>A key that matches the expression with a number that does not fit makes every listing that meets it panic, also when
  it lies outside of the window.\<close>

lemma listing_panics:
  assumes "ob_key ob = Some (pre @ CHR ''.'' # ds @ CHR ''.'' # rest)" "list_all is_prefix_char pre" "pre \<noteq> []"
    "list_all is_digit ds" "ds \<noteq> []" "2 ^ 64 \<le> parse_nat ds"
  shows "page_infos rep after before (ob # obs) = None"
  using assms re_captures_name [OF assms(2-5)]
  by (simp add: file_matches_def file_info_of_object_def file_info_from_str_def u64_from_digits_def)

end
