(* ===== verification/Decimals.thy ===== *)
theory Decimals
  imports Complex_Main
begin

text \<open>
  Decimal numbers of the crate \<open>rust_decimal\<close>: integers of 96 bits scaled by at most 28
  decimal places. Their arithmetic rounds a result that has no such form, so the operations
  are a record of functions on rational numbers, and \<open>decimal_laws\<close> is what the
  documentation promises of them: a result in range never crosses a representable number.
  Rounding to a number of places is exact and defined here.
\<close>

definition representable :: "rat \<Rightarrow> bool" where
  "representable q \<longleftrightarrow> (\<exists>m s. \<bar>m\<bar> < 2 ^ 96 \<and> s \<le> 28 \<and> q = of_int m / 10 ^ s)"

definition rounds_to :: "rat \<Rightarrow> rat \<Rightarrow> bool" where
  "rounds_to x r \<longleftrightarrow> (\<forall>q. representable q \<longrightarrow> (q \<le> x \<longrightarrow> q \<le> r) \<and> (x \<le> q \<longrightarrow> r \<le> q))"

record decimal_ops =
  d_add :: "rat \<Rightarrow> rat \<Rightarrow> rat"
  d_sub :: "rat \<Rightarrow> rat \<Rightarrow> rat"
  d_mul :: "rat \<Rightarrow> rat \<Rightarrow> rat"
  d_div :: "rat \<Rightarrow> rat \<Rightarrow> rat"
  d_powu :: "rat \<Rightarrow> nat \<Rightarrow> rat option"

abbreviation in_range :: "rat \<Rightarrow> bool" where
  "in_range x \<equiv> \<bar>x\<bar> < 2 ^ 96"

definition decimal_laws :: "decimal_ops \<Rightarrow> bool" where
  "decimal_laws D \<longleftrightarrow> (\<forall>x y.
     (in_range (x + y) \<longrightarrow> rounds_to (x + y) (d_add D x y)) \<and>
     (in_range (x - y) \<longrightarrow> rounds_to (x - y) (d_sub D x y)) \<and>
     (in_range (x * y) \<longrightarrow> rounds_to (x * y) (d_mul D x y)) \<and>
     (y \<noteq> 0 \<longrightarrow> in_range (x / y) \<longrightarrow> rounds_to (x / y) (d_div D x y))) \<and>
   (\<forall>x n r. d_powu D x n = Some r \<longrightarrow> in_range (x ^ n) \<longrightarrow> rounds_to (x ^ n) r)"

definition exact_decimal :: decimal_ops where
  "exact_decimal = \<lparr>d_add = (+), d_sub = (-), d_mul = (*), d_div = (/), d_powu = (\<lambda>x n. Some (x ^ n))\<rparr>"

lemma exact_decimal_laws: "decimal_laws exact_decimal"
  by (simp add: decimal_laws_def exact_decimal_def rounds_to_def)

lemma representable_int: "\<bar>m\<bar> < 2 ^ 96 \<Longrightarrow> representable (of_int m)"
  unfolding representable_def by (rule exI [of _ m], rule exI [of _ 0]) simp

lemma representable_consts [simp]: "representable 0" "representable 1" "representable 2"
  using representable_int [of 0] representable_int [of 1] representable_int [of 2] by simp_all

lemma representable_frac: "\<bar>m\<bar> < 2 ^ 96 \<Longrightarrow> s \<le> 28 \<Longrightarrow> representable (of_int m / 10 ^ s)"
  unfolding representable_def by blast

lemma rounds_to_between:
  "rounds_to x r \<Longrightarrow> representable lo \<Longrightarrow> representable hi \<Longrightarrow> lo \<le> x \<Longrightarrow> x \<le> hi \<Longrightarrow> lo \<le> r \<and> r \<le> hi"
  unfolding rounds_to_def by blast

lemma rounds_to_exact: "rounds_to x r \<Longrightarrow> representable x \<Longrightarrow> r = x"
  unfolding rounds_to_def by (meson order_antisym order_refl)

section \<open>Rounding to decimal places\<close>

definition round_even :: "rat \<Rightarrow> int" where
  "round_even y =
     (let f = \<lfloor>y\<rfloor>; r = y - of_int f in
      if r < 1 / 2 then f else if r > 1 / 2 then f + 1 else if even f then f else f + 1)"

definition round_dp :: "nat \<Rightarrow> rat \<Rightarrow> rat" where
  "round_dp dp x = of_int (round_even (x * 10 ^ dp)) / 10 ^ dp"

definition round_dp_up :: "nat \<Rightarrow> rat \<Rightarrow> rat" where
  "round_dp_up dp x = of_int \<lceil>x * 10 ^ dp\<rceil> / 10 ^ dp"

definition round_dp_down :: "nat \<Rightarrow> rat \<Rightarrow> rat" where
  "round_dp_down dp x = of_int \<lfloor>x * 10 ^ dp\<rfloor> / 10 ^ dp"

definition trunc_int :: "rat \<Rightarrow> int" where
  "trunc_int x = (if x \<ge> 0 then \<lfloor>x\<rfloor> else \<lceil>x\<rceil>)"

text \<open>\<open>to_u64().unwrap_or(0)\<close> of a number without fraction.\<close>

definition to_u64_or_0 :: "int \<Rightarrow> nat" where
  "to_u64_or_0 n = (if 0 \<le> n \<and> n < 2 ^ 64 then nat n else 0)"

lemma round_even_bounds: "of_int (round_even y) \<le> y + 1 / 2" "y - 1 / 2 \<le> of_int (round_even y)"
  unfolding round_even_def Let_def by (auto, linarith+)

lemma round_even_int_bounds:
  assumes "of_int a \<le> y" "y \<le> of_int b"
  shows "a \<le> round_even y \<and> round_even y \<le> b"
proof -
  have "of_int a \<le> of_int (round_even y) + (1 / 2 :: rat)" "of_int (round_even y) \<le> of_int b + (1 / 2 :: rat)"
    using round_even_bounds [of y] assms by linarith+
  then show ?thesis by linarith
qed

lemma round_dp_bounds:
  assumes "of_int a \<le> x" "x \<le> of_int b"
  shows "of_int a \<le> round_dp dp x \<and> round_dp dp x \<le> of_int b"
proof -
  have "of_int (a * 10 ^ dp) \<le> x * 10 ^ dp" "x * 10 ^ dp \<le> of_int (b * 10 ^ dp)"
    using assms by (simp_all add: mult_right_mono)
  then have "a * 10 ^ dp \<le> round_even (x * 10 ^ dp)" "round_even (x * 10 ^ dp) \<le> b * 10 ^ dp"
    using round_even_int_bounds by blast+
  then have "of_int (a * 10 ^ dp) \<le> (of_int (round_even (x * 10 ^ dp)) :: rat)"
    "(of_int (round_even (x * 10 ^ dp)) :: rat) \<le> of_int (b * 10 ^ dp)"
    by (simp_all only: of_int_le_iff)
  then show ?thesis by (simp add: round_dp_def field_simps)
qed

lemma round_dp_error: "\<bar>round_dp dp x - x\<bar> \<le> 1 / (2 * 10 ^ dp)"
proof -
  let ?a = "of_int (round_even (x * 10 ^ dp)) - x * 10 ^ dp"
  have "round_dp dp x - x = ?a / 10 ^ dp" by (simp add: round_dp_def field_simps)
  then have "\<bar>round_dp dp x - x\<bar> = \<bar>?a\<bar> / 10 ^ dp" by (simp only: abs_divide) simp
  also have "\<dots> \<le> 1 / 2 / 10 ^ dp"
    by (rule divide_right_mono) (use round_even_bounds [of "x * 10 ^ dp"] in \<open>linarith, simp\<close>)
  finally show ?thesis by simp
qed

section \<open>Precision\<close>

lemma grid_near:
  fixes p :: rat
  assumes "0 < p" "f \<le> y" "y < f + 1"
  shows "f / p \<le> y / p" "y / p \<le> (f + 1) / p" "y / p - 1 / p \<le> f / p" "(f + 1) / p \<le> y / p + 1 / p"
  using assms by (simp_all add: divide_right_mono flip: diff_divide_distrib add_divide_distrib)

lemma rounds_to_error:
  assumes "rounds_to x r" "s \<le> 28" "\<bar>x\<bar> * 10 ^ s + 1 < 2 ^ 96"
  shows "\<bar>r - x\<bar> \<le> 1 / 10 ^ s"
proof -
  let ?f = "\<lfloor>x * 10 ^ s\<rfloor>" and ?c = "\<lfloor>x * 10 ^ s\<rfloor> + 1"
  have abs: "\<bar>x * 10 ^ s\<bar> + 1 < 2 ^ 96" using assms(3) by (simp add: abs_mult)
  have "of_int ?f \<le> x * 10 ^ s" "x * 10 ^ s < of_int ?f + 1" by linarith+
  then have "\<bar>of_int ?f\<bar> < (2 ^ 96 :: rat)" "\<bar>of_int ?c\<bar> < (2 ^ 96 :: rat)" using abs by (simp_all add: abs_if split: if_splits)
  then have "\<bar>?f\<bar> < 2 ^ 96" "\<bar>?c\<bar> < 2 ^ 96" by (metis of_int_abs of_int_less_iff of_int_numeral of_int_power)+
  then have rep: "representable (of_int ?f / 10 ^ s)" "representable (of_int ?c / 10 ^ s)"
    using representable_frac assms(2) by blast+
  have lo: "of_int ?f / 10 ^ s \<le> x" and hi: "x \<le> of_int ?c / 10 ^ s" and near: "x - 1 / 10 ^ s \<le> of_int ?f / 10 ^ s"
    "of_int ?c / 10 ^ s \<le> x + 1 / 10 ^ s"
    using grid_near [of "10 ^ s" "of_int ?f" "x * 10 ^ s"] \<open>of_int ?f \<le> x * 10 ^ s\<close> \<open>x * 10 ^ s < of_int ?f + 1\<close> by simp_all
  have "of_int ?f / 10 ^ s \<le> r" "r \<le> of_int ?c / 10 ^ s" using assms(1) rep lo hi unfolding rounds_to_def by blast+
  then show ?thesis using near by linarith
qed

text \<open>Numbers with a given number of decimal places.\<close>

definition places :: "nat \<Rightarrow> rat \<Rightarrow> bool" where
  "places s x \<longleftrightarrow> (\<exists>m :: int. x = of_int m / 10 ^ s)"

lemma places_representable:
  assumes "places s x" "s \<le> 28" "\<bar>x\<bar> * 10 ^ s < 2 ^ 96"
  shows "representable x"
proof -
  obtain m :: int where m: "x = of_int m / 10 ^ s" using assms(1) by (auto simp: places_def)
  then have "\<bar>of_int m :: rat\<bar> < 2 ^ 96" using assms(3) by (simp add: abs_divide)
  then have "\<bar>m\<bar> < 2 ^ 96" by (metis of_int_abs of_int_less_iff of_int_numeral of_int_power)
  then show ?thesis using representable_frac assms(2) m by blast
qed

lemma places_add: "places s x \<Longrightarrow> places s y \<Longrightarrow> places s (x + y)"
  unfolding places_def by (metis add_divide_distrib of_int_add)

lemma places_0 [simp]: "places s 0"
  unfolding places_def by (rule exI [of _ 0]) simp

lemma places_mult: "places s x \<Longrightarrow> places t y \<Longrightarrow> places (s + t) (x * y)"
proof -
  assume "places s x" "places t y"
  then obtain m n :: int where "x = of_int m / 10 ^ s" "y = of_int n / 10 ^ t" by (auto simp: places_def)
  then have "x * y = of_int (m * n) / 10 ^ (s + t)" by (simp add: power_add)
  then show ?thesis unfolding places_def by blast
qed

lemma d_add_exact:
  assumes "decimal_laws D" "places s x" "places s y" "s \<le> 28" "\<bar>x + y\<bar> * 10 ^ s < 2 ^ 96"
  shows "d_add D x y = x + y"
proof -
  have rep: "representable (x + y)" using places_representable [OF places_add [OF assms(2,3)] assms(4,5)] .
  have "\<bar>x + y\<bar> \<le> \<bar>x + y\<bar> * 10 ^ s" by (simp add: mult_le_cancel_left1)
  then have "in_range (x + y)" using assms(5) by linarith
  then have "rounds_to (x + y) (d_add D x y)" using assms(1) unfolding decimal_laws_def by blast
  then show ?thesis using rounds_to_exact rep by blast
qed

lemma d_mul_exact:
  assumes "decimal_laws D" "places s x" "places t y" "s + t \<le> 28" "\<bar>x * y\<bar> * 10 ^ (s + t) < 2 ^ 96"
  shows "d_mul D x y = x * y"
proof -
  have rep: "representable (x * y)" using places_representable [OF places_mult [OF assms(2,3)] assms(4,5)] .
  have "\<bar>x * y\<bar> \<le> \<bar>x * y\<bar> * 10 ^ (s + t)" by (simp add: mult_le_cancel_left1)
  then have "in_range (x * y)" using assms(5) by linarith
  then have "rounds_to (x * y) (d_mul D x y)" using assms(1) unfolding decimal_laws_def by blast
  then show ?thesis using rounds_to_exact rep by blast
qed

text \<open>A sum of numbers with few places is exact while it stays in range.\<close>

lemma sum_exact:
  assumes "decimal_laws D" "s \<le> 28" "\<forall>x \<in> set xs. 0 \<le> x \<and> places s x" "0 \<le> a" "places s a"
    "(a + sum_list xs) * 10 ^ s < 2 ^ 96"
  shows "foldl (d_add D) a xs = a + sum_list xs"
  using assms(3-)
proof (induction xs arbitrary: a)
  case (Cons x xs)
  have nonneg: "0 \<le> sum_list xs" using Cons.prems(1) by (simp add: sum_list_nonneg)
  have "(a + x) * 10 ^ s \<le> (a + sum_list (x # xs)) * 10 ^ s" using nonneg by (simp add: mult_right_mono)
  then have "(a + x) * 10 ^ s < 2 ^ 96" using Cons.prems(4) by (rule order_le_less_trans)
  then have "\<bar>a + x\<bar> * 10 ^ s < 2 ^ 96" using Cons.prems(1,2) by simp
  then have "d_add D a x = a + x" using d_add_exact [OF assms(1)] Cons.prems assms(2) by simp
  then show ?case using Cons.IH [of "a + x"] Cons.prems by (simp add: places_add add.assoc)
qed simp

section \<open>Paying out a pool\<close>

lemma to_u64_or_0_le: "0 \<le> y \<Longrightarrow> of_nat (to_u64_or_0 (trunc_int y)) \<le> (y :: rat)"
proof -
  assume y: "0 \<le> y"
  then have "of_int \<lfloor>y\<rfloor> \<le> y" "0 \<le> \<lfloor>y\<rfloor>" by simp_all
  then show ?thesis using y by (auto simp: to_u64_or_0_def trunc_int_def of_nat_nat)
qed

lemma d_mul_bounds:
  assumes "decimal_laws D" "0 \<le> x" "0 \<le> y" "s \<le> 28" "x * y * 10 ^ s + 1 < 2 ^ 96"
  shows "0 \<le> d_mul D x y \<and> d_mul D x y \<le> x * y + 1 / 10 ^ s"
proof -
  have nonneg: "0 \<le> x * y" using assms by simp
  have "x * y \<le> x * y * 10 ^ s" using nonneg by (simp add: mult_le_cancel_left1)
  then have "in_range (x * y)" using assms(5) nonneg by linarith
  then have r: "rounds_to (x * y) (d_mul D x y)" using assms(1) unfolding decimal_laws_def by blast
  have "\<bar>x * y\<bar> * 10 ^ s + 1 < 2 ^ 96" using assms(5) nonneg by simp
  then have "\<bar>d_mul D x y - x * y\<bar> \<le> 1 / 10 ^ s" using rounds_to_error [OF r assms(4)] by blast
  moreover have "0 \<le> d_mul D x y" using r nonneg unfolding rounds_to_def by simp
  ultimately show ?thesis by linarith
qed

lemma payout_bound:
  assumes "decimal_laws D" "0 \<le> rate" "s \<le> 28" "\<forall>x \<in> set xs. 0 \<le> x" "rate * sum_list xs * 10 ^ s + 1 < 2 ^ 96"
  shows "of_nat (sum_list (map (\<lambda>x. to_u64_or_0 (trunc_int (d_mul D rate x))) xs)) \<le>
    rate * sum_list xs + of_nat (length xs) / 10 ^ s"
  using assms(4,5)
proof (induction xs)
  case (Cons x xs)
  have nonneg: "0 \<le> sum_list xs" "0 \<le> x" using Cons.prems(1) by (simp_all add: sum_list_nonneg)
  have le: "rate * x * 10 ^ s \<le> rate * sum_list (x # xs) * 10 ^ s" "rate * sum_list xs * 10 ^ s \<le> rate * sum_list (x # xs) * 10 ^ s"
    using nonneg assms(2) by (simp_all add: mult_left_mono mult_right_mono)
  have "rate * x * 10 ^ s + 1 < 2 ^ 96" "rate * sum_list xs * 10 ^ s + 1 < 2 ^ 96" using le Cons.prems(2) by linarith+
  then have one: "0 \<le> d_mul D rate x \<and> d_mul D rate x \<le> rate * x + 1 / 10 ^ s"
    and IH: "of_nat (sum_list (map (\<lambda>x. to_u64_or_0 (trunc_int (d_mul D rate x))) xs)) \<le> rate * sum_list xs + of_nat (length xs) / 10 ^ s"
    using d_mul_bounds [OF assms(1,2) nonneg(2) assms(3)] Cons.IH Cons.prems(1) by simp_all
  have "of_nat (to_u64_or_0 (trunc_int (d_mul D rate x))) \<le> rate * x + 1 / 10 ^ s"
    using to_u64_or_0_le [of "d_mul D rate x"] one by linarith
  then show ?case using IH by (simp add: algebra_simps add_divide_distrib)
qed simp

lemma d_div_bounds:
  assumes "decimal_laws D" "0 \<le> P" "0 < S" "P / S * 10 ^ 9 + 1 < 2 ^ 96"
  shows "0 \<le> d_div D P S \<and> d_div D P S \<le> P / S + 1 / 10 ^ 9"
proof -
  define q where "q = P / S"
  have q: "0 \<le> q" "q * 10 ^ 9 + 1 < 2 ^ 96" using assms unfolding q_def by simp_all
  have "in_range q" "S \<noteq> 0" using q assms(3) by simp_all
  then have r: "rounds_to q (d_div D P S)" using assms(1) unfolding decimal_laws_def q_def by blast
  have "\<bar>q\<bar> * 10 ^ 9 + 1 < 2 ^ 96" using q by simp
  from rounds_to_error [OF r _ this] have "\<bar>d_div D P S - q\<bar> \<le> 1 / 10 ^ 9" by simp
  then have "d_div D P S \<le> q + 1 / 10 ^ 9" unfolding abs_le_iff by linarith
  moreover have "0 \<le> d_div D P S" using r q(1) unfolding rounds_to_def by simp
  ultimately show ?thesis by (simp add: q_def)
qed

lemma rounded_rate_bounds:
  assumes "decimal_laws D" "0 \<le> P" "0 < S" "P / S * 10 ^ 9 + 1 < 2 ^ 96"
  shows "0 \<le> round_dp 15 (d_div D P S) \<and> round_dp 15 (d_div D P S) * S \<le> P + 2 * S / 10 ^ 9"
proof -
  note div = d_div_bounds [OF assms]
  have "0 \<le> round_dp 15 (d_div D P S)" using round_dp_bounds [of 0 "d_div D P S" "\<lceil>d_div D P S\<rceil>"] div by simp
  moreover have "round_dp 15 (d_div D P S) \<le> d_div D P S + 1 / (2 * 10 ^ 15)"
    using round_dp_error [of 15 "d_div D P S"] unfolding abs_le_iff by linarith
  then have "round_dp 15 (d_div D P S) \<le> P / S + 2 / 10 ^ 9" using div by simp
  then have "round_dp 15 (d_div D P S) * S \<le> (P / S + 2 / 10 ^ 9) * S" using assms(3) by (simp add: mult_right_mono)
  moreover have "(P / S + 2 / 10 ^ 9) * S = P + 2 * S / 10 ^ 9" using assms(3) by (simp add: distrib_right)
  ultimately show ?thesis by (simp only: simp_thms)
qed

text \<open>Amounts cut to integers stay below the sum of their bounds.\<close>

lemma payout_sum:
  fixes f :: "'a \<Rightarrow> rat"
  assumes "\<And>x. x \<in> set xs \<Longrightarrow> 0 \<le> f x \<and> f x \<le> g x"
  shows "of_nat (sum_list (map (\<lambda>x. to_u64_or_0 (trunc_int (f x))) xs)) \<le> sum_list (map g xs)"
  using assms
proof (induction xs)
  case (Cons x xs)
  have "of_nat (to_u64_or_0 (trunc_int (f x))) \<le> g x" using to_u64_or_0_le [of "f x"] Cons.prems [of x] by simp
  then show ?case using Cons by simp
qed simp

end
