(* ===== verification/Reward_Epochs.thy ===== *)
theory Reward_Epochs
  imports File_Store Decimals
begin

text \<open>
  What the rewarders of the two networks share: the scheduler of \<open>src/reward_scheduler/src/lib.rs\<close>, the table meta
  of \<open>src/db_store/src/meta.rs\<close> in which the periods are kept, and the end of an epoch as both
  \<open>rewarder.rs\<close> files write it: rewards to the sink, its commit, one transaction that clears
  the tables and moves the period on, and the manifest last. The locale \<open>epoch_rewarder\<close> states what a
  tick of a rewarder may do to the period and the manifests; from it follows that periods follow
  each other without gap and that none is rewarded twice.
\<close>

section \<open>The scheduler\<close>

record scheduler =
  sc_length :: duration
  sc_period :: "timestamp \<times> timestamp"
  sc_offset :: duration

definition new_scheduler :: "duration \<Rightarrow> timestamp \<Rightarrow> timestamp \<Rightarrow> duration \<Rightarrow> scheduler" where
  "new_scheduler len last_end next_end offset = \<lparr>sc_length = len, sc_period = (last_end, next_end), sc_offset = offset\<rparr>"

definition should_reward :: "scheduler \<Rightarrow> timestamp \<Rightarrow> bool" where
  "should_reward sc now \<longleftrightarrow> now \<ge> snd (sc_period sc) + sc_offset sc"

definition next_reward_period :: "scheduler \<Rightarrow> timestamp \<times> timestamp" where
  "next_reward_period sc = (snd (sc_period sc), snd (sc_period sc) + sc_length sc)"

text \<open>The error is a duration that is negative.\<close>

definition sleep_duration :: "scheduler \<Rightarrow> timestamp \<Rightarrow> unit + duration" where
  "sleep_duration sc now =
     (let next_period = next_reward_period sc;
          d = (if snd (sc_period sc) + sc_offset sc > now then snd (sc_period sc) + sc_offset sc - now
               else if snd next_period + sc_offset sc \<le> now then 0
               else (snd next_period + sc_offset sc) - now)
      in if d \<ge> 0 then Inr d else Inl ())"

section \<open>The table meta\<close>

datatype db_error = DbSql | DbNotFound | DbDecode

definition i64_from_str :: "string \<Rightarrow> int option" where
  "i64_from_str s =
     (let (neg, ds) = (case s of c # cs \<Rightarrow> if c = CHR ''-'' then (True, cs) else if c = CHR ''+'' then (False, cs) else (False, s) | [] \<Rightarrow> (False, []));
          v = (if neg then - int (parse_nat ds) else int (parse_nat ds))
      in if ds \<noteq> [] \<and> list_all is_digit ds \<and> - (2 ^ 63) \<le> v \<and> v < 2 ^ 63 then Some v else None)"

definition meta_store :: "string \<Rightarrow> int \<Rightarrow> (string \<rightharpoonup> string) \<Rightarrow> (string \<rightharpoonup> string)" where
  "meta_store key v meta = meta(key \<mapsto> show_int v)"

definition meta_fetch :: "string \<Rightarrow> (string \<rightharpoonup> string) \<Rightarrow> db_error + int" where
  "meta_fetch key meta =
     (case meta key of
        None \<Rightarrow> Inl DbNotFound
      | Some s \<Rightarrow> (case i64_from_str s of None \<Rightarrow> Inl DbDecode | Some v \<Rightarrow> Inr v))"

definition fetch_rewarded_timestamp :: "(timestamp \<Rightarrow> bool) \<Rightarrow> string \<Rightarrow> (string \<rightharpoonup> string) \<Rightarrow> db_error + timestamp" where
  "fetch_rewarded_timestamp rep key meta =
     (case meta_fetch key meta of
        Inl e \<Rightarrow> Inl e
      | Inr s \<Rightarrow> if rep (seconds s) then Inr (seconds s) else Inl DbDecode)"

definition save_rewarded_timestamp :: "string \<Rightarrow> timestamp \<Rightarrow> (string \<rightharpoonup> string) \<Rightarrow> (string \<rightharpoonup> string)" where
  "save_rewarded_timestamp key t meta = meta_store key (t div nanos_per_sec) meta"

text \<open>\<open>num_seconds\<close> truncates towards zero.\<close>

definition num_seconds :: "duration \<Rightarrow> rat" where
  "num_seconds d = of_int (if d \<ge> 0 then d div nanos_per_sec else - (- d div nanos_per_sec))"

section \<open>What a rewarder writes\<close>

text \<open>Rewards written since the last commit of the sink, and for each manifest its period and the rewards in the
  files it names: a commit returns the files of the rewards since the last one.\<close>

record 'r epoch_output =
  eo_sink :: "'r list"
  eo_manifests :: "((u64 \<times> u64) \<times> 'r list) list"

text \<open>How the calls after the rewards were computed end; a write is answered by its number.\<close>

record epoch_answers =
  ea_write :: "nat \<Rightarrow> bool"
  ea_commit :: bool
  ea_db :: bool
  ea_manifest :: bool

datatype epoch_error = EpochDb db_error | EpochSink | EpochPrice | EpochSleep | EpochPanic | EpochService

text \<open>Every write is awaited; the first that fails ends the run.\<close>

fun write_rewards :: "(nat \<Rightarrow> bool) \<Rightarrow> nat \<Rightarrow> 'r list \<Rightarrow> 'r epoch_output \<Rightarrow> bool \<times> 'r epoch_output" where
  "write_rewards ok n [] out = (True, out)"
| "write_rewards ok n (r # rs) out =
     (if ok n then write_rewards ok (Suc n) rs (out\<lparr>eo_sink := eo_sink out @ [r]\<rparr>) else (False, out))"

definition encode_period :: "timestamp \<times> timestamp \<Rightarrow> u64 \<times> u64" where
  "encode_period p = (encode_timestamp (fst p), encode_timestamp (snd p))"

definition write_manifest :: "bool \<Rightarrow> timestamp \<times> timestamp \<Rightarrow> 'r list \<Rightarrow> 'r epoch_output \<Rightarrow> bool \<times> 'r epoch_output" where
  "write_manifest ok period written out =
     (if ok then (True, out\<lparr>eo_manifests := eo_manifests out @ [(encode_period period, written)]\<rparr>) else (False, out))"

text \<open>The stages of an epoch are computed and written one after the other; an error of a stage ends the run.\<close>

fun run_stages :: "(nat \<Rightarrow> bool) \<Rightarrow> (epoch_error + 'r list) list \<Rightarrow> 'r epoch_output \<Rightarrow> (epoch_error + unit) \<times> 'r epoch_output" where
  "run_stages ok [] out = (Inr (), out)"
| "run_stages ok (Inl e # stages) out = (Inl e, out)"
| "run_stages ok (Inr rs # stages) out =
     (case write_rewards ok 0 rs out of
        (False, out) \<Rightarrow> (Inl EpochSink, out)
      | (True, out) \<Rightarrow> run_stages (\<lambda>n. ok (n + length rs)) stages out)"

text \<open>The tables of a verifier, its table meta and its output.\<close>

record ('t, 'r) reward_world =
  rw_meta :: "string \<rightharpoonup> string"
  rw_tables :: 't
  rw_out :: "'r epoch_output"

abbreviation LAST_REWARDED_END_TIME :: string where "LAST_REWARDED_END_TIME \<equiv> ''last_rewarded_end_time''"
abbreviation NEXT_REWARDED_END_TIME :: string where "NEXT_REWARDED_END_TIME \<equiv> ''next_rewarded_end_time''"

text \<open>The end of an epoch: the sink is committed, the tables are cleared and the period moved on in one transaction, and the manifest is
  written last.\<close>

definition advance_period :: "scheduler \<Rightarrow> (string \<rightharpoonup> string) \<Rightarrow> (string \<rightharpoonup> string)" where
  "advance_period sc meta =
     save_rewarded_timestamp NEXT_REWARDED_END_TIME (snd (next_reward_period sc))
       (save_rewarded_timestamp LAST_REWARDED_END_TIME (fst (next_reward_period sc)) meta)"

definition finish_epoch ::
  "epoch_answers \<Rightarrow> scheduler \<Rightarrow> ('t \<Rightarrow> 't) \<Rightarrow> ('t, 'r) reward_world \<Rightarrow> (epoch_error + unit) \<times> ('t, 'r) reward_world" where
  "finish_epoch ea sc clear w =
     (if \<not> ea_commit ea then (Inl EpochSink, w)
      else let written = eo_sink (rw_out w);
               w = w\<lparr>rw_out := (rw_out w)\<lparr>eo_sink := []\<rparr>\<rparr>
           in if \<not> ea_db ea then (Inl (EpochDb DbSql), w)
              else let w = w\<lparr>rw_tables := clear (rw_tables w), rw_meta := advance_period sc (rw_meta w)\<rparr>
                   in case write_manifest (ea_manifest ea) (sc_period sc) written (rw_out w) of
                        (ok, out) \<Rightarrow> (if ok then Inr () else Inl EpochSink, w\<lparr>rw_out := out\<rparr>))"

definition run_epoch ::
  "epoch_answers \<Rightarrow> scheduler \<Rightarrow> (epoch_error + 'r list) list \<Rightarrow> ('t \<Rightarrow> 't) \<Rightarrow> ('t, 'r) reward_world \<Rightarrow>
   (epoch_error + unit) \<times> ('t, 'r) reward_world" where
  "run_epoch ea sc stages clear w =
     (case run_stages (ea_write ea) stages (rw_out w) of
        (Inl e, out) \<Rightarrow> (Inl e, w\<lparr>rw_out := out\<rparr>)
      | (Inr _, out) \<Rightarrow> finish_epoch ea sc clear (w\<lparr>rw_out := out\<rparr>))"

text \<open>The runs of a rewarder: ticks, changes of the tables by other tasks, and restarts, at which the sink removes what was not
  committed. The list holds the periods whose end was saved.\<close>

inductive epoch_step ::
  "('a \<Rightarrow> timestamp \<Rightarrow> ('t, 'r) reward_world \<Rightarrow> (epoch_error + duration) \<times> ('t, 'r) reward_world) \<Rightarrow> (timestamp \<Rightarrow> bool) \<Rightarrow>
   ('t, 'r) reward_world \<times> (timestamp \<times> timestamp) list \<Rightarrow> ('t, 'r) reward_world \<times> (timestamp \<times> timestamp) list \<Rightarrow> bool" for tick rep where
  ticked: "tick x now w = (res, w') \<Longrightarrow>
    epoch_step tick rep (w, ps) (w', if rw_meta w' = rw_meta w then ps
      else ps @ [(projr (fetch_rewarded_timestamp rep LAST_REWARDED_END_TIME (rw_meta w)), projr (fetch_rewarded_timestamp rep NEXT_REWARDED_END_TIME (rw_meta w)))])"
| ingested: "epoch_step tick rep (w, ps) (w\<lparr>rw_tables := tables\<rparr>, ps)"
| epoch_restarted: "epoch_step tick rep (w, ps) (w\<lparr>rw_out := (rw_out w)\<lparr>eo_sink := []\<rparr>\<rparr>, ps)"

inductive epoch_reachable ::
  "('a \<Rightarrow> timestamp \<Rightarrow> ('t, 'r) reward_world \<Rightarrow> (epoch_error + duration) \<times> ('t, 'r) reward_world) \<Rightarrow> (timestamp \<Rightarrow> bool) \<Rightarrow> ('t, 'r) reward_world \<Rightarrow>
   ('t, 'r) reward_world \<times> (timestamp \<times> timestamp) list \<Rightarrow> bool" for tick rep w\<^sub>0 where
  epoch_init: "epoch_reachable tick rep w\<^sub>0 (w\<^sub>0, [])"
| epoch_next: "epoch_reachable tick rep w\<^sub>0 s \<Longrightarrow> epoch_step tick rep s t \<Longrightarrow> epoch_reachable tick rep w\<^sub>0 t"

section \<open>Sleeping\<close>

text \<open>The rewarder sleeps to the moment the rewards of the current period are due and not past it; when they are already due, it
  sleeps to the moment those of the next period are, and not at all when those are due as well.\<close>

theorem sleeps_until_due:
  assumes "0 \<le> sc_length sc"
  shows "\<exists>d. sleep_duration sc now = Inr d \<and> 0 \<le> d \<and>
    (let due = (if should_reward sc now then sc\<lparr>sc_period := next_reward_period sc\<rparr> else sc)
     in \<forall>t. now \<le> t \<longrightarrow> (should_reward due t \<longleftrightarrow> now + d \<le> t))"
  using assms by (auto simp: sleep_duration_def should_reward_def next_reward_period_def Let_def)

theorem sleeps_until_due_witness:
  "\<exists>d. sleep_duration (new_scheduler (hours 24) 0 (hours 24) (minutes 30)) (hours 1) = Inr d \<and> 0 \<le> d \<and>
    should_reward (new_scheduler (hours 24) 0 (hours 24) (minutes 30)) (hours 1 + d)"
proof -
  let ?sc = "new_scheduler (hours 24) 0 (hours 24) (minutes 30)"
  have "0 \<le> sc_length ?sc" by (simp add: new_scheduler_def)
  from sleeps_until_due [OF this, of "hours 1"] obtain d where d: "sleep_duration ?sc (hours 1) = Inr d" "0 \<le> d"
    "let due = (if should_reward ?sc (hours 1) then ?sc\<lparr>sc_period := next_reward_period ?sc\<rparr> else ?sc)
     in \<forall>t. hours 1 \<le> t \<longrightarrow> (should_reward due t \<longleftrightarrow> hours 1 + d \<le> t)" by blast
  have "\<not> should_reward ?sc (hours 1)" by (simp add: new_scheduler_def should_reward_def)
  then show ?thesis using d by (intro exI [of _ d]) simp
qed

section \<open>The period survives a restart\<close>

lemma show_nat_head: "\<exists>c cs. show_nat n = c # cs \<and> c \<noteq> CHR ''-'' \<and> c \<noteq> CHR ''+''"
proof -
  obtain c cs where c: "show_nat n = c # cs" using show_nat_facts [of n] by (cases "show_nat n") auto
  then have "is_digit c" using show_nat_facts [of n] by simp
  then have "c \<noteq> CHR ''-''" "c \<noteq> CHR ''+''" by (auto simp: is_digit_def)
  then show ?thesis using c by blast
qed

lemma i64_show_int: "i64_from_str (show_int v) = (if - (2 ^ 63) \<le> v \<and> v < 2 ^ 63 then Some v else None)"
proof (cases "v < 0")
  case True
  then show ?thesis using show_nat_facts [of "nat (- v)"] by (auto simp: i64_from_str_def show_int_def Let_def nat_le_iff)
next
  case False
  obtain c cs where "show_nat (nat v) = c # cs" "c \<noteq> CHR ''-''" "c \<noteq> CHR ''+''" using show_nat_head by blast
  then show ?thesis using show_nat_facts [of "nat v"] False by (auto simp: i64_from_str_def show_int_def Let_def)
qed

lemma show_int_i64:
  assumes "- (2 ^ 63) \<le> a" "a < 2 ^ 63" "- (2 ^ 63) \<le> b" "b < 2 ^ 63"
  shows "show_int a = show_int b \<longleftrightarrow> a = b"
proof
  assume "show_int a = show_int b"
  from arg_cong [OF this, of i64_from_str] show "a = b" unfolding i64_show_int using assms by simp
qed simp

lemma fetch_stored:
  "meta key = Some (show_int s) \<Longrightarrow> - (2 ^ 63) \<le> s \<Longrightarrow> s < 2 ^ 63 \<Longrightarrow> rep (seconds s) \<Longrightarrow> fetch_rewarded_timestamp rep key meta = Inr (seconds s)"
  by (simp add: fetch_rewarded_timestamp_def meta_fetch_def i64_show_int)

lemma fetch_saved:
  assumes "meta key = Some (show_int (t div nanos_per_sec))" "t mod nanos_per_sec = 0" "fetch_rewarded_timestamp rep key meta = Inr t'"
  shows "t' = t"
proof -
  have "seconds (t div nanos_per_sec) = t" using assms(2) by (metis add.right_neutral div_mult_mod_eq)
  then show ?thesis using assms(1,3)
    by (auto simp: fetch_rewarded_timestamp_def meta_fetch_def i64_show_int split: if_splits)
qed

section \<open>No period is skipped or rewarded twice\<close>

text \<open>A tick leaves the period and the manifests, or moves the period on when it is due and writes at most the manifest of it.\<close>

definition period_advanced ::
  "(timestamp \<Rightarrow> bool) \<Rightarrow> duration \<Rightarrow> duration \<Rightarrow> timestamp \<Rightarrow> ('t, 'r) reward_world \<Rightarrow> ('t, 'r) reward_world \<Rightarrow> bool" where
  "period_advanced rep len offset now w w' \<longleftrightarrow>
     (\<exists>a b. fetch_rewarded_timestamp rep LAST_REWARDED_END_TIME (rw_meta w) = Inr a \<and>
        fetch_rewarded_timestamp rep NEXT_REWARDED_END_TIME (rw_meta w) = Inr b \<and> b + offset \<le> now \<and>
        rw_meta w' = advance_period (new_scheduler len a b offset) (rw_meta w) \<and>
        (eo_manifests (rw_out w') = eo_manifests (rw_out w) \<or>
         (\<exists>rs. eo_manifests (rw_out w') = eo_manifests (rw_out w) @ [(encode_period (a, b), rs)])))"

locale epoch_rewarder =
  fixes tick :: "'a \<Rightarrow> timestamp \<Rightarrow> ('t, 'r) reward_world \<Rightarrow> (epoch_error + duration) \<times> ('t, 'r) reward_world"
    and rep :: "timestamp \<Rightarrow> bool"
    and len :: duration
    and offset :: duration
  assumes tick_effect: "tick x now w = (res, w') \<Longrightarrow>
      rw_meta w' = rw_meta w \<and> eo_manifests (rw_out w') = eo_manifests (rw_out w) \<or>
      period_advanced rep len offset now w w'"
begin

text \<open>The period with the given number, counted from a first one.\<close>

definition period_at :: "timestamp \<times> timestamp \<Rightarrow> nat \<Rightarrow> timestamp \<times> timestamp" where
  "period_at p i = (if i = 0 then fst p else snd p + int (i - 1) * len, snd p + int i * len)"

lemma period_at_snd: "snd (period_at p i) = snd p + int i * len"
  by (simp add: period_at_def)

lemma period_at_Suc: "fst (period_at p (Suc i)) = snd (period_at p i)"
  by (simp add: period_at_def)

definition epoch_inv :: "timestamp \<times> timestamp \<Rightarrow> (u64 \<times> u64) list \<Rightarrow> ('t, 'r) reward_world \<times> (timestamp \<times> timestamp) list \<Rightarrow> bool" where
  "epoch_inv p old s \<longleftrightarrow> (case s of (w, ps) \<Rightarrow>
     rw_meta w LAST_REWARDED_END_TIME = Some (show_int (fst (period_at p (length ps)) div nanos_per_sec)) \<and>
     rw_meta w NEXT_REWARDED_END_TIME = Some (show_int (snd (period_at p (length ps)) div nanos_per_sec)) \<and>
     ps = map (period_at p) [0..<length ps] \<and> subseq (map fst (eo_manifests (rw_out w))) (old @ map encode_period ps))"

lemma whole_period:
  assumes len: "len mod nanos_per_sec = 0" and p: "fst p mod nanos_per_sec = 0" "snd p mod nanos_per_sec = 0"
  shows "fst (period_at p i) mod nanos_per_sec = 0 \<and> snd (period_at p i) mod nanos_per_sec = 0"
proof -
  have all: "(snd p + int j * len) mod nanos_per_sec = 0" for j using len p by (simp add: dvd_eq_mod_eq_0 [symmetric])
  then show ?thesis using p by (cases i) (simp_all add: period_at_def all del: of_nat_Suc)
qed

lemma epoch_step_inv:
  assumes "epoch_step tick rep s t" "epoch_inv p old s" "fst p mod nanos_per_sec = 0" "snd p mod nanos_per_sec = 0"
    "0 < len" "len mod nanos_per_sec = 0"
  shows "epoch_inv p old t"
  using assms(1)
proof cases
  case (ticked x now w res w' ps)
  show ?thesis
  proof (cases "rw_meta w' = rw_meta w \<and> eo_manifests (rw_out w') = eo_manifests (rw_out w)")
    case True
    then show ?thesis using ticked assms(2) by (simp add: epoch_inv_def)
  next
    case False
    then have "period_advanced rep len offset now w w'" using tick_effect [OF ticked(3)] by blast
    then obtain a b where ab:
        "fetch_rewarded_timestamp rep LAST_REWARDED_END_TIME (rw_meta w) = Inr a" "fetch_rewarded_timestamp rep NEXT_REWARDED_END_TIME (rw_meta w) = Inr b"
        "rw_meta w' = advance_period (new_scheduler len a b offset) (rw_meta w)"
        "eo_manifests (rw_out w') = eo_manifests (rw_out w) \<or> (\<exists>rs. eo_manifests (rw_out w') = eo_manifests (rw_out w) @ [(encode_period (a, b), rs)])"
      unfolding period_advanced_def by (elim exE conjE) (rule that)
    let ?n = "length ps"
    note inv = assms(2) [unfolded ticked(1) epoch_inv_def prod.case]
    note whole = whole_period [OF assms(6,3,4), of ?n]
    have eq: "a = fst (period_at p ?n)" "b = snd (period_at p ?n)" 
      using fetch_saved [OF inv [THEN conjunct1] whole [THEN conjunct1] ab(1)]
        fetch_saved [OF inv [THEN conjunct2, THEN conjunct1] whole [THEN conjunct2] ab(2)] by simp_all
    have next_b: "b + len = snd (period_at p (Suc ?n))" "b = fst (period_at p (Suc ?n))"
      unfolding eq by (simp_all add: period_at_Suc period_at_snd algebra_simps)
    have saved: "rw_meta w' NEXT_REWARDED_END_TIME = Some (show_int ((b + len) div nanos_per_sec))"
        "rw_meta w' LAST_REWARDED_END_TIME = Some (show_int (b div nanos_per_sec))"
      using ab(3) by (simp_all add: advance_period_def save_rewarded_timestamp_def meta_store_def next_reward_period_def new_scheduler_def)
    have "rw_meta w' \<noteq> rw_meta w"
    proof
      assume same: "rw_meta w' = rw_meta w"
      have "(b + len) mod nanos_per_sec = 0" using whole_period [OF assms(6,3,4), of "Suc ?n"] next_b(1) by simp
      then have "b = b + len" using fetch_saved [where meta = "rw_meta w'" and t' = b, OF saved(1)] ab(2) same by simp
      then show False using assms(5) by simp
    qed
    then have t: "t = (w', ps @ [period_at p ?n])" using ticked(2) ab(1,2) eq by simp
    have "subseq (map fst (eo_manifests (rw_out w'))) (old @ map encode_period (ps @ [period_at p ?n]))"
    proof -
      have base: "subseq (map fst (eo_manifests (rw_out w))) (old @ map encode_period ps)" using inv by blast
      have more: "subseq (map fst (eo_manifests (rw_out w))) ((old @ map encode_period ps) @ [e])" for e by (rule list_emb_prefix [OF base])
      have one: "subseq (map fst (eo_manifests (rw_out w)) @ [e]) ((old @ map encode_period ps) @ [e])" for e
        by (rule list_emb_append_mono [OF base]) simp
      have e: "encode_period (a, b) = encode_period (period_at p ?n)" by (simp add: eq)
      have g: "old @ map encode_period (ps @ [period_at p ?n]) = (old @ map encode_period ps) @ [encode_period (period_at p ?n)]" by simp
      from ab(4) have "map fst (eo_manifests (rw_out w')) \<in> {map fst (eo_manifests (rw_out w)),
          map fst (eo_manifests (rw_out w)) @ [encode_period (period_at p ?n)]}" using e by auto
      then show ?thesis unfolding g
      proof (elim insertE emptyE)
        assume m: "map fst (eo_manifests (rw_out w')) = map fst (eo_manifests (rw_out w))"
        show "subseq (map fst (eo_manifests (rw_out w'))) ((old @ map encode_period ps) @ [encode_period (period_at p ?n)])"
          unfolding m by (rule more)
      next
        assume m: "map fst (eo_manifests (rw_out w')) = map fst (eo_manifests (rw_out w)) @ [encode_period (period_at p ?n)]"
        show "subseq (map fst (eo_manifests (rw_out w'))) ((old @ map encode_period ps) @ [encode_period (period_at p ?n)])"
          unfolding m by (rule one)
      qed
    qed
    then show ?thesis using saved next_b inv unfolding t epoch_inv_def by simp
  qed
next
  case (ingested w ps tables)
  then show ?thesis using assms(2) by (simp add: epoch_inv_def)
next
  case (epoch_restarted w ps)
  then show ?thesis using assms(2) by (simp add: epoch_inv_def)
qed

lemma epoch_reachable_inv:
  assumes "epoch_reachable tick rep w\<^sub>0 s" "fst p mod nanos_per_sec = 0" "snd p mod nanos_per_sec = 0"
    "rw_meta w\<^sub>0 LAST_REWARDED_END_TIME = Some (show_int (fst p div nanos_per_sec))"
    "rw_meta w\<^sub>0 NEXT_REWARDED_END_TIME = Some (show_int (snd p div nanos_per_sec))" "0 < len" "len mod nanos_per_sec = 0"
  shows "epoch_inv p (map fst (eo_manifests (rw_out w\<^sub>0))) s"
  using assms(1)
proof (induction rule: epoch_reachable.induct)
  case epoch_init
  show ?case using assms(4,5) by (simp add: epoch_inv_def period_at_def)
next
  case (epoch_next s t)
  show ?case by (rule epoch_step_inv [OF epoch_next(2,3) assms(2,3,6,7)])
qed

text \<open>A manifest is one of those there were or that of a period that began no earlier than the current one.\<close>

lemma later_manifests:
  assumes "epoch_reachable tick rep w\<^sub>0 (w, ps)" "fst p mod nanos_per_sec = 0" "snd p mod nanos_per_sec = 0"
    "rw_meta w\<^sub>0 LAST_REWARDED_END_TIME = Some (show_int (fst p div nanos_per_sec))"
    "rw_meta w\<^sub>0 NEXT_REWARDED_END_TIME = Some (show_int (snd p div nanos_per_sec))" "0 < len" "len mod nanos_per_sec = 0" "fst p \<le> snd p"
    "(e, rs) \<in> set (eo_manifests (rw_out w))"
  shows "e \<in> fst ` set (eo_manifests (rw_out w\<^sub>0)) \<or> (\<exists>q. e = encode_period q \<and> fst p \<le> fst q)"
proof -
  let ?old = "map fst (eo_manifests (rw_out w\<^sub>0))"
  note inv = epoch_reachable_inv [OF assms(1-7), unfolded epoch_inv_def prod.case]
  have sub: "subseq (map fst (eo_manifests (rw_out w))) (?old @ map encode_period ps)" and ps: "ps = map (period_at p) [0..<length ps]"
    using inv by blast+
  have later: "fst p \<le> fst (period_at p i)" for i using assms(6,8) by (auto simp: period_at_def intro: add_increasing2)
  obtain N where "map fst (eo_manifests (rw_out w)) = nths (?old @ map encode_period ps) N" using sub unfolding subseq_conv_nths by (elim exE)
  then have "set (map fst (eo_manifests (rw_out w))) \<subseteq> set (?old @ map encode_period ps)" by (simp only: set_nths_subset)
  moreover have "e \<in> set (map fst (eo_manifests (rw_out w)))" using image_eqI [OF _ assms(9), of e fst] by simp
  ultimately have "e \<in> set ?old \<or> e \<in> encode_period ` set ps" by auto
  then show ?thesis
  proof
    assume "e \<in> encode_period ` set ps"
    then obtain q where q: "q \<in> set ps" "e = encode_period q" by blast
    have "set ps = period_at p ` {0..<length ps}" using arg_cong [OF ps, of set] by simp
    then obtain i where "q = period_at p i" using q(1) by blast
    then show ?thesis using q(2) later by blast
  qed simp
qed

text \<open>The periods whose end was saved follow each other without gap, each of the given length after the first, and every manifest is that of one of
  them, in their order.\<close>

lemma periods_contiguous:
  assumes "epoch_reachable tick rep w\<^sub>0 (w, ps)" "fst p mod nanos_per_sec = 0" "snd p mod nanos_per_sec = 0"
    "rw_meta w\<^sub>0 LAST_REWARDED_END_TIME = Some (show_int (fst p div nanos_per_sec))"
    "rw_meta w\<^sub>0 NEXT_REWARDED_END_TIME = Some (show_int (snd p div nanos_per_sec))" "0 < len" "len mod nanos_per_sec = 0" "eo_manifests (rw_out w\<^sub>0) = []"
  shows "(\<forall>i < length ps. ps ! i = (if i = 0 then fst p else snd p + int (i - 1) * len, snd p + int i * len)) \<and>
    subseq (map fst (eo_manifests (rw_out w))) (map encode_period ps)"
proof -
  have inv: "epoch_inv p [] (w, ps)" using epoch_reachable_inv [OF assms(1-7)] assms(8) by simp
  then have ps: "ps = map (period_at p) [0..<length ps]" by (simp add: epoch_inv_def)
  have "ps ! i = period_at p i" if "i < length ps" for i using that by (subst ps) simp
  then show ?thesis using inv by (simp add: epoch_inv_def period_at_def)
qed

end

section \<open>One epoch\<close>

lemma write_rewards_spec:
  "write_rewards ok n rs out = (done_ok, out') \<Longrightarrow> eo_manifests out' = eo_manifests out \<and> (done_ok \<longrightarrow> eo_sink out' = eo_sink out @ rs)"
  by (induction rs arbitrary: n out) (auto split: if_splits)

lemma write_rewards_all_ok: "fst (write_rewards (\<lambda>_. True) n rs out)"
  by (induction rs arbitrary: n out) auto

lemma run_stages_spec:
  "run_stages ok stages out = (res, out') \<Longrightarrow> eo_manifests out' = eo_manifests out \<and>
   (res = Inr () \<longrightarrow> (\<forall>s \<in> set stages. \<exists>rs. s = Inr rs) \<and> eo_sink out' = eo_sink out @ concat (map projr stages))"
proof (induction ok stages out rule: run_stages.induct)
  case (3 ok rs stages out)
  obtain b o1 where w: "write_rewards ok 0 rs out = (b, o1)" by fastforce
  note spec = write_rewards_spec [OF w]
  show ?case
  proof (cases b)
    case True
    then show ?thesis using 3(1) [OF w [symmetric]] 3(2) w spec by auto
  next
    case False
    then show ?thesis using 3(2) w spec by auto
  qed
qed auto

lemma run_stages_all_ok: "\<forall>s \<in> set stages. \<exists>rs. s = Inr rs \<Longrightarrow> fst (run_stages (\<lambda>_. True) stages out) = Inr ()"
proof (induction stages arbitrary: out)
  case (Cons s stages)
  then obtain rs where s: "s = Inr rs" by auto
  obtain b o1 where w: "write_rewards (\<lambda>_. True) 0 rs out = (b, o1)" by fastforce
  then have b using write_rewards_all_ok [of 0 rs out] by simp
  then show ?case using Cons w s by simp
qed simp

text \<open>An epoch that fails before the transaction leaves the period and the manifests; after it the period has moved on, and the manifest,
  when it is written, holds what the stages computed.\<close>

lemma run_epoch_effect:
  assumes "run_epoch ea sc stages clear w = (res, w')"
  shows "rw_meta w' = rw_meta w \<and> eo_manifests (rw_out w') = eo_manifests (rw_out w) \<and> rw_tables w' = rw_tables w \<and> (\<exists>e. res = Inl e) \<or>
    rw_meta w' = advance_period sc (rw_meta w) \<and> rw_tables w' = clear (rw_tables w) \<and>
    (eo_manifests (rw_out w') = eo_manifests (rw_out w) \<and> (\<exists>e. res = Inl e) \<or>
     eo_manifests (rw_out w') = eo_manifests (rw_out w) @ [(encode_period (sc_period sc), eo_sink (rw_out w) @ concat (map projr stages))] \<and>
     res = Inr () \<and> (\<forall>s \<in> set stages. \<exists>rs. s = Inr rs))"
proof -
  obtain r out where s: "run_stages (ea_write ea) stages (rw_out w) = (r, out)" by fastforce
  note spec = run_stages_spec [OF s]
  show ?thesis
  proof (cases r)
    case (Inl e)
    then show ?thesis using assms s spec by (auto simp: run_epoch_def)
  next
    case (Inr u)
    then show ?thesis using assms s spec by (auto simp: run_epoch_def finish_epoch_def write_manifest_def Let_def split: if_splits)
  qed
qed

lemma run_epoch_answered:
  assumes "\<forall>n. ea_write ea n" "ea_commit ea" "ea_db ea" "\<forall>s \<in> set stages. \<exists>rs. s = Inr rs"
  shows "\<exists>w'. run_epoch ea sc stages clear w = (if ea_manifest ea then Inr () else Inl EpochSink, w') \<and>
    rw_meta w' = advance_period sc (rw_meta w) \<and> rw_tables w' = clear (rw_tables w)"
proof -
  have "ea_write ea = (\<lambda>_. True)" using assms(1) by blast
  then show ?thesis using assms(2-) run_stages_all_ok [OF assms(4), of "rw_out w"]
    by (auto simp: run_epoch_def finish_epoch_def write_manifest_def Let_def split: prod.splits sum.splits)
qed

lemma run_epoch_advances:
  assumes "run_epoch ea sc stages clear w = (res, w')" "sc = new_scheduler len a b offset" "should_reward sc now"
    "fetch_rewarded_timestamp rep LAST_REWARDED_END_TIME (rw_meta w) = Inr a" "fetch_rewarded_timestamp rep NEXT_REWARDED_END_TIME (rw_meta w) = Inr b"
  shows "rw_meta w' = rw_meta w \<and> eo_manifests (rw_out w') = eo_manifests (rw_out w) \<or> period_advanced rep len offset now w w'"
proof -
  have p: "sc_period sc = (a, b)" "b + offset \<le> now" using assms(2,3) by (simp_all add: new_scheduler_def should_reward_def)
  show ?thesis using run_epoch_effect [OF assms(1)] assms(2,4,5) p unfolding period_advanced_def by auto
qed

section \<open>What is not allocated\<close>

text \<open>The amounts of a pool are added up as 64-bit integers, and what is left of the pool is written as unallocated.\<close>

definition unallocated_amount :: "decimal_ops \<Rightarrow> rat \<Rightarrow> u64 \<Rightarrow> nat" where
  "unallocated_amount D pool allocated = to_u64_or_0 (trunc_int (d_sub D pool (of_nat (unat allocated))))"

definition allocated_sum :: "nat list \<Rightarrow> u64" where
  "allocated_sum amounts = foldl (\<lambda>acc n. acc + of_nat n) 0 amounts"

lemma allocated_sum_eq: "allocated_sum amounts = of_nat (sum_list amounts)"
proof -
  have "foldl (\<lambda>acc n. acc + of_nat n) a amounts = (a :: u64) + of_nat (sum_list amounts)" for a
    by (induction amounts arbitrary: a) simp_all
  then show ?thesis by (simp add: allocated_sum_def)
qed

lemma representable_minus_nat:
  assumes "representable q" "of_nat k \<le> q"
  shows "representable (q - of_nat k)"
proof -
  obtain m s where m: "\<bar>m\<bar> < 2 ^ 96" "s \<le> 28" "q = of_int m / 10 ^ s" using assms(1) by (auto simp: representable_def)
  let ?m = "m - int k * 10 ^ s"
  have eq: "q - of_nat k = of_int ?m / 10 ^ s" by (simp add: m(3) diff_divide_distrib)
  have "(of_int (int k * 10 ^ s) :: rat) \<le> of_int m" using assms(2) m(3) by (simp add: field_simps)
  then have "int k * 10 ^ s \<le> m" by (simp only: of_int_le_iff)
  moreover have "0 \<le> int k * 10 ^ s" by simp
  ultimately have "\<bar>?m\<bar> < 2 ^ 96" using m(1) by linarith
  then show ?thesis unfolding eq by (rule representable_frac [OF _ m(2)])
qed

text \<open>Paid and unallocated amounts make up the pool but for its fraction, unless more than the pool was paid.\<close>

lemma pool_accounted:
  assumes "decimal_laws D" "representable pool" "0 \<le> pool" "pool < 2 ^ 64" "sum_list amounts < 2 ^ 64"
  shows "int (sum_list amounts) + int (unallocated_amount D pool (allocated_sum amounts)) = max (int (sum_list amounts)) \<lfloor>pool\<rfloor>"
proof -
  let ?k = "sum_list amounts"
  have k: "unat (allocated_sum amounts) = ?k" using assms(5) by (simp add: allocated_sum_eq unat_of_nat)
  have "(of_nat ?k :: rat) < of_nat (2 ^ 64)" using assms(5) by (simp only: of_nat_less_iff)
  then have "in_range (pool - of_nat ?k)" using assms(3,4) by (simp add: abs_if)
  then have r: "rounds_to (pool - of_nat ?k) (d_sub D pool (of_nat ?k))" using assms(1) unfolding decimal_laws_def by blast
  show ?thesis
  proof (cases "of_nat ?k \<le> pool")
    case True
    then have diff: "0 \<le> pool - of_nat ?k" "pool - of_nat ?k < 2 ^ 64" using assms(4) by simp_all
    have exact: "d_sub D pool (of_nat ?k) = pool - of_nat ?k" using r rounds_to_exact representable_minus_nat [OF assms(2) True] by blast
    have "\<lfloor>pool - of_nat ?k\<rfloor> = \<lfloor>pool\<rfloor> - int ?k" using floor_diff_of_int [of pool "int ?k"] by simp
    moreover have "0 \<le> \<lfloor>pool - of_nat ?k\<rfloor>" "\<lfloor>pool - of_nat ?k\<rfloor> < 2 ^ 64" using diff by (simp_all add: floor_less_iff)
    ultimately show ?thesis using diff by (simp add: unallocated_amount_def k exact trunc_int_def to_u64_or_0_def)
  next
    case False
    then have "d_sub D pool (of_nat ?k) \<le> 0" using r unfolding rounds_to_def by simp
    then have "unallocated_amount D pool (allocated_sum amounts) = 0" by (auto simp: unallocated_amount_def k trunc_int_def to_u64_or_0_def)
    moreover have "\<lfloor>pool\<rfloor> \<le> int ?k" using False by (simp add: floor_le_iff)
    ultimately show ?thesis by simp
  qed
qed

end
