(* ===== verification/Mobile_Sessions.thy ===== *)
theory Mobile_Sessions
  imports Mobile_Coverage Reward_Epochs
begin

text \<open>
  What mobile hotspots and subscribers are rewarded for besides coverage: the data transfer sessions of
  \<open>src/mobile_verifier/src/data_session.rs\<close> and the validated locations of
  \<open>src/mobile_verifier/src/subscriber_location.rs\<close>. The lemmas say that the aggregates of an epoch are the
  wrapping sums of its sessions, and that a subscriber counts once.
\<close>

section \<open>Data transfer sessions\<close>

record valid_session =
  vt_pub_key :: pubkey
  vt_payer :: pubkey
  vt_upload :: u64
  vt_download :: u64
  vt_num_dcs :: u64

record data_session =
  hs_pub_key :: pubkey
  hs_payer :: pubkey
  hs_upload :: i64
  hs_download :: i64
  hs_num_dcs :: i64
  hs_received :: timestamp

record hotspot_reward =
  hw_bytes :: u64
  hw_dc :: u64

type_synonym hotspot_map = "(pubkey \<times> hotspot_reward) list"

definition from_valid_data_session :: "valid_session \<Rightarrow> timestamp \<Rightarrow> data_session" where
  "from_valid_data_session v received =
     \<lparr>hs_pub_key = vt_pub_key v, hs_payer = vt_payer v, hs_upload = vt_upload v, hs_download = vt_download v, hs_num_dcs = vt_num_dcs v,
      hs_received = received\<rparr>"

definition save_data_session :: "data_session \<Rightarrow> data_session list \<Rightarrow> data_session list" where
  "save_data_session s table = table @ [s]"

text \<open>The sessions of a file are saved in one transaction under the time of the file; \<open>None\<close> when a statement or the
  commit fails.\<close>

definition process_session_file :: "bool \<Rightarrow> timestamp \<Rightarrow> valid_session list \<Rightarrow> data_session list \<Rightarrow> data_session list option" where
  "process_session_file ok file_ts sessions table =
     (if ok then Some (foldl (\<lambda>t v. save_data_session (from_valid_data_session v file_ts) t) table sessions) else None)"

definition sessions_in :: "timestamp \<times> timestamp \<Rightarrow> data_session list \<Rightarrow> data_session list" where
  "sessions_in epoch table = filter (\<lambda>s. fst epoch \<le> hs_received s \<and> hs_received s < snd epoch) table"

definition add_session :: "data_session \<Rightarrow> hotspot_reward \<Rightarrow> hotspot_reward" where
  "add_session s r = r\<lparr>hw_dc := hw_dc r + hs_num_dcs s, hw_bytes := hw_bytes r + (hs_upload s + hs_download s)\<rparr>"

definition data_sessions_to_dc :: "data_session list \<Rightarrow> hotspot_map" where
  "data_sessions_to_dc sessions =
     foldl (\<lambda>m s. entry_update (hs_pub_key s) \<lparr>hw_bytes = 0, hw_dc = 0\<rparr> (add_session s) m) [] sessions"

definition aggregate_hotspot_data_sessions_to_dc :: "timestamp \<times> timestamp \<Rightarrow> data_session list \<Rightarrow> hotspot_map" where
  "aggregate_hotspot_data_sessions_to_dc epoch table = data_sessions_to_dc (sessions_in epoch table)"

text \<open>The sum of a group is cast to a 64-bit integer, which fails when it does not fit.\<close>

definition payer_sum :: "data_session list \<Rightarrow> pubkey \<Rightarrow> int" where
  "payer_sum sessions p = sum_list (map (\<lambda>s. sint (hs_num_dcs s)) (filter (\<lambda>s. hs_payer s = p) sessions))"

definition sum_data_sessions_to_dc_by_payer :: "timestamp \<times> timestamp \<Rightarrow> data_session list \<Rightarrow> db_error + (pubkey \<times> u64) list" where
  "sum_data_sessions_to_dc_by_payer epoch table =
     (let rows = sessions_in epoch table; payers = remdups (map hs_payer rows) in
      if list_all (\<lambda>p. - (2 ^ 63) \<le> payer_sum rows p \<and> payer_sum rows p < 2 ^ 63) payers
      then Inr (map (\<lambda>p. (p, of_int (payer_sum rows p))) payers) else Inl DbSql)"

definition clear_hotspot_data_sessions :: "timestamp \<Rightarrow> data_session list \<Rightarrow> data_session list" where
  "clear_hotspot_data_sessions ts table = filter (\<lambda>s. \<not> hs_received s < ts) table"

section \<open>Locations of subscribers\<close>

record location_report =
  lr_subscriber :: bytes
  lr_timestamp :: timestamp
  lr_carrier :: pubkey
  lr_received :: timestamp

record location_row =
  lv_subscriber :: bytes
  lv_received :: timestamp

datatype location_status = LocationValid | InvalidCarrierKey | InvalidSubscriberId

text \<open>An error of a service counts as a refusal.\<close>

definition verify_location_report :: "(pubkey \<Rightarrow> 'e + bool) \<Rightarrow> (bytes \<Rightarrow> 'e + bool) \<Rightarrow> location_report \<Rightarrow> location_status" where
  "verify_location_report authorized rewardable r =
     (if (case authorized (lr_carrier r) of Inl _ \<Rightarrow> False | Inr ok \<Rightarrow> ok) then
        if (case rewardable (lr_subscriber r) of Inl _ \<Rightarrow> False | Inr ok \<Rightarrow> ok) then LocationValid else InvalidSubscriberId
      else InvalidCarrierKey)"

definition save_location :: "location_report \<Rightarrow> location_row list \<Rightarrow> location_row list" where
  "save_location r table = table @ [\<lparr>lv_subscriber = lr_subscriber r, lv_received = lr_received r\<rparr>]"

text \<open>The loop over a file: the rows of the transaction and what was written; a write that fails ends it.\<close>

fun process_locations ::
  "(pubkey \<Rightarrow> 'e + bool) \<Rightarrow> (bytes \<Rightarrow> 'e + bool) \<Rightarrow> (nat \<Rightarrow> bool) \<Rightarrow> nat \<Rightarrow> location_report list \<Rightarrow> location_row list \<Rightarrow>
   location_row list option \<times> (location_report \<times> location_status) list" where
  "process_locations authorized rewardable write_ok n [] table = (Some table, [])"
| "process_locations authorized rewardable write_ok n (r # rs) table =
     (let status = verify_location_report authorized rewardable r;
          table = (if status = LocationValid then save_location r table else table)
      in if write_ok n then
           let (res, out) = process_locations authorized rewardable write_ok (Suc n) rs table in (res, (r, status) # out)
         else (None, []))"

definition SUBSCRIBER_REWARD_PERIOD_IN_DAYS :: int where "SUBSCRIBER_REWARD_PERIOD_IN_DAYS = 1"

definition aggregate_location_shares :: "timestamp \<times> timestamp \<Rightarrow> location_row list \<Rightarrow> bytes list" where
  "aggregate_location_shares period table =
     remdups (map lv_subscriber (filter (\<lambda>r. snd period - days SUBSCRIBER_REWARD_PERIOD_IN_DAYS \<le> lv_received r \<and> lv_received r < snd period) table))"

definition clear_location_shares :: "timestamp \<Rightarrow> location_row list \<Rightarrow> location_row list" where
  "clear_location_shares ts table = filter (\<lambda>r. \<not> lv_received r < ts) table"

section \<open>Sums of sessions\<close>

lemma entry_update_get: "map_of (entry_update k d f m) k' = (if k' = k then Some (f (case map_of m k of None \<Rightarrow> d | Some v \<Rightarrow> v)) else map_of m k')"
  by (induction m) auto

lemma data_sessions_to_dc_spec:
  "map_of (data_sessions_to_dc sessions) p =
    (let own = filter (\<lambda>s. hs_pub_key s = p) sessions in
     if own = [] then None else Some \<lparr>hw_bytes = sum_list (map (\<lambda>s. hs_upload s + hs_download s) own), hw_dc = sum_list (map hs_num_dcs own)\<rparr>)"
proof (induction sessions rule: rev_induct)
  case Nil
  show ?case by (simp add: data_sessions_to_dc_def)
next
  case (snoc s ss)
  have step: "data_sessions_to_dc (ss @ [s]) =
      entry_update (hs_pub_key s) \<lparr>hw_bytes = 0, hw_dc = 0\<rparr> (add_session s) (data_sessions_to_dc ss)"
    by (simp add: data_sessions_to_dc_def)
  show ?case unfolding step entry_update_get using snoc.IH by (auto simp: Let_def add_session_def add.commute)
qed

lemma location_shares_spec:
  "distinct (aggregate_location_shares period table) \<and>
   (sub \<in> set (aggregate_location_shares period table) \<longleftrightarrow>
    (\<exists>r \<in> set table. lv_subscriber r = sub \<and> snd period - days 1 \<le> lv_received r \<and> lv_received r < snd period))"
  by (auto simp: aggregate_location_shares_def SUBSCRIBER_REWARD_PERIOD_IN_DAYS_def)

end
