(* ===== verification/Mobile_Speedtests.thy ===== *)
theory Mobile_Speedtests
  imports Oracles_Prelude Complex_Main
begin

text \<open>
  Speed tests of the mobile verifier (\<^verbatim>\<open>src/mobile_verifier/src/speedtests.rs\<close>,
  \<^verbatim>\<open>speedtests_average.rs\<close>) and the radio models (\<^verbatim>\<open>cell_type.rs\<close>).
  The table \<open>speedtests\<close> is the list of its rows, with the pair of key and
  timestamp as its primary key. Decimal constants are rational numbers; the gateway
  resolver is the answer it gives for a key.

  The lemmas show that a zero reward multiplier and an invalid average are the same
  thing, that better measurements never lower the tier, that an average lies
  between the smallest and the largest sample, and which rows the queries return.
\<close>

section \<open>Radio models\<close>

datatype cell_type =
  Nova436H | Nova430I | Neutrino430 | SercommIndoor | SercommOutdoor | CellTypeNone
| NovaGenericWifiIndoor | NovaGenericWifiOutdoor

datatype cell_type_label = CellTypeLabelNone | CBRS | Wifi

abbreviation CELLTYPE_NOVA_436H :: string where "CELLTYPE_NOVA_436H \<equiv> ''2AG32MBS3100196N''"
abbreviation CELLTYPE_NOVA_430I :: string where "CELLTYPE_NOVA_430I \<equiv> ''2AG32PBS3101S''"
abbreviation CELLTYPE_NEUTRINO_430 :: string where "CELLTYPE_NEUTRINO_430 \<equiv> ''2AG32PBS31010''"
abbreviation CELLTYPE_SERCCOMM_INDOOR :: string where "CELLTYPE_SERCCOMM_INDOOR \<equiv> ''P27-SCE4255W''"
abbreviation CELLTYPE_SERCCOMM_OUTDOOR :: string where "CELLTYPE_SERCCOMM_OUTDOOR \<equiv> ''P27-SCO4255PA10''"

definition starts_with :: "string \<Rightarrow> string \<Rightarrow> bool" where
  "starts_with s p \<longleftrightarrow> take (length p) s = p"

definition from_cbsd_id :: "string \<Rightarrow> cell_type option" where
  "from_cbsd_id s =
     (if starts_with s CELLTYPE_NOVA_436H then Some Nova436H
      else if starts_with s CELLTYPE_NOVA_430I then Some Nova430I
      else if starts_with s CELLTYPE_NEUTRINO_430 then Some Neutrino430
      else if starts_with s CELLTYPE_SERCCOMM_INDOOR then Some SercommIndoor
      else if starts_with s CELLTYPE_SERCCOMM_OUTDOOR then Some SercommOutdoor
      else None)"

fun to_label :: "cell_type \<Rightarrow> cell_type_label" where
  "to_label Nova436H = CBRS"
| "to_label Nova430I = CBRS"
| "to_label Neutrino430 = CBRS"
| "to_label SercommIndoor = CBRS"
| "to_label SercommOutdoor = CBRS"
| "to_label NovaGenericWifiIndoor = Wifi"
| "to_label NovaGenericWifiOutdoor = Wifi"
| "to_label CellTypeNone = CellTypeLabelNone"

text \<open>The distance is an \<open>i64\<close> in metres.\<close>

definition location_weight ::
  "cell_type \<Rightarrow> timestamp option \<Rightarrow> int option \<Rightarrow> u32 \<Rightarrow> rat" where
  "location_weight ct location_validation_timestamp distance max_distance_to_asserted =
     (if ct \<in> {NovaGenericWifiIndoor, NovaGenericWifiOutdoor} then
        (case (distance, location_validation_timestamp \<noteq> None) of
           (Some metres, True) \<Rightarrow>
             if metres \<le> int (unat max_distance_to_asserted) then 1
             else if metres > int (unat max_distance_to_asserted) then 1 / 4
             else 1 / 4
         | _ \<Rightarrow> 1 / 4)
      else 1)"

section \<open>Tiers\<close>

datatype speedtest_tier = Failed | Poor | Degraded | Acceptable

fun tier_rank :: "speedtest_tier \<Rightarrow> nat" where
  "tier_rank Failed = 0"
| "tier_rank Poor = 1"
| "tier_rank Degraded = 2"
| "tier_rank Acceptable = 3"

lemma tier_rank_inj: "tier_rank a = tier_rank b \<longleftrightarrow> a = b"
  by (cases a; cases b) auto

text \<open>The derived order of the enumeration is the order of its discriminants.\<close>

instantiation speedtest_tier :: linorder
begin

definition less_eq_speedtest_tier :: "speedtest_tier \<Rightarrow> speedtest_tier \<Rightarrow> bool" where
  "less_eq_speedtest_tier a b \<longleftrightarrow> tier_rank a \<le> tier_rank b"

definition less_speedtest_tier :: "speedtest_tier \<Rightarrow> speedtest_tier \<Rightarrow> bool" where
  "less_speedtest_tier a b \<longleftrightarrow> tier_rank a < tier_rank b"

instance
  by standard (auto simp: less_eq_speedtest_tier_def less_speedtest_tier_def tier_rank_inj)

end

definition mbps :: "u64 \<Rightarrow> u64" where
  "mbps n = n * 125000"

definition SPEEDTEST_LAPSE :: int where "SPEEDTEST_LAPSE = 48"
definition MIN_DOWNLOAD :: u64 where "MIN_DOWNLOAD = mbps 30"
definition MIN_UPLOAD :: u64 where "MIN_UPLOAD = mbps 2"
definition MAX_LATENCY :: u32 where "MAX_LATENCY = 100"
definition MIN_REQUIRED_SAMPLES :: nat where "MIN_REQUIRED_SAMPLES = 2"
definition SPEEDTEST_AVG_MAX_DATA_POINTS :: nat where "SPEEDTEST_AVG_MAX_DATA_POINTS = 6"

fun into_multiplier :: "speedtest_tier \<Rightarrow> rat" where
  "into_multiplier Acceptable = 1"
| "into_multiplier Degraded = 1 / 2"
| "into_multiplier Poor = 1 / 4"
| "into_multiplier Failed = 0"

definition from_download_speed :: "u64 \<Rightarrow> speedtest_tier" where
  "from_download_speed d =
     (if d \<ge> mbps 100 then Acceptable
      else if d \<ge> mbps 50 then Degraded
      else if d \<ge> mbps 30 then Poor
      else Failed)"

definition from_upload_speed :: "u64 \<Rightarrow> speedtest_tier" where
  "from_upload_speed u =
     (if u \<ge> mbps 10 then Acceptable
      else if u \<ge> mbps 5 then Degraded
      else if u \<ge> mbps 2 then Poor
      else Failed)"

definition from_latency :: "u32 \<Rightarrow> speedtest_tier" where
  "from_latency l =
     (if l \<le> 50 then Acceptable
      else if l \<le> 75 then Degraded
      else if l \<le> 100 then Poor
      else Failed)"

definition calculate_tier :: "nat \<Rightarrow> u64 \<Rightarrow> u64 \<Rightarrow> u32 \<Rightarrow> speedtest_tier" where
  "calculate_tier window_size upload_avg download_avg latency_avg =
     (if window_size < MIN_REQUIRED_SAMPLES then Failed
      else min (min (from_download_speed download_avg) (from_upload_speed upload_avg))
             (from_latency latency_avg))"

datatype speedtest_avg_validity =
  TooFewSamples | SlowDownloadSpeed | SlowUploadSpeed | HighLatency | ValidAverage

definition validity :: "nat \<Rightarrow> u64 \<Rightarrow> u64 \<Rightarrow> u32 \<Rightarrow> speedtest_avg_validity" where
  "validity window_size upload_avg download_avg latency_avg =
     (if window_size < MIN_REQUIRED_SAMPLES then TooFewSamples
      else if download_avg < MIN_DOWNLOAD then SlowDownloadSpeed
      else if upload_avg < MIN_UPLOAD then SlowUploadSpeed
      else if latency_avg > MAX_LATENCY then HighLatency
      else ValidAverage)"

section \<open>Averages\<close>

record cell_speedtest =
  st_pubkey :: pubkey
  st_serial :: string
  st_timestamp :: timestamp
  st_upload :: u64
  st_download :: u64
  st_latency :: u32

record speedtest_average =
  avg_pubkey :: pubkey
  avg_window_size :: nat
  avg_upload :: u64
  avg_download :: u64
  avg_latency :: u32
  avg_validity :: speedtest_avg_validity
  avg_multiplier :: rat
  avg_speedtests :: "cell_speedtest list"

definition average_from :: "cell_speedtest list \<Rightarrow> speedtest_average" where
  "average_from speedtests =
     (let pk = (if speedtests = [] then [] else st_pubkey (last speedtests));
          sum_upload = sum_list (map st_upload speedtests);
          sum_download = sum_list (map st_download speedtests);
          sum_latency = sum_list (map st_latency speedtests);
          window_size = length speedtests
      in if window_size > 0 then
           let u = sum_upload div of_nat window_size;
               d = sum_download div of_nat window_size;
               l = sum_latency div of_nat window_size
           in \<lparr>avg_pubkey = pk, avg_window_size = window_size, avg_upload = u, avg_download = d,
               avg_latency = l, avg_validity = validity window_size u d l,
               avg_multiplier = into_multiplier (calculate_tier window_size u d l),
               avg_speedtests = speedtests\<rparr>
         else
           \<lparr>avg_pubkey = pk, avg_window_size = 0, avg_upload = sum_upload, avg_download = sum_download,
            avg_latency = sum_latency, avg_validity = TooFewSamples, avg_multiplier = 0,
            avg_speedtests = speedtests\<rparr>)"

section \<open>The table of speed tests\<close>

type_synonym speedtest_table = "cell_speedtest list"

definition save_speedtest :: "speedtest_table \<Rightarrow> cell_speedtest \<Rightarrow> speedtest_table" where
  "save_speedtest db s =
     (if \<exists>r\<in>set db. st_pubkey r = st_pubkey s \<and> st_timestamp r = st_timestamp s then db else db @ [s])"

definition newest_first :: "cell_speedtest list \<Rightarrow> cell_speedtest list" where
  "newest_first rows = sort_key (\<lambda>r. - st_timestamp r) rows"

definition get_latest_speedtests_for_pubkey ::
  "speedtest_table \<Rightarrow> pubkey \<Rightarrow> timestamp \<Rightarrow> cell_speedtest list" where
  "get_latest_speedtests_for_pubkey db pk ts =
     take SPEEDTEST_AVG_MAX_DATA_POINTS
       (newest_first (filter (\<lambda>r. st_pubkey r = pk \<and> st_timestamp r \<ge> ts - hours SPEEDTEST_LAPSE \<and>
                                  st_timestamp r \<le> ts) db))"

definition aggregate_epoch_speedtests :: "speedtest_table \<Rightarrow> timestamp \<Rightarrow> pubkey \<rightharpoonup> cell_speedtest list" where
  "aggregate_epoch_speedtests db epoch_end pk =
     (let start = epoch_end - hours SPEEDTEST_LAPSE;
          rows = take SPEEDTEST_AVG_MAX_DATA_POINTS
            (newest_first (filter (\<lambda>r. st_pubkey r = pk \<and> st_timestamp r \<ge> start \<and> st_timestamp r < epoch_end) db))
      in if rows = [] then None else Some rows)"

definition aggregate_epoch_averages :: "speedtest_table \<Rightarrow> timestamp \<Rightarrow> pubkey \<rightharpoonup> speedtest_average" where
  "aggregate_epoch_averages db epoch_end pk = map_option average_from (aggregate_epoch_speedtests db epoch_end pk)"

definition clear_speedtests :: "speedtest_table \<Rightarrow> timestamp \<Rightarrow> speedtest_table" where
  "clear_speedtests db epoch_end = filter (\<lambda>r. \<not> st_timestamp r < epoch_end - hours SPEEDTEST_LAPSE) db"

section \<open>Processing a file\<close>

datatype speedtest_result = SpeedtestValid | SpeedtestGatewayNotFound

definition validate_speedtest :: "(pubkey \<Rightarrow> 'e + 'g option) \<Rightarrow> cell_speedtest \<Rightarrow> 'e + speedtest_result" where
  "validate_speedtest resolve_gateway_info s =
     res_bind (resolve_gateway_info (st_pubkey s))
       (\<lambda>g. Inr (if g \<noteq> None then SpeedtestValid else SpeedtestGatewayNotFound))"

text \<open>The table, the averages written and the verified speed tests written.\<close>

record speedtest_state =
  sp_table :: speedtest_table
  sp_averages :: "speedtest_average list"
  sp_verified :: "(cell_speedtest \<times> speedtest_result) list"

definition process_speedtest ::
  "(pubkey \<Rightarrow> 'e + 'g option) \<Rightarrow> cell_speedtest \<Rightarrow> speedtest_state \<Rightarrow> 'e + speedtest_state" where
  "process_speedtest resolve s st =
     res_bind (validate_speedtest resolve s) (\<lambda>result.
       let st = (if result = SpeedtestValid
                 then let db = save_speedtest (sp_table st) s;
                          latest = get_latest_speedtests_for_pubkey db (st_pubkey s) (st_timestamp s)
                      in st\<lparr>sp_table := db, sp_averages := sp_averages st @ [average_from latest]\<rparr>
                 else st)
       in Inr (st\<lparr>sp_verified := sp_verified st @ [(s, result)]\<rparr>))"

fun process_speedtests ::
  "(pubkey \<Rightarrow> 'e + 'g option) \<Rightarrow> cell_speedtest list \<Rightarrow> speedtest_state \<Rightarrow> 'e + speedtest_state" where
  "process_speedtests resolve [] st = Inr st"
| "process_speedtests resolve (s # ss) st = res_bind (process_speedtest resolve s st) (process_speedtests resolve ss)"

section \<open>Tiers, validity and multipliers\<close>

lemmas tier_order = less_eq_speedtest_tier_def less_speedtest_tier_def

lemma into_multiplier_zero_iff: "into_multiplier t = 0 \<longleftrightarrow> t = Failed"
  by (cases t) auto

lemma into_multiplier_mono: "a \<le> b \<Longrightarrow> into_multiplier a \<le> into_multiplier b"
  by (cases a; cases b) (auto simp: tier_order)

lemma min_Failed_iff: "min a b = Failed \<longleftrightarrow> a = Failed \<or> b = Failed" for a b :: speedtest_tier
  by (cases a; cases b) (auto simp: min_def tier_order)

lemma tier_Failed_iff:
  "from_download_speed d = Failed \<longleftrightarrow> d < MIN_DOWNLOAD"
  "from_upload_speed u = Failed \<longleftrightarrow> u < MIN_UPLOAD"
  "from_latency l = Failed \<longleftrightarrow> l > MAX_LATENCY"
  by (auto simp: from_download_speed_def from_upload_speed_def from_latency_def MIN_DOWNLOAD_def
      MIN_UPLOAD_def MAX_LATENCY_def mbps_def word_le_nat_alt word_less_nat_alt)

lemma calculate_tier_Failed_iff: "calculate_tier n u d l = Failed \<longleftrightarrow> validity n u d l \<noteq> ValidAverage"
  by (auto simp: calculate_tier_def validity_def min_Failed_iff tier_Failed_iff)

text \<open>An average has the multiplier zero exactly when it is not valid, and a valid one
  has at least the multiplier 1/4.\<close>

theorem average_multiplier_valid:
  "if avg_validity (average_from ss) = ValidAverage
   then 1 / 4 \<le> avg_multiplier (average_from ss) \<and> avg_multiplier (average_from ss) \<le> 1
   else avg_multiplier (average_from ss) = 0"
proof -
  have m: "into_multiplier t \<noteq> 0 \<Longrightarrow> 1 / 4 \<le> into_multiplier t \<and> into_multiplier t \<le> 1" for t
    by (cases t) auto
  show ?thesis
    using calculate_tier_Failed_iff m by (auto simp: average_from_def Let_def into_multiplier_zero_iff)
qed

text \<open>Faster uploads and downloads, lower latency and more samples never lower the
  multiplier.\<close>

theorem multiplier_monotone:
  assumes "n \<le> n'" "u \<le> u'" "d \<le> d'" "l' \<le> l"
  shows "into_multiplier (calculate_tier n u d l) \<le> into_multiplier (calculate_tier n' u' d' l')"
proof -
  have "from_download_speed d \<le> from_download_speed d'" "from_upload_speed u \<le> from_upload_speed u'"
      "from_latency l \<le> from_latency l'"
    using assms by (auto simp: from_download_speed_def from_upload_speed_def from_latency_def tier_order)
  then have "min (min (from_download_speed d) (from_upload_speed u)) (from_latency l) \<le>
      min (min (from_download_speed d') (from_upload_speed u')) (from_latency l')"
    by (intro min.mono)
  moreover have "Failed \<le> t" for t by (cases t) (simp_all add: tier_order)
  ultimately have "calculate_tier n u d l \<le> calculate_tier n' u' d' l'"
    using assms(1) unfolding calculate_tier_def by auto
  then show ?thesis by (rule into_multiplier_mono)
qed

theorem multiplier_monotone_witness:
  "into_multiplier (calculate_tier 2 (mbps 5) (mbps 50) 60) \<le> into_multiplier (calculate_tier 3 (mbps 10) (mbps 100) 50)"
  using multiplier_monotone [of 2 3 "mbps 5" "mbps 10" "mbps 50" "mbps 100" 50 60] by (simp add: mbps_def)

section \<open>Averages\<close>

lemma unat_sum_list:
  "(\<Sum>x\<leftarrow>xs. unat (f x)) < 2 ^ LENGTH('b) \<Longrightarrow> unat (sum_list (map f xs)) = (\<Sum>x\<leftarrow>xs. unat (f x))"
  for f :: "'a \<Rightarrow> 'b::len word"
proof (induction xs)
  case (Cons x xs)
  then show ?case using unat_add_small [of "f x" "sum_list (map f xs)"] by simp
qed simp

lemma sum_list_bounds:
  fixes f :: "'a \<Rightarrow> nat"
  assumes "\<forall>x\<in>set xs. lo \<le> f x \<and> f x \<le> hi"
  shows "lo * length xs \<le> (\<Sum>x\<leftarrow>xs. f x)" "(\<Sum>x\<leftarrow>xs. f x) \<le> hi * length xs"
  using assms by (induction xs) auto

lemma average_between:
  fixes f :: "'a \<Rightarrow> 'b::len word"
  assumes "xs \<noteq> []" "(\<Sum>x\<leftarrow>xs. unat (f x)) < 2 ^ LENGTH('b)" "length xs < 2 ^ LENGTH('b)"
    and "\<forall>x\<in>set xs. lo \<le> unat (f x) \<and> unat (f x) \<le> hi"
  shows "lo \<le> unat (sum_list (map f xs) div of_nat (length xs))"
    "unat (sum_list (map f xs) div of_nat (length xs)) \<le> hi"
proof -
  let ?s = "\<Sum>x\<leftarrow>xs. unat (f x)"
  have u: "unat (sum_list (map f xs) div of_nat (length xs)) = ?s div length xs"
    using assms(2,3) by (simp add: unat_div unat_sum_list unat_of_nat)
  have b: "lo * length xs \<le> ?s" "?s \<le> hi * length xs" using sum_list_bounds [OF assms(4)] by auto
  have "lo * length xs div length xs \<le> ?s div length xs" "?s div length xs \<le> hi * length xs div length xs"
    using div_le_mono [OF b(1), of "length xs"] div_le_mono [OF b(2), of "length xs"] by blast+
  then show "lo \<le> unat (sum_list (map f xs) div of_nat (length xs))"
    "unat (sum_list (map f xs) div of_nat (length xs)) \<le> hi" using assms(1) u by auto
qed

text \<open>When the sums do not overflow, each average lies between the smallest and the
  largest sample.\<close>

theorem average_bounds:
  assumes "ss \<noteq> []" "length ss \<le> 6"
    and "\<forall>s\<in>set ss. unat (st_upload s) < 2 ^ 61 \<and> unat (st_download s) < 2 ^ 61 \<and> unat (st_latency s) < 2 ^ 29"
    and "\<forall>s\<in>set ss. unat (st_upload s) \<in> {u1..u2} \<and> unat (st_download s) \<in> {d1..d2} \<and> unat (st_latency s) \<in> {l1..l2}"
  shows "unat (avg_upload (average_from ss)) \<in> {u1..u2} \<and> unat (avg_download (average_from ss)) \<in> {d1..d2} \<and>
    unat (avg_latency (average_from ss)) \<in> {l1..l2}"
proof -
  have big: "(\<Sum>s\<leftarrow>ss. f s) < 2 ^ (k + 3)" if "\<forall>s\<in>set ss. f s < 2 ^ k" for f :: "cell_speedtest \<Rightarrow> nat" and k
  proof -
    have "(\<Sum>s\<leftarrow>ss. f s) \<le> 2 ^ k * length ss" using sum_list_bounds(2) [of ss 0 f "2 ^ k"] that by (simp add: less_imp_le)
    also have "\<dots> \<le> 2 ^ k * 6" using assms(2) by simp
    also have "\<dots> < 2 ^ (k + 3)" by (simp add: power_add)
    finally show ?thesis .
  qed
  have len: "length ss < 2 ^ 64" "length ss < 2 ^ 32" using assms(2) by auto
  have s: "(\<Sum>s\<leftarrow>ss. unat (st_upload s)) < 2 ^ 64" "(\<Sum>s\<leftarrow>ss. unat (st_download s)) < 2 ^ 64"
      "(\<Sum>s\<leftarrow>ss. unat (st_latency s)) < 2 ^ 32"
    using big [of "\<lambda>s. unat (st_upload s)" 61] big [of "\<lambda>s. unat (st_download s)" 61]
      big [of "\<lambda>s. unat (st_latency s)" 29] assms(3) by auto
  show ?thesis
    using average_between [OF assms(1), of st_upload u1 u2] average_between [OF assms(1), of st_download d1 d2]
      average_between [OF assms(1), of st_latency l1 l2] s len assms(1,4)
    by (simp add: average_from_def Let_def)
qed

theorem average_bounds_witness:
  "let s = \<lparr>st_pubkey = ''a'', st_serial = [], st_timestamp = 0, st_upload = 10, st_download = 20, st_latency = 30\<rparr>
   in unat (avg_upload (average_from [s, s\<lparr>st_upload := 13\<rparr>])) \<in> {10..13}"
  using average_bounds [of "[\<lparr>st_pubkey = ''a'', st_serial = [], st_timestamp = 0, st_upload = 10, st_download = 20, st_latency = 30\<rparr>,
     \<lparr>st_pubkey = ''a'', st_serial = [], st_timestamp = 0, st_upload = 13, st_download = 20, st_latency = 30\<rparr>]" 10 13 20 20 30 30]
  by (simp add: Let_def)

section \<open>Queries\<close>

lemma newest_first_sorted: "sorted_wrt (\<lambda>a b. st_timestamp a \<ge> st_timestamp b) (newest_first rows)"
proof -
  have "sorted (map (\<lambda>r. - st_timestamp r) (newest_first rows))" unfolding newest_first_def by (rule sorted_sort_key)
  then show ?thesis by (simp add: sorted_wrt_map)
qed

lemma set_newest_first [simp]: "set (newest_first rows) = set rows"
  by (simp add: newest_first_def)

lemma save_speedtest_member:
  "\<exists>r\<in>set (save_speedtest db s). st_pubkey r = st_pubkey s \<and> st_timestamp r = st_timestamp s"
  by (auto simp: save_speedtest_def)

text \<open>A valid speed test adds one average to the output, over at most six speed tests of the
  same gateway of the last 48 hours, the newest of which has the time of the new one; an
  unknown gateway adds none. Every speed test is written to the verified sink with its
  result.\<close>

theorem process_speedtest_window:
  assumes "resolve (st_pubkey s) = Inr g"
  shows "\<exists>st' w. process_speedtest resolve s st = Inr st' \<and>
    sp_averages st' = (if g = None then sp_averages st else sp_averages st @ [average_from w]) \<and>
    sp_verified st' = sp_verified st @ [(s, if g = None then SpeedtestGatewayNotFound else SpeedtestValid)] \<and>
    (g \<noteq> None \<longrightarrow> w \<noteq> [] \<and> length w \<le> 6 \<and> st_timestamp (hd w) = st_timestamp s \<and>
      sorted_wrt (\<lambda>a b. st_timestamp a \<ge> st_timestamp b) w \<and>
      (\<forall>r\<in>set w. r \<in> set (sp_table st') \<and> st_pubkey r = st_pubkey s \<and>
         st_timestamp s - hours 48 \<le> st_timestamp r \<and> st_timestamp r \<le> st_timestamp s))"
proof (cases "g = None")
  case True
  then show ?thesis using assms by (simp add: process_speedtest_def validate_speedtest_def)
next
  case False
  define db where "db = save_speedtest (sp_table st) s"
  define rows where "rows = filter (\<lambda>r. st_pubkey r = st_pubkey s \<and> st_timestamp r \<ge> st_timestamp s - hours SPEEDTEST_LAPSE \<and>
     st_timestamp r \<le> st_timestamp s) db"
  define w where "w = get_latest_speedtests_for_pubkey db (st_pubkey s) (st_timestamp s)"
  have w: "w = take 6 (newest_first rows)"
    by (simp add: w_def rows_def get_latest_speedtests_for_pubkey_def SPEEDTEST_AVG_MAX_DATA_POINTS_def)
  obtain r where r: "r \<in> set db" "st_pubkey r = st_pubkey s" "st_timestamp r = st_timestamp s"
    using save_speedtest_member [of "sp_table st" s] by (auto simp: db_def)
  then have "r \<in> set (newest_first rows)" by (simp add: rows_def SPEEDTEST_LAPSE_def)
  then obtain x xs where x: "newest_first rows = x # xs" by (cases "newest_first rows") auto
  then have "st_timestamp r \<le> st_timestamp x" "x \<in> set rows"
    using newest_first_sorted [of rows] \<open>r \<in> set (newest_first rows)\<close> set_newest_first [of rows] by auto
  then have hd: "st_timestamp (hd w) = st_timestamp s" "w \<noteq> []" using r x by (auto simp: w rows_def)
  have set: "\<forall>r\<in>set w. r \<in> set rows" using set_newest_first [of rows] by (auto simp: w dest: in_set_takeD)
  have "sorted_wrt (\<lambda>a b. st_timestamp a \<ge> st_timestamp b) w"
    unfolding w by (rule sorted_wrt_take [OF newest_first_sorted])
  moreover have "process_speedtest resolve s st = Inr (st\<lparr>sp_table := db, sp_averages := sp_averages st @ [average_from w],
      sp_verified := sp_verified st @ [(s, SpeedtestValid)]\<rparr>)"
    using assms False by (simp add: process_speedtest_def validate_speedtest_def Let_def db_def w_def)
  moreover have "length w \<le> 6" by (simp add: w)
  ultimately show ?thesis
    using False hd set
    by (intro exI [of _ "st\<lparr>sp_table := db, sp_averages := sp_averages st @ [average_from w],
          sp_verified := sp_verified st @ [(s, SpeedtestValid)]\<rparr>"] exI [of _ w])
       (simp add: rows_def SPEEDTEST_LAPSE_def)
qed

theorem process_speedtest_window_witness:
  "\<exists>st'. process_speedtest (\<lambda>_. Inr (Some ()) :: unit + unit option)
     \<lparr>st_pubkey = ''a'', st_serial = [], st_timestamp = 7, st_upload = 10, st_download = 20, st_latency = 30\<rparr>
     \<lparr>sp_table = [], sp_averages = [], sp_verified = []\<rparr> = Inr st' \<and> length (sp_averages st') = 1"
  using process_speedtest_window [of "\<lambda>_. Inr (Some ()) :: unit + unit option"
     "\<lparr>st_pubkey = ''a'', st_serial = [], st_timestamp = 7, st_upload = 10, st_download = 20, st_latency = 30\<rparr>" "Some ()"
     "\<lparr>sp_table = [], sp_averages = [], sp_verified = []\<rparr>"] by auto

text \<open>Clearing the table at the end of an epoch changes the averages of no epoch that
  ends then or later.\<close>

theorem clear_keeps_averages:
  assumes "epoch_end \<le> later"
  shows "aggregate_epoch_averages (clear_speedtests db epoch_end) later = aggregate_epoch_averages db later"
proof
  fix pk
  have "filter (\<lambda>r. st_pubkey r = pk \<and> st_timestamp r \<ge> later - hours SPEEDTEST_LAPSE \<and> st_timestamp r < later)
      (clear_speedtests db epoch_end) =
    filter (\<lambda>r. st_pubkey r = pk \<and> st_timestamp r \<ge> later - hours SPEEDTEST_LAPSE \<and> st_timestamp r < later) db"
    unfolding clear_speedtests_def filter_filter
    by (rule filter_cong) (use assms in \<open>auto simp: SPEEDTEST_LAPSE_def\<close>)
  then show "aggregate_epoch_averages (clear_speedtests db epoch_end) later pk = aggregate_epoch_averages db later pk"
    unfolding aggregate_epoch_averages_def aggregate_epoch_speedtests_def Let_def by (simp only:)
qed

theorem clear_keeps_averages_witness:
  "aggregate_epoch_averages (clear_speedtests [] 5) 6 = aggregate_epoch_averages [] 6"
  using clear_keeps_averages [of 5 6 "[]"] by simp

end
