(* ===== verification/Mobile_Heartbeats.thy ===== *)
theory Mobile_Heartbeats
  imports Mobile_Coverage Mobile_Speedtests
begin

text \<open>
  Heartbeats of the mobile verifier (\<^verbatim>\<open>src/mobile_verifier/src/heartbeats/\<close>,
  \<^verbatim>\<open>geofence.rs\<close>). The gateway service, the geometry of \<open>h3o\<close>, the identifiers of
  \<open>uuid\<close> and the truncation of \<open>chrono\<close> to the hour are fields of an environment;
  the law the proofs need of them is \<open>trunc_law\<close>. Validation reads the committed
  tables, the processing of a file writes to those of its transaction.

  The lemmas show when a heartbeat is valid and how much its location is trusted, that a
  radio has one row per hour however often it is heard, when a radio keeps its
  seniority, and that a rewarded radio was heard in twelve different hours.
\<close>

section \<open>Heartbeats\<close>

record heartbeat =
  hb_kind :: hb_type
  hb_hotspot :: pubkey
  hb_cbsd_id :: "string option"
  hb_operation_mode :: bool
  hb_lat :: rat
  hb_lon :: rat
  hb_coverage_object :: "uuid option"
  hb_location_ts :: "timestamp option"
  hb_ts :: timestamp

record cbrs_report =
  cbr_received :: timestamp
  cbr_pubkey :: pubkey
  cbr_cbsd_id :: string
  cbr_operation_mode :: bool
  cbr_lat :: rat
  cbr_lon :: rat
  cbr_coverage_object :: bytes

record wifi_report =
  wfr_received :: timestamp
  wfr_pubkey :: pubkey
  wfr_lat :: rat
  wfr_lon :: rat
  wfr_operation_mode :: bool
  wfr_location_ts :: "timestamp option"
  wfr_coverage_object :: bytes

definition from_cbrs_report :: "(bytes \<Rightarrow> uuid option) \<Rightarrow> cbrs_report \<Rightarrow> heartbeat" where
  "from_cbrs_report uuid_from_slice v =
     \<lparr>hb_kind = HbCbrs, hb_hotspot = cbr_pubkey v, hb_cbsd_id = Some (cbr_cbsd_id v),
      hb_operation_mode = cbr_operation_mode v, hb_lat = cbr_lat v, hb_lon = cbr_lon v,
      hb_coverage_object = uuid_from_slice (cbr_coverage_object v), hb_location_ts = None,
      hb_ts = cbr_received v\<rparr>"

definition from_wifi_report :: "(bytes \<Rightarrow> uuid option) \<Rightarrow> wifi_report \<Rightarrow> heartbeat" where
  "from_wifi_report uuid_from_slice v =
     \<lparr>hb_kind = HbWifi, hb_hotspot = wfr_pubkey v, hb_cbsd_id = None,
      hb_operation_mode = wfr_operation_mode v, hb_lat = wfr_lat v, hb_lon = wfr_lon v,
      hb_coverage_object = uuid_from_slice (wfr_coverage_object v), hb_location_ts = wfr_location_ts v,
      hb_ts = wfr_received v\<rparr>"

datatype gateway_resolution = GatewayNotFound | GatewayNotAsserted | AssertedLocation u64

definition resolve_gateway :: "'e + u64 option option \<Rightarrow> 'e + gateway_resolution" where
  "resolve_gateway info =
     res_bind info (\<lambda>i. Inr (case i of
        None \<Rightarrow> GatewayNotFound
      | Some (Some location) \<Rightarrow> AssertedLocation location
      | Some None \<Rightarrow> GatewayNotAsserted))"

text \<open>The services and libraries: the metadata of a gateway, the validity of coordinates and of
  cells, the distance in metres of the centre of a cell to coordinates, the cell of
  coordinates at the resolution of the geofence, and truncation to the hour.\<close>

record 'e hb_env =
  env_gateway_info :: "pubkey \<Rightarrow> 'e + u64 option option"
  env_latlng_ok :: "rat \<Rightarrow> rat \<Rightarrow> bool"
  env_valid_cell :: "u64 \<Rightarrow> bool"
  env_distance_m :: "u64 \<Rightarrow> rat \<Rightarrow> rat \<Rightarrow> rat"
  env_geofence_cell :: "rat \<Rightarrow> rat \<Rightarrow> u64 option"
  env_regions :: "u64 \<Rightarrow> bool"
  env_trunc_hour :: "timestamp \<Rightarrow> timestamp option"

definition in_valid_region :: "('e, 'z) hb_env_scheme \<Rightarrow> heartbeat \<Rightarrow> bool" where
  "in_valid_region env hb =
     (if env_latlng_ok env (hb_lat hb) (hb_lon hb) then
        (case env_geofence_cell env (hb_lat hb) (hb_lon hb) of
           None \<Rightarrow> False
         | Some cell \<Rightarrow> env_regions env cell)
      else False)"

text \<open>The cells of a region file after base64 and gzip: little-endian words of eight bytes.
  A shorter rest panics.\<close>

datatype region_error = RegionPanic | NotACell u64

definition from_le_bytes :: "bytes \<Rightarrow> u64" where
  "from_le_bytes bs = foldr (\<lambda>b acc. ucast b + 256 * acc) bs 0"

fun region_cells :: "(u64 \<Rightarrow> bool) \<Rightarrow> bytes list \<Rightarrow> region_error + u64 list" where
  "region_cells valid_cell [] = Inr []"
| "region_cells valid_cell (c # cs) =
     (if length c \<noteq> 8 then Inl RegionPanic
      else let index = from_le_bytes c in
        if valid_cell index then res_bind (region_cells valid_cell cs) (\<lambda>xs. Inr (index # xs))
        else Inl (NotACell index))"

definition region_file :: "(u64 \<Rightarrow> bool) \<Rightarrow> bytes \<Rightarrow> region_error + u64 list" where
  "region_file valid_cell uncompressed = region_cells valid_cell (chunks 8 uncompressed)"

fun valid_mapping_regions :: "(u64 \<Rightarrow> bool) \<Rightarrow> bytes list \<Rightarrow> region_error + u64 list" where
  "valid_mapping_regions valid_cell [] = Inr []"
| "valid_mapping_regions valid_cell (f # fs) =
     res_bind (region_file valid_cell f) (\<lambda>xs.
     res_bind (valid_mapping_regions valid_cell fs) (\<lambda>ys. Inr (xs @ ys)))"

section \<open>Validation\<close>

datatype hb_validity =
  HbValid | BadCoverageObject | NoSuchCoverageObject | BadCbsdId | NotOperational
| HeartbeatOutsideRange | InvalidLatLon | UnsupportedLocation | HbGatewayNotFound | HbGatewayNotAsserted

record validated_heartbeat =
  vh_heartbeat :: heartbeat
  vh_cell_type :: cell_type
  vh_multiplier :: rat
  vh_distance :: "int option"
  vh_meta :: "coverage_object_meta option"
  vh_validity :: hb_validity

datatype 'e hb_error = HbPanic | ResolverError 'e | InvalidCell u64 | RoundingError | ExpectedCbsdId | NotNullViolation

definition new_validated ::
  "heartbeat \<Rightarrow> cell_type \<Rightarrow> rat \<Rightarrow> int option \<Rightarrow> coverage_object_meta option \<Rightarrow> hb_validity \<Rightarrow> validated_heartbeat" where
  "new_validated hb ct w d meta v =
     \<lparr>vh_heartbeat = hb, vh_cell_type = ct, vh_multiplier = w, vh_distance = d, vh_meta = meta, vh_validity = v\<rparr>"

definition vh_is_valid :: "validated_heartbeat \<Rightarrow> bool" where
  "vh_is_valid v \<longleftrightarrow> vh_validity v = HbValid"

text \<open>\<open>None\<close> is the panic of \<open>unwrap\<close>.\<close>

definition hb_key :: "heartbeat \<Rightarrow> key_type option" where
  "hb_key hb =
     (case hb_kind hb of
        HbCbrs \<Rightarrow> map_option CbrsKey (hb_cbsd_id hb)
      | HbWifi \<Rightarrow> Some (WifiKey (hb_hotspot hb)))"

definition truncated_timestamp :: "('e, 'z) hb_env_scheme \<Rightarrow> heartbeat \<Rightarrow> 'e hb_error + timestamp" where
  "truncated_timestamp env hb = ok_or RoundingError (env_trunc_hour env (hb_ts hb))"

definition hb_id :: "('e, 'z) hb_env_scheme \<Rightarrow> heartbeat \<Rightarrow> 'e hb_error + (string \<times> timestamp)" where
  "hb_id env hb =
     res_bind (truncated_timestamp env hb) (\<lambda>ts.
     case hb_kind hb of
       HbCbrs \<Rightarrow> res_bind (ok_or ExpectedCbsdId (hb_cbsd_id hb)) (\<lambda>id. Inr (id, ts))
     | HbWifi \<Rightarrow> Inr (hb_hotspot hb, ts))"

text \<open>\<open>f64::round\<close>, half away from zero, and the saturating casts.\<close>

definition round_f64 :: "rat \<Rightarrow> int" where
  "round_f64 x = (if x \<ge> 0 then \<lfloor>x + 1 / 2\<rfloor> else \<lceil>x - 1 / 2\<rceil>)"

definition as_i64 :: "int \<Rightarrow> int" where
  "as_i64 n = max (- (2 ^ 63)) (min (2 ^ 63 - 1) n)"

definition as_u32 :: "int \<Rightarrow> u32" where
  "as_u32 n = word_of_int (max 0 (min (2 ^ 32 - 1) n))"

definition asserted_distance :: "('e, 'z) hb_env_scheme \<Rightarrow> heartbeat \<Rightarrow> u64 \<Rightarrow> int option" where
  "asserted_distance env hb location =
     (if env_valid_cell env location \<and> env_latlng_ok env (hb_lat hb) (hb_lon hb)
      then Some (as_i64 (round_f64 (env_distance_m env location (hb_lat hb) (hb_lon hb)))) else None)"

definition wifi_multiplier ::
  "('e, 'z) hb_env_scheme \<Rightarrow> heartbeat \<Rightarrow> int \<Rightarrow> u64 list \<Rightarrow> u32 \<Rightarrow> u32 \<Rightarrow> rat" where
  "wifi_multiplier env hb distance_to_asserted hexes max_asserted max_coverage =
     (if hb_location_ts hb \<noteq> None \<and> distance_to_asserted \<le> int (unat max_asserted) \<and>
         as_u32 (round_f64 (max_distance_m (\<lambda>h. env_distance_m env h (hb_lat hb) (hb_lon hb)) hexes)) \<le> max_coverage
      then 1 else 1 / 4)"

definition validated_cell_type :: "heartbeat \<Rightarrow> coverage_object_meta \<Rightarrow> cell_type option" where
  "validated_cell_type hb meta =
     (case hb_kind hb of
        HbCbrs \<Rightarrow> (case hb_cbsd_id hb of Some i \<Rightarrow> from_cbsd_id i | None \<Rightarrow> None)
      | HbWifi \<Rightarrow> Some (if cm_indoor meta then NovaGenericWifiIndoor else NovaGenericWifiOutdoor))"

text \<open>The part of \<open>validate\<close> after the coverage object is found.\<close>

definition validate_located ::
  "('e, 'z) hb_env_scheme \<Rightarrow> u32 \<Rightarrow> u32 \<Rightarrow> timestamp \<times> timestamp \<Rightarrow> heartbeat \<Rightarrow>
   coverage_object_meta \<Rightarrow> u64 list \<Rightarrow> 'e hb_error + validated_heartbeat" where
  "validate_located env max_asserted max_coverage epoch hb meta hexes =
     (let bad = (\<lambda>ct v. Inr (new_validated hb ct 0 None (Some meta) v)) in
      case validated_cell_type hb meta of
        None \<Rightarrow> bad CellTypeNone BadCbsdId
      | Some ct \<Rightarrow>
          if \<not> hb_operation_mode hb then bad ct NotOperational
          else if \<not> (fst epoch \<le> hb_ts hb \<and> hb_ts hb < snd epoch) then bad ct HeartbeatOutsideRange
          else if \<not> env_latlng_ok env (hb_lat hb) (hb_lon hb) then bad ct InvalidLatLon
          else if \<not> in_valid_region env hb then bad ct UnsupportedLocation
          else res_bind (map_err ResolverError (resolve_gateway (env_gateway_info env (hb_hotspot hb)))) (\<lambda>g.
            case g of
              GatewayNotFound \<Rightarrow> bad ct HbGatewayNotFound
            | GatewayNotAsserted \<Rightarrow>
                if hb_kind hb = HbWifi then bad ct HbGatewayNotAsserted
                else Inr (new_validated hb ct 1 None (Some meta) HbValid)
            | AssertedLocation location \<Rightarrow>
                if hb_kind hb = HbWifi then
                  if env_valid_cell env location then
                    let d = as_i64 (round_f64 (env_distance_m env location (hb_lat hb) (hb_lon hb))) in
                    Inr (new_validated hb ct (wifi_multiplier env hb d hexes max_asserted max_coverage)
                           (Some d) (Some meta) HbValid)
                  else Inl (InvalidCell location)
                else Inr (new_validated hb ct 1 None (Some meta) HbValid)))"

definition validate_heartbeat ::
  "('e, 'z) hb_env_scheme \<Rightarrow> u32 \<Rightarrow> u32 \<Rightarrow> timestamp \<times> timestamp \<Rightarrow> coverage_tables \<Rightarrow>
   hex_cache \<Rightarrow> heartbeat \<Rightarrow> hex_cache \<times> ('e hb_error + validated_heartbeat)" where
  "validate_heartbeat env max_asserted max_coverage epoch committed c hb =
     (case hb_coverage_object hb of
        None \<Rightarrow> (c, Inr (new_validated hb CellTypeNone 0 None None BadCoverageObject))
      | Some u \<Rightarrow>
          (case hb_key hb of
             None \<Rightarrow> (c, Inl HbPanic)
           | Some key \<Rightarrow>
               (case fetch_coverage_object (env_valid_cell env) c committed u key of
                  None \<Rightarrow> (c, Inl HbPanic)
                | Some (c, None) \<Rightarrow> (c, Inr (new_validated hb CellTypeNone 0 None None NoSuchCoverageObject))
                | Some (c, Some (meta, hexes)) \<Rightarrow>
                    (c, validate_located env max_asserted max_coverage epoch hb meta hexes))))"

section \<open>Seniority\<close>

datatype seniority_action = NoAction | InsertSeniority timestamp update_reason | UpdateSeniority timestamp

definition determine_update_action ::
  "heartbeat \<Rightarrow> timestamp \<Rightarrow> timestamp \<Rightarrow> ('a) seniority_scheme option \<Rightarrow> seniority_action" where
  "determine_update_action hb coverage_claim_time modeled_coverage_start latest =
     (case latest of
        Some prev \<Rightarrow>
          if hb_coverage_object hb \<noteq> Some (sen_uuid prev) then
            if sen_update_reason prev = HeartbeatNotSeen \<and> coverage_claim_time < sen_ts prev then NoAction
            else InsertSeniority coverage_claim_time NewCoverageClaimTime
          else if hb_ts hb - sen_last_heartbeat prev > days 3 \<and> coverage_claim_time < hb_ts hb then
            InsertSeniority (hb_ts hb) HeartbeatNotSeen
          else UpdateSeniority (sen_ts prev)
      | None \<Rightarrow>
          if hb_ts hb - modeled_coverage_start > days 3 then InsertSeniority (hb_ts hb) HeartbeatNotSeen
          else InsertSeniority coverage_claim_time NewCoverageClaimTime)"

definition seniority_write :: "key_type \<Rightarrow> seniority_action \<Rightarrow> (key_type \<times> u64 \<times> update_reason) list" where
  "seniority_write key action =
     (case action of
        InsertSeniority t reason \<Rightarrow> [(key, word_of_int (t div nanos_per_sec), reason)]
      | _ \<Rightarrow> [])"

definition execute_seniority ::
  "key_type \<Rightarrow> heartbeat \<Rightarrow> uuid \<Rightarrow> seniority_action \<Rightarrow> seniority_row list \<Rightarrow> seniority_row list" where
  "execute_seniority key hb u action rows =
     (case action of
        NoAction \<Rightarrow> rows
      | InsertSeniority t reason \<Rightarrow>
          upsert_row (\<lambda>r. (sen_radio_key r, sen_radio_type r, sen_ts r))
            (\<lambda>r new. r\<lparr>sen_uuid := sen_uuid new, sen_last_heartbeat := sen_last_heartbeat new,
                       sen_update_reason := sen_update_reason new\<rparr>)
            \<lparr>sen_uuid = u, sen_ts = t, sen_last_heartbeat = hb_ts hb, sen_inserted_at = hb_ts hb,
             sen_update_reason = reason, sen_radio_key = key_text key, sen_radio_type = hb_kind hb\<rparr> rows
      | UpdateSeniority t \<Rightarrow>
          map (\<lambda>r. if sen_radio_key r = key_text key \<and> sen_ts r = t
                   then r\<lparr>sen_last_heartbeat := hb_ts hb\<rparr> else r) rows)"

section \<open>Saving heartbeats\<close>

record hb_row =
  hbr_key :: string
  hbr_hotspot :: pubkey
  hbr_cell_type :: cell_type
  hbr_latest :: timestamp
  hbr_truncated :: timestamp
  hbr_coverage :: uuid
  hbr_multiplier :: rat

record hb_state =
  st_db :: coverage_tables
  st_cbrs :: "hb_row list"
  st_wifi :: "hb_row list"
  st_cache :: "(string \<times> timestamp) list"
  st_claims :: claim_time_cache
  st_hexes :: hex_cache
  st_heartbeat_sink :: "validated_heartbeat list"
  st_seniority_sink :: "(key_type \<times> u64 \<times> update_reason) list"

definition invalidate_others :: "timestamp \<Rightarrow> timestamp option \<Rightarrow> key_type \<Rightarrow> uuid option \<Rightarrow> coverage_tables \<Rightarrow> coverage_tables" where
  "invalidate_others ts inserted key u db =
     db\<lparr>ct_objects := map (\<lambda>o'.
        if (case (inserted, u) of (Some t, Some u) \<Rightarrow> obj_inserted_at o' < t \<and> obj_uuid o' \<noteq> u | _ \<Rightarrow> False) \<and>
           obj_invalidated_at o' = None \<and> obj_radio_key o' = key_text key
        then o'\<lparr>obj_invalidated_at := Some ts\<rparr> else o') (ct_objects db)\<rparr>"

definition upsert_hb :: "hb_row \<Rightarrow> hb_row list \<Rightarrow> hb_row list" where
  "upsert_hb = upsert_row (\<lambda>r. (hbr_key r, hbr_truncated r))
     (\<lambda>r new. r\<lparr>hbr_latest := hbr_latest new, hbr_coverage := hbr_coverage new\<rparr>)"

definition save_heartbeat ::
  "('e, 'z) hb_env_scheme \<Rightarrow> key_type \<Rightarrow> validated_heartbeat \<Rightarrow> hb_state \<Rightarrow> hb_state \<times> 'e hb_error option" where
  "save_heartbeat env key v st =
     (let hb = vh_heartbeat v;
          st = st\<lparr>st_db := invalidate_others (hb_ts hb) (map_option cm_inserted_at (vh_meta v)) key
                            (hb_coverage_object hb) (st_db st)\<rparr>
      in case truncated_timestamp env hb of
           Inl e \<Rightarrow> (st, Some e)
         | Inr ts \<Rightarrow>
             (case hb_coverage_object hb of
                None \<Rightarrow> (st, Some NotNullViolation)
              | Some u \<Rightarrow>
                  let row = \<lparr>hbr_key = key_text key, hbr_hotspot = hb_hotspot hb, hbr_cell_type = vh_cell_type v,
                             hbr_latest = hb_ts hb, hbr_truncated = ts, hbr_coverage = u,
                             hbr_multiplier = vh_multiplier v\<rparr>
                  in (case hb_kind hb of
                        HbCbrs \<Rightarrow> (st\<lparr>st_cbrs := upsert_hb row (st_cbrs st)\<rparr>, None)
                      | HbWifi \<Rightarrow> (st\<lparr>st_wifi := upsert_hb row (st_wifi st)\<rparr>, None))))"

definition update_seniority ::
  "timestamp \<Rightarrow> key_type \<Rightarrow> heartbeat \<Rightarrow> hb_state \<Rightarrow> hb_state" where
  "update_seniority modeled_coverage_start key hb st =
     (let (claims, ct) = fetch_coverage_claim_time (st_claims st) (st_db st) key (hb_coverage_object hb);
          st = st\<lparr>st_claims := claims\<rparr>
      in case (ct, hb_coverage_object hb) of
           (Some claim_time, Some u) \<Rightarrow>
             let action = determine_update_action hb claim_time modeled_coverage_start (fetch_latest (st_db st) key);
                 db = st_db st
             in st\<lparr>st_seniority_sink := st_seniority_sink st @ seniority_write key action,
                   st_db := db\<lparr>ct_seniority := execute_seniority key hb u action (ct_seniority db)\<rparr>\<rparr>
         | _ \<Rightarrow> st)"

text \<open>One turn of the loop of \<open>process_validated_heartbeats\<close>.\<close>

definition process_validated ::
  "('e, 'z) hb_env_scheme \<Rightarrow> timestamp \<Rightarrow> validated_heartbeat \<Rightarrow> hb_state \<Rightarrow> hb_state \<times> 'e hb_error option" where
  "process_validated env modeled_coverage_start v st =
     (let hb = vh_heartbeat v; st = st\<lparr>st_heartbeat_sink := st_heartbeat_sink st @ [v]\<rparr> in
      if \<not> vh_is_valid v then (st, None)
      else case hb_key hb of
        None \<Rightarrow> (st, Some HbPanic)
      | Some key \<Rightarrow>
          let st = update_seniority modeled_coverage_start key hb st in
          (case hb_id env hb of
             Inl e \<Rightarrow> (st, Some e)
           | Inr rid \<Rightarrow>
               if rid \<in> set (st_cache st) then (st, None)
               else case save_heartbeat env key v st of
                      (st, Some e) \<Rightarrow> (st, Some e)
                    | (st, None) \<Rightarrow> (st\<lparr>st_cache := rid # st_cache st\<rparr>, None)))"

text \<open>The stream of a file. The daemon for CBRS radios drops a heartbeat whose hour is in the
  cache before it is validated.\<close>

fun hb_loop ::
  "('e, 'z) hb_env_scheme \<Rightarrow> bool \<Rightarrow> u32 \<Rightarrow> u32 \<Rightarrow> timestamp \<Rightarrow> timestamp \<times> timestamp \<Rightarrow> coverage_tables \<Rightarrow>
   heartbeat list \<Rightarrow> hb_state \<Rightarrow> hb_state \<times> 'e hb_error option" where
  "hb_loop env drop_cached ma mc start epoch committed [] st = (st, None)"
| "hb_loop env drop_cached ma mc start epoch committed (hb # hbs) st =
     (case (if drop_cached then map_err (\<lambda>_. HbPanic) (hb_id env hb) else Inr ([], 0)) of
        Inl e \<Rightarrow> (st, Some e)
      | Inr rid \<Rightarrow>
          if drop_cached \<and> rid \<in> set (st_cache st) then hb_loop env drop_cached ma mc start epoch committed hbs st
          else case validate_heartbeat env ma mc epoch committed (st_hexes st) hb of
            (c, Inl e) \<Rightarrow> (st\<lparr>st_hexes := c\<rparr>, Some e)
          | (c, Inr v) \<Rightarrow>
              (case process_validated env start v (st\<lparr>st_hexes := c\<rparr>) of
                 (st, Some e) \<Rightarrow> (st, Some e)
               | (st, None) \<Rightarrow> hb_loop env drop_cached ma mc start epoch committed hbs st))"

definition cbrs_process_file ::
  "('e, 'z) hb_env_scheme \<Rightarrow> u32 \<Rightarrow> u32 \<Rightarrow> timestamp \<Rightarrow> (bytes \<Rightarrow> uuid option) \<Rightarrow> timestamp \<Rightarrow> cbrs_report list \<Rightarrow>
   hb_state \<Rightarrow> hb_state \<times> 'e hb_error option" where
  "cbrs_process_file env ma mc start uuid_from_slice file_ts reports st =
     hb_loop env True ma mc start (file_ts - hours 3, file_ts + minutes 30) (st_db st)
       (map (from_cbrs_report uuid_from_slice) reports) st"

definition wifi_process_file ::
  "('e, 'z) hb_env_scheme \<Rightarrow> u32 \<Rightarrow> u32 \<Rightarrow> timestamp \<Rightarrow> (bytes \<Rightarrow> uuid option) \<Rightarrow> timestamp \<Rightarrow> wifi_report list \<Rightarrow>
   hb_state \<Rightarrow> hb_state \<times> 'e hb_error option" where
  "wifi_process_file env ma mc start uuid_from_slice file_ts reports st =
     hb_loop env False ma mc start (file_ts - hours 3, file_ts + minutes 30) (st_db st)
       (map (from_wifi_report uuid_from_slice) reports) st"

definition clear_heartbeats :: "timestamp \<Rightarrow> hb_state \<Rightarrow> hb_state" where
  "clear_heartbeats ts st =
     st\<lparr>st_cbrs := filter (\<lambda>r. \<not> hbr_truncated r < ts) (st_cbrs st),
        st_wifi := filter (\<lambda>r. \<not> hbr_truncated r < ts) (st_wifi st)\<rparr>"

section \<open>Radios with enough heartbeats\<close>

record heartbeat_reward =
  hr_hotspot :: pubkey
  hr_cbsd_id :: "string option"
  hr_cell_type :: cell_type
  hr_multiplier :: rat
  hr_coverage_object :: uuid

definition MINIMUM_HEARTBEAT_COUNT :: nat where "MINIMUM_HEARTBEAT_COUNT = 12"

definition reward_key :: "heartbeat_reward \<Rightarrow> key_type" where
  "reward_key r = (case hr_cbsd_id r of Some i \<Rightarrow> CbrsKey i | None \<Rightarrow> WifiKey (hr_hotspot r))"

definition reward_id :: "heartbeat_reward \<Rightarrow> string option" where
  "reward_id r =
     (case to_label (hr_cell_type r) of
        CBRS \<Rightarrow> hr_cbsd_id r
      | Wifi \<Rightarrow> Some (hr_hotspot r)
      | CellTypeLabelNone \<Rightarrow> None)"

definition reward_weight :: "heartbeat_reward \<Rightarrow> rat" where
  "reward_weight r = hr_multiplier r"

definition in_epoch :: "timestamp \<times> timestamp \<Rightarrow> hb_row \<Rightarrow> bool" where
  "in_epoch epoch r \<longleftrightarrow> fst epoch \<le> hbr_truncated r \<and> hbr_truncated r < snd epoch"

definition avg :: "rat list \<Rightarrow> rat" where
  "avg xs = sum_list xs / of_nat (length xs)"

text \<open>The common table expressions of \<^verbatim>\<open>valid_radios.sql\<close>. \<open>DISTINCT ON\<close> keeps the first
  row of each group in the order of the query.\<close>

definition latest_cbrs_hotspot :: "hb_row list \<Rightarrow> string \<Rightarrow> pubkey" where
  "latest_cbrs_hotspot rows rid =
     hbr_hotspot (hd (sort_key (\<lambda>r. - hbr_latest r) (filter (\<lambda>r. hbr_key r = rid) rows)))"

definition latest_uuid :: "hb_row list \<Rightarrow> pubkey \<Rightarrow> string \<Rightarrow> uuid option" where
  "latest_uuid rows hotspot rid =
     (case sort_key (\<lambda>r. - hbr_truncated r) (filter (\<lambda>r. hbr_hotspot r = hotspot \<and> hbr_key r = rid) rows) of
        [] \<Rightarrow> None
      | r # _ \<Rightarrow> Some (hbr_coverage r))"

definition radio_groups :: "hb_row list \<Rightarrow> (string \<times> cell_type) list" where
  "radio_groups rows = remdups (map (\<lambda>r. (hbr_key r, hbr_cell_type r)) rows)"

definition group_rows :: "hb_row list \<Rightarrow> string \<times> cell_type \<Rightarrow> hb_row list" where
  "group_rows rows g = filter (\<lambda>r. hbr_key r = fst g \<and> hbr_cell_type r = snd g) rows"

definition table_rewards ::
  "(hb_row list \<Rightarrow> string \<Rightarrow> pubkey) \<Rightarrow> (string \<Rightarrow> string option) \<Rightarrow> hb_row list \<Rightarrow> heartbeat_reward list" where
  "table_rewards hotspot_of cbsd_of rows =
     concat (map (\<lambda>g.
       if MINIMUM_HEARTBEAT_COUNT \<le> length (group_rows rows g) then
         (case latest_uuid rows (hotspot_of rows (fst g)) (fst g) of
            None \<Rightarrow> []
          | Some u \<Rightarrow> [\<lparr>hr_hotspot = hotspot_of rows (fst g), hr_cbsd_id = cbsd_of (fst g), hr_cell_type = snd g,
                       hr_multiplier = avg (map hbr_multiplier (group_rows rows g)), hr_coverage_object = u\<rparr>])
       else []) (radio_groups rows))"

definition validated_rewards :: "hb_state \<Rightarrow> timestamp \<times> timestamp \<Rightarrow> heartbeat_reward list" where
  "validated_rewards st epoch =
     table_rewards latest_cbrs_hotspot Some (filter (in_epoch epoch) (st_cbrs st)) @
     table_rewards (\<lambda>_ rid. rid) (\<lambda>_. None) (filter (in_epoch epoch) (st_wifi st))"

section \<open>When a heartbeat is valid\<close>

lemma new_validated_simps [simp]:
  "vh_heartbeat (new_validated hb ct w d meta v) = hb" "vh_cell_type (new_validated hb ct w d meta v) = ct"
  "vh_multiplier (new_validated hb ct w d meta v) = w" "vh_distance (new_validated hb ct w d meta v) = d"
  "vh_meta (new_validated hb ct w d meta v) = meta" "vh_validity (new_validated hb ct w d meta v) = v"
  by (simp_all add: new_validated_def)

lemma wifi_multiplier_cases:
  "wifi_multiplier env hb d hexes ma mc = 1 \<or> wifi_multiplier env hb d hexes ma mc = 1 / 4"
  by (simp add: wifi_multiplier_def)

text \<open>The conditions under which a heartbeat counts, given its coverage object.\<close>

definition gateway_accepts :: "('e, 'z) hb_env_scheme \<Rightarrow> heartbeat \<Rightarrow> bool" where
  "gateway_accepts env hb \<longleftrightarrow> (case env_gateway_info env (hb_hotspot hb) of
     Inr (Some (Some _)) \<Rightarrow> True | Inr (Some None) \<Rightarrow> hb_kind hb = HbCbrs | _ \<Rightarrow> False)"

definition heartbeat_counts ::
  "('e, 'z) hb_env_scheme \<Rightarrow> timestamp \<times> timestamp \<Rightarrow> coverage_tables \<Rightarrow> heartbeat \<Rightarrow> bool" where
  "heartbeat_counts env epoch db hb \<longleftrightarrow>
     (\<exists>u key meta. hb_coverage_object hb = Some u \<and> hb_key hb = Some key \<and> query_meta db u key = Some meta \<and>
        validated_cell_type hb meta \<noteq> None) \<and>
     hb_operation_mode hb \<and> fst epoch \<le> hb_ts hb \<and> hb_ts hb < snd epoch \<and>
     env_latlng_ok env (hb_lat hb) (hb_lon hb) \<and> in_valid_region env hb \<and> gateway_accepts env hb"

lemma validate_located_valid:
  assumes "validate_located env ma mc epoch hb meta hexes = Inr v"
  shows "vh_heartbeat v = hb \<and> vh_meta v = Some meta \<and>
    (vh_is_valid v \<longleftrightarrow> validated_cell_type hb meta \<noteq> None \<and> hb_operation_mode hb \<and> fst epoch \<le> hb_ts hb \<and>
       hb_ts hb < snd epoch \<and> env_latlng_ok env (hb_lat hb) (hb_lon hb) \<and> in_valid_region env hb \<and> gateway_accepts env hb) \<and>
    (vh_is_valid v \<longrightarrow> Some (vh_cell_type v) = validated_cell_type hb meta) \<and>
    (vh_multiplier v = 0 \<longleftrightarrow> \<not> vh_is_valid v) \<and>
    (vh_is_valid v \<longrightarrow> vh_multiplier v = 1 \<or> vh_multiplier v = 1 / 4 \<and> hb_kind hb = HbWifi)"
  using assms wifi_multiplier_cases [of env hb _ hexes ma mc]
  by (cases "env_gateway_info env (hb_hotspot hb)"; cases "hb_kind hb")
    (auto simp: validate_located_def Let_def resolve_gateway_def gateway_accepts_def vh_is_valid_def wifi_multiplier_def
       split: option.splits if_splits)

text \<open>C33: a heartbeat is valid exactly when its coverage object is known for the radio and not
  superseded, the radio model is known, the radio is operational, the time lies in the epoch,
  the coordinates are good and inside the geofence, and the gateway is known (and, for Wi-Fi,
  has asserted a location). Its location multiplier is zero exactly when it is not valid, and
  otherwise one or, for Wi-Fi only, a quarter. The cache of hexagons stays true to the tables.\<close>

theorem heartbeat_valid_iff:
  assumes "hex_cache_ok c db" "validate_heartbeat env ma mc epoch db c hb = (c', Inr v)"
  shows "vh_heartbeat v = hb \<and> hex_cache_ok c' db \<and> (vh_is_valid v \<longleftrightarrow> heartbeat_counts env epoch db hb) \<and>
    (vh_multiplier v = 0 \<longleftrightarrow> \<not> vh_is_valid v) \<and>
    (vh_is_valid v \<longrightarrow> vh_multiplier v = 1 \<or> vh_multiplier v = 1 / 4 \<and> hb_kind hb = HbWifi)"
proof (cases "hb_coverage_object hb")
  case None
  then show ?thesis using assms by (auto simp: validate_heartbeat_def heartbeat_counts_def vh_is_valid_def)
next
  case (Some u)
  then obtain key where key: "hb_key hb = Some key"
    using assms(2) by (auto simp: validate_heartbeat_def split: option.splits)
  then obtain r where fetch: "fetch_coverage_object (env_valid_cell env) c db u key = Some (c', r)"
    using assms(2) Some by (auto simp: validate_heartbeat_def split: option.splits)
  note db = fetch_coverage_object_db [OF assms(1) fetch]
  show ?thesis
  proof (cases "query_meta db u key")
    case None
    then show ?thesis using assms(2) Some key fetch db
      by (auto simp: validate_heartbeat_def heartbeat_counts_def vh_is_valid_def)
  next
    case (Some meta)
    then have "validate_located env ma mc epoch hb meta (query_hexes db u) = Inr v"
      using assms(2) \<open>hb_coverage_object hb = Some u\<close> key fetch db by (simp add: validate_heartbeat_def)
    from validate_located_valid [OF this] show ?thesis
      using Some \<open>hb_coverage_object hb = Some u\<close> key db by (auto simp: heartbeat_counts_def)
  qed
qed

section \<open>One row per radio and hour\<close>

definition hb_rows_ok :: "('e, 'z) hb_env_scheme \<Rightarrow> hb_row list \<Rightarrow> bool" where
  "hb_rows_ok env rows \<longleftrightarrow> distinct (map (\<lambda>r. (hbr_key r, hbr_truncated r)) rows) \<and>
     (\<forall>r \<in> set rows. env_trunc_hour env (hbr_latest r) = Some (hbr_truncated r) \<and>
        (hbr_multiplier r = 1 \<or> hbr_multiplier r = 1 / 4))"

definition hb_state_ok :: "('e, 'z) hb_env_scheme \<Rightarrow> hb_state \<Rightarrow> bool" where
  "hb_state_ok env st \<longleftrightarrow> hb_rows_ok env (st_cbrs st) \<and> hb_rows_ok env (st_wifi st)"

lemma upsert_row_keys:
  "(\<And>r. key (upd r new) = key r) \<Longrightarrow> key ` set (upsert_row key upd new rs) = insert (key new) (key ` set rs)"
  by (induction rs) auto

lemma upsert_row_distinct:
  assumes "\<And>r. key (upd r new) = key r" "distinct (map key rs)"
  shows "distinct (map key (upsert_row key upd new rs))"
  using assms(2) by (induction rs) (auto simp: assms(1) upsert_row_keys [of key upd new, OF assms(1)])

lemma upsert_row_all:
  assumes "\<forall>r \<in> set rs. P r" "P new" "\<And>r. P r \<Longrightarrow> key r = key new \<Longrightarrow> P (upd r new)"
  shows "\<forall>r \<in> set (upsert_row key upd new rs). P r"
  using assms by (induction rs) auto

lemma upsert_hb_ok:
  assumes "hb_rows_ok env rows" "env_trunc_hour env (hbr_latest row) = Some (hbr_truncated row)"
    "hbr_multiplier row = 1 \<or> hbr_multiplier row = 1 / 4"
  shows "hb_rows_ok env (upsert_hb row rows)"
proof -
  have "\<forall>r \<in> set (upsert_hb row rows). env_trunc_hour env (hbr_latest r) = Some (hbr_truncated r) \<and>
        (hbr_multiplier r = 1 \<or> hbr_multiplier r = 1 / 4)"
    unfolding upsert_hb_def by (rule upsert_row_all) (use assms in \<open>auto simp: hb_rows_ok_def\<close>)
  moreover have "distinct (map (\<lambda>r. (hbr_key r, hbr_truncated r)) (upsert_hb row rows))"
    unfolding upsert_hb_def by (rule upsert_row_distinct) (use assms(1) in \<open>auto simp: hb_rows_ok_def\<close>)
  ultimately show ?thesis by (simp add: hb_rows_ok_def)
qed

lemma save_heartbeat_ok:
  assumes "hb_state_ok env st" "save_heartbeat env key v st = (st', e)"
    "vh_multiplier v = 1 \<or> vh_multiplier v = 1 / 4"
  shows "hb_state_ok env st'"
  using assms
  by (auto simp: save_heartbeat_def Let_def hb_state_ok_def truncated_timestamp_def result_simps
      split: sum.splits option.splits hb_type.splits intro!: upsert_hb_ok)

lemma update_seniority_rows [simp]:
  "st_cbrs (update_seniority start key hb st) = st_cbrs st" "st_wifi (update_seniority start key hb st) = st_wifi st"
  by (auto simp: update_seniority_def Let_def split: prod.splits option.splits)

lemma process_validated_ok:
  assumes "hb_state_ok env st" "process_validated env start v st = (st', e)"
    "vh_is_valid v \<longrightarrow> vh_multiplier v = 1 \<or> vh_multiplier v = 1 / 4"
  shows "hb_state_ok env st'"
proof (cases "vh_is_valid v")
  case False
  then show ?thesis using assms by (auto simp: process_validated_def hb_state_ok_def)
next
  case True
  define after where "after k = update_seniority start k (vh_heartbeat v) (st\<lparr>st_heartbeat_sink := st_heartbeat_sink st @ [v]\<rparr>)" for k
  have ok: "hb_state_ok env (after k)" for k using assms(1) by (simp add: hb_state_ok_def after_def)
  have save: "hb_state_ok env s'" if "save_heartbeat env k v (after k) = (s', e')" for k s' e'
    using save_heartbeat_ok [OF ok that] assms(3) True by blast
  then have cache: "hb_state_ok env (s'\<lparr>st_cache := c\<rparr>)" if "save_heartbeat env k v (after k) = (s', e')" for k s' e' c
    using save [OF that] by (simp add: hb_state_ok_def)
  show ?thesis
  proof (cases "hb_key (vh_heartbeat v)")
    case None
    then show ?thesis using assms(1,2) True by (auto simp: process_validated_def hb_state_ok_def)
  next
    case (Some k)
    then show ?thesis using assms(2) True ok save cache
      by (auto simp: process_validated_def Let_def after_def [symmetric]
          split: option.splits sum.splits if_splits prod.splits)
  qed
qed

lemma vh_is_valid_new [simp]: "vh_is_valid (new_validated hb ct w d meta v) \<longleftrightarrow> v = HbValid"
  by (simp add: vh_is_valid_def)

lemma validate_heartbeat_multiplier:
  assumes "validate_heartbeat env ma mc epoch db c hb = (c', Inr v)" "vh_is_valid v"
  shows "vh_multiplier v = 1 \<or> vh_multiplier v = 1 / 4"
proof -
  obtain meta hexes where "validate_located env ma mc epoch hb meta hexes = Inr v"
    using assms by (auto simp: validate_heartbeat_def split: option.splits)
  from validate_located_valid [OF this] show ?thesis using assms(2) by blast
qed

lemma hb_loop_ok:
  "hb_state_ok env st \<Longrightarrow> hb_loop env d ma mc start epoch committed hbs st = (st', e) \<Longrightarrow> hb_state_ok env st'"
proof (induction hbs arbitrary: st)
  case (Cons hb hbs)
  have ok: "hb_state_ok env (st\<lparr>st_hexes := c\<rparr>)" for c using Cons.prems(1) by (simp add: hb_state_ok_def)
  have process: "hb_state_ok env s" if "validate_heartbeat env ma mc epoch committed (st_hexes st) hb = (c, Inr v)"
    "process_validated env start v (st\<lparr>st_hexes := c\<rparr>) = (s, e')" for c v s e'
    using process_validated_ok [OF ok that(2)] validate_heartbeat_multiplier [OF that(1)] by blast
  show ?case using Cons.prems
    by (auto split: sum.splits if_splits prod.splits option.splits intro: ok Cons.IH dest: process)
qed simp

section \<open>Rewarded radios were heard\<close>

definition trunc_law :: "('e, 'z) hb_env_scheme \<Rightarrow> bool" where
  "trunc_law env \<longleftrightarrow> (\<forall>t r. env_trunc_hour env t = Some r \<longrightarrow> r \<le> t \<and> t < r + hours 1 \<and> r mod hours 1 = 0)"

lemma avg_bounds:
  assumes "xs \<noteq> []" "\<forall>x \<in> set xs. lo \<le> x \<and> x \<le> hi"
  shows "lo \<le> avg xs \<and> avg xs \<le> hi"
proof -
  have "of_nat (length xs) * lo \<le> sum_list xs \<and> sum_list xs \<le> of_nat (length xs) * hi"
    using assms(2)
  proof (induction xs)
    case (Cons a xs)
    then show ?case by (simp add: algebra_simps add_mono)
  qed simp
  then show ?thesis using assms(1) by (simp add: avg_def field_simps)
qed

lemma distinct_group:
  "distinct (map (\<lambda>r. (hbr_key r, hbr_truncated r)) rows) \<Longrightarrow> distinct (map hbr_truncated (group_rows rows g))"
  by (auto simp: group_rows_def distinct_map inj_on_def)

lemma hb_rows_ok_filter: "hb_rows_ok env rows \<Longrightarrow> hb_rows_ok env (filter P rows)"
  by (auto simp: hb_rows_ok_def distinct_map inj_on_def)

lemma group_heard:
  assumes "hb_rows_ok env rows" "12 \<le> length (group_rows rows g)"
  shows "12 \<le> card (hbr_truncated ` set (group_rows rows g)) \<and>
    1 / 4 \<le> avg (map hbr_multiplier (group_rows rows g)) \<and> avg (map hbr_multiplier (group_rows rows g)) \<le> 1"
proof -
  let ?G = "group_rows rows g"
  have "distinct (map hbr_truncated ?G)" using assms(1) distinct_group by (simp add: hb_rows_ok_def)
  then have "card (hbr_truncated ` set ?G) = length ?G" using distinct_card by fastforce
  moreover have "1 / 4 \<le> avg (map hbr_multiplier ?G) \<and> avg (map hbr_multiplier ?G) \<le> 1"
    by (rule avg_bounds) (use assms in \<open>auto simp: hb_rows_ok_def group_rows_def\<close>)
  ultimately show ?thesis using assms(2) by simp
qed

lemma table_rewards_mem:
  "r \<in> set (table_rewards hotspot_of cbsd_of rows) \<Longrightarrow>
   \<exists>g. 12 \<le> length (group_rows rows g) \<and> hr_hotspot r = hotspot_of rows (fst g) \<and> hr_cbsd_id r = cbsd_of (fst g) \<and>
     hr_cell_type r = snd g \<and> hr_multiplier r = avg (map hbr_multiplier (group_rows rows g))"
  by (auto simp: table_rewards_def MINIMUM_HEARTBEAT_COUNT_def split: if_splits option.splits)

text \<open>The rows behind a reward.\<close>

definition rows_of_reward :: "hb_state \<Rightarrow> timestamp \<times> timestamp \<Rightarrow> heartbeat_reward \<Rightarrow> hb_row list" where
  "rows_of_reward st epoch r =
     filter (\<lambda>row. in_epoch epoch row \<and> hbr_key row = key_text (reward_key r) \<and> hbr_cell_type row = hr_cell_type r)
       (if is_cbrs (reward_key r) then st_cbrs st else st_wifi st)"

lemma rewards_heard:
  assumes "hb_state_ok env st" "r \<in> set (validated_rewards st epoch)"
  shows "12 \<le> card (hbr_truncated ` set (rows_of_reward st epoch r)) \<and> 1 / 4 \<le> reward_weight r \<and> reward_weight r \<le> 1"
proof -
  have rows: "group_rows (filter (in_epoch epoch) rows) g =
      filter (\<lambda>row. in_epoch epoch row \<and> hbr_key row = fst g \<and> hbr_cell_type row = snd g) rows" for rows g
    by (auto simp: group_rows_def intro: filter_cong)
  from assms(2) consider
      "r \<in> set (table_rewards latest_cbrs_hotspot Some (filter (in_epoch epoch) (st_cbrs st)))"
    | "r \<in> set (table_rewards (\<lambda>_ rid. rid) (\<lambda>_. None) (filter (in_epoch epoch) (st_wifi st)))"
    by (auto simp: validated_rewards_def)
  then show ?thesis
  proof cases
    case 1
    then obtain g where g: "12 \<le> length (group_rows (filter (in_epoch epoch) (st_cbrs st)) g)"
      "hr_cbsd_id r = Some (fst g)" "hr_cell_type r = snd g"
      "hr_multiplier r = avg (map hbr_multiplier (group_rows (filter (in_epoch epoch) (st_cbrs st)) g))"
      using table_rewards_mem [OF 1] by auto
    have "rows_of_reward st epoch r = group_rows (filter (in_epoch epoch) (st_cbrs st)) g"
      by (simp add: rows_of_reward_def reward_key_def g(2,3) rows)
    then show ?thesis using group_heard [OF hb_rows_ok_filter g(1)] assms(1) g(4)
      by (auto simp: hb_state_ok_def reward_weight_def)
  next
    case 2
    then obtain g where g: "12 \<le> length (group_rows (filter (in_epoch epoch) (st_wifi st)) g)"
      "hr_cbsd_id r = None" "hr_hotspot r = fst g" "hr_cell_type r = snd g"
      "hr_multiplier r = avg (map hbr_multiplier (group_rows (filter (in_epoch epoch) (st_wifi st)) g))"
      using table_rewards_mem [OF 2] by auto
    have "rows_of_reward st epoch r = group_rows (filter (in_epoch epoch) (st_wifi st)) g"
      by (simp add: rows_of_reward_def reward_key_def g(2,3,4) rows)
    then show ?thesis using group_heard [OF hb_rows_ok_filter g(1)] assms(1) g(5)
      by (auto simp: hb_state_ok_def reward_weight_def)
  qed
qed

text \<open>C11: whatever heartbeats a file holds, repeated or out of order, a radio is rewarded for an
  epoch only when it was heard in at least twelve different full hours of the epoch, and the
  weight of the reward lies between a quarter and one.\<close>

theorem rewarded_radio_heard_twelve_hours:
  assumes "trunc_law env" "hb_state_ok env st" "hb_loop env d ma mc start hb_epoch committed hbs st = (st', e)"
    "r \<in> set (validated_rewards st' epoch)"
  shows "hb_state_ok env st' \<and> 12 \<le> card (hbr_truncated ` set (rows_of_reward st' epoch r)) \<and>
    (\<forall>row \<in> set (rows_of_reward st' epoch r). fst epoch \<le> hbr_truncated row \<and> hbr_truncated row < snd epoch \<and>
       hbr_truncated row mod hours 1 = 0 \<and> hbr_truncated row \<le> hbr_latest row \<and> hbr_latest row < hbr_truncated row + hours 1) \<and>
    1 / 4 \<le> reward_weight r \<and> reward_weight r \<le> 1"
proof -
  have ok: "hb_state_ok env st'" using hb_loop_ok assms(2,3) .
  have "fst epoch \<le> hbr_truncated row \<and> hbr_truncated row < snd epoch \<and>
       hbr_truncated row mod hours 1 = 0 \<and> hbr_truncated row \<le> hbr_latest row \<and> hbr_latest row < hbr_truncated row + hours 1"
    if "row \<in> set (rows_of_reward st' epoch r)" for row
  proof -
    have "in_epoch epoch row" "row \<in> set (st_cbrs st') \<union> set (st_wifi st')"
      using that by (auto simp: rows_of_reward_def split: if_splits)
    moreover from this have "env_trunc_hour env (hbr_latest row) = Some (hbr_truncated row)"
      using ok by (auto simp: hb_state_ok_def hb_rows_ok_def)
    ultimately show ?thesis using assms(1) unfolding trunc_law_def in_epoch_def by blast
  qed
  then show ?thesis using ok rewards_heard [OF ok assms(4)] by blast
qed

section \<open>Keeping seniority\<close>

lemma hd_sort_key_unique_min:
  assumes "x \<in> set xs" "\<And>y. y \<in> set xs \<Longrightarrow> y \<noteq> x \<Longrightarrow> f x < f y"
  shows "\<exists>ys. sort_key f xs = x # ys"
proof -
  obtain y ys where s: "sort_key f xs = y # ys"
    using assms(1) by (metis empty_iff list.exhaust list.set(1) set_sort)
  then have "sorted (map f (y # ys))" "set xs = set (y # ys)" by (metis sorted_sort_key, metis set_sort)
  then have "f y \<le> f x" "y \<in> set xs" using assms(1) by auto
  then have "y = x" using assms(2) by force
  then show ?thesis using s by blast
qed

lemma fetch_latest_SomeD:
  assumes "fetch_latest db key = Some r"
  shows "r \<in> set (ct_seniority db) \<and> sen_radio_key r = key_text key \<and>
    (\<forall>y \<in> set (ct_seniority db). sen_radio_key y = key_text key \<longrightarrow> sen_last_heartbeat y \<le> sen_last_heartbeat r)"
proof -
  let ?xs = "filter (\<lambda>r. sen_radio_key r = key_text key) (ct_seniority db)"
  obtain ys where s: "sort_key (\<lambda>r. - sen_last_heartbeat r) ?xs = r # ys"
    using assms by (auto simp: fetch_latest_def split: list.splits)
  then have "sorted (map (\<lambda>r. - sen_last_heartbeat r) (r # ys))" "set ?xs = set (r # ys)"
    by (metis sorted_sort_key, metis set_sort)
  then show ?thesis by fastforce
qed

lemma fetch_latest_SomeI:
  assumes "r \<in> set (ct_seniority db)" "sen_radio_key r = key_text key"
    "\<And>y. y \<in> set (ct_seniority db) \<Longrightarrow> sen_radio_key y = key_text key \<Longrightarrow> y \<noteq> r \<Longrightarrow>
       sen_last_heartbeat y < sen_last_heartbeat r"
  shows "fetch_latest db key = Some r"
proof -
  have "\<exists>ys. sort_key (\<lambda>r. - sen_last_heartbeat r) (filter (\<lambda>r. sen_radio_key r = key_text key) (ct_seniority db)) = r # ys"
    by (rule hd_sort_key_unique_min) (use assms in auto)
  then show ?thesis by (auto simp: fetch_latest_def)
qed

definition seniority_distinct :: "seniority_row list \<Rightarrow> bool" where
  "seniority_distinct rows \<longleftrightarrow> distinct (map (\<lambda>r. (sen_radio_key r, sen_ts r)) rows)"

lemma touch_keeps_latest:
  assumes "seniority_distinct (ct_seniority db)" "fetch_latest db key = Some r" "sen_last_heartbeat r < hb_ts hb"
    "rows = execute_seniority key hb u (UpdateSeniority (sen_ts r)) (ct_seniority db)"
  shows "seniority_distinct rows \<and> fetch_latest (db\<lparr>ct_seniority := rows\<rparr>) key = Some (r\<lparr>sen_last_heartbeat := hb_ts hb\<rparr>)"
proof -
  let ?upd = "\<lambda>x. if sen_radio_key x = key_text key \<and> sen_ts x = sen_ts r then x\<lparr>sen_last_heartbeat := hb_ts hb\<rparr> else x"
  have rows: "rows = map ?upd (ct_seniority db)" using assms(4) by (simp add: execute_seniority_def)
  have keys: "map (\<lambda>r. (sen_radio_key r, sen_ts r)) rows = map (\<lambda>r. (sen_radio_key r, sen_ts r)) (ct_seniority db)"
    unfolding rows by simp
  note r = fetch_latest_SomeD [OF assms(2)]
  have same: "x = r" if "x \<in> set (ct_seniority db)" "sen_radio_key x = key_text key" "sen_ts x = sen_ts r" for x
    using assms(1) that r unfolding seniority_distinct_def distinct_map inj_on_def by simp
  have "fetch_latest (db\<lparr>ct_seniority := rows\<rparr>) key = Some (r\<lparr>sen_last_heartbeat := hb_ts hb\<rparr>)"
  proof (rule fetch_latest_SomeI)
    show "r\<lparr>sen_last_heartbeat := hb_ts hb\<rparr> \<in> set (ct_seniority (db\<lparr>ct_seniority := rows\<rparr>))"
      using r unfolding rows by (auto simp: image_iff intro!: bexI [of _ r])
    show "sen_radio_key (r\<lparr>sen_last_heartbeat := hb_ts hb\<rparr>) = key_text key" using r by simp
    fix y assume y: "y \<in> set (ct_seniority (db\<lparr>ct_seniority := rows\<rparr>))" "sen_radio_key y = key_text key"
      "y \<noteq> r\<lparr>sen_last_heartbeat := hb_ts hb\<rparr>"
    then obtain x where x: "x \<in> set (ct_seniority db)" "y = ?upd x" unfolding rows by auto
    have "y = x" using x y(3) same by (auto split: if_splits)
    then have "sen_last_heartbeat y \<le> sen_last_heartbeat r" using r x(1) y(2) by simp
    then show "sen_last_heartbeat y < sen_last_heartbeat (r\<lparr>sen_last_heartbeat := hb_ts hb\<rparr>)"
      using assms(3) by simp
  qed
  then show ?thesis using keys assms(1) by (simp add: seniority_distinct_def)
qed

text \<open>A radio is heard without a gap of more than three days and with the same coverage object.\<close>

fun heard_regularly :: "uuid \<Rightarrow> timestamp \<Rightarrow> heartbeat list \<Rightarrow> bool" where
  "heard_regularly u t [] = True"
| "heard_regularly u t (hb # hbs) \<longleftrightarrow>
     t < hb_ts hb \<and> hb_ts hb - t \<le> days 3 \<and> hb_coverage_object hb = Some u \<and> heard_regularly u (hb_ts hb) hbs"

lemma update_seniority_step:
  assumes "claim_cache_ok (st_claims st) (st_db st)" "query_claim_time (st_db st) key (Some (sen_uuid r)) \<noteq> None"
    "seniority_distinct (ct_seniority (st_db st))" "fetch_latest (st_db st) key = Some r"
    "heard_regularly (sen_uuid r) (sen_last_heartbeat r) [hb]"
    "st' = update_seniority start key hb st"
  shows "claim_cache_ok (st_claims st') (st_db st') \<and> query_claim_time (st_db st') key (Some (sen_uuid r)) \<noteq> None \<and>
    seniority_distinct (ct_seniority (st_db st')) \<and>
    fetch_latest (st_db st') key = Some (r\<lparr>sen_last_heartbeat := hb_ts hb\<rparr>) \<and>
    st_seniority_sink st' = st_seniority_sink st"
proof -
  obtain claims t where fetch: "fetch_coverage_claim_time (st_claims st) (st_db st) key (Some (sen_uuid r)) = (claims, t)"
    by (cases "fetch_coverage_claim_time (st_claims st) (st_db st) key (Some (sen_uuid r))")
  note claim = fetch_coverage_claim_time_db [OF assms(1) fetch]
  then obtain ct where ct: "t = Some ct" using assms(2) by auto
  let ?rows = "execute_seniority key hb (sen_uuid r) (UpdateSeniority (sen_ts r)) (ct_seniority (st_db st))"
  have act: "determine_update_action hb ct start (Some r) = UpdateSeniority (sen_ts r)"
    using assms(5) by (simp add: determine_update_action_def)
  have st': "st' = st\<lparr>st_claims := claims, st_db := (st_db st)\<lparr>ct_seniority := ?rows\<rparr>\<rparr>"
    using assms(4,5,6) fetch ct act by (simp add: update_seniority_def Let_def seniority_write_def)
  have obj: "query_claim_time ((st_db st)\<lparr>ct_seniority := rows\<rparr>) = query_claim_time (st_db st)" for rows
    by (intro ext) (simp add: query_claim_time_def)
  have "sen_last_heartbeat r < hb_ts hb" using assms(5) by simp
  note touch = touch_keeps_latest [OF assms(3,4) this refl]
  show ?thesis unfolding st' using claim assms(2) touch by (simp add: claim_cache_ok_def obj)
qed

text \<open>C34: a radio that is heard at least every three days with the coverage object of its current
  seniority keeps that seniority through any number of heartbeats: only the time of the last
  heartbeat moves, and no seniority update is reported.\<close>

theorem regular_heartbeats_keep_seniority:
  assumes "claim_cache_ok (st_claims st) (st_db st)" "query_claim_time (st_db st) key (Some (sen_uuid r)) \<noteq> None"
    "seniority_distinct (ct_seniority (st_db st))" "fetch_latest (st_db st) key = Some r"
    "heard_regularly (sen_uuid r) (sen_last_heartbeat r) hbs"
    "st' = foldl (\<lambda>st hb. update_seniority start key hb st) st hbs"
  shows "fetch_latest (st_db st') key =
      Some (r\<lparr>sen_last_heartbeat := (if hbs = [] then sen_last_heartbeat r else hb_ts (last hbs))\<rparr>) \<and>
    st_seniority_sink st' = st_seniority_sink st"
  using assms
proof (induction hbs arbitrary: st r)
  case (Cons hb hbs)
  define st1 where "st1 = update_seniority start key hb st"
  define r1 where "r1 = r\<lparr>sen_last_heartbeat := hb_ts hb\<rparr>"
  have "heard_regularly (sen_uuid r) (sen_last_heartbeat r) [hb]" using Cons.prems(5) by simp
  note step = update_seniority_step [OF Cons.prems(1-4) this st1_def]
  have "heard_regularly (sen_uuid r1) (sen_last_heartbeat r1) hbs" using Cons.prems(5) by (simp add: r1_def)
  moreover have "st' = foldl (\<lambda>st hb. update_seniority start key hb st) st1 hbs" using Cons.prems(6) by (simp add: st1_def)
  ultimately show ?case using Cons.IH [of st1 r1] step by (simp add: r1_def)
qed simp

section \<open>Concrete runs\<close>

lemma clear_heartbeats_keeps_rewards:
  "ts \<le> fst epoch \<Longrightarrow> validated_rewards (clear_heartbeats ts st) epoch = validated_rewards st epoch"
proof -
  assume "ts \<le> fst epoch"
  then have "filter (in_epoch epoch) (filter (\<lambda>r. \<not> hbr_truncated r < ts) rows) = filter (in_epoch epoch) rows" for rows
    by (induction rows) (auto simp: in_epoch_def)
  then show ?thesis by (simp add: validated_rewards_def clear_heartbeats_def del: filter_filter)
qed

definition sample_hb_env :: "string hb_env" where
  "sample_hb_env = \<lparr>env_gateway_info = (\<lambda>_. Inr (Some (Some 9))), env_latlng_ok = (\<lambda>_ _. True), env_valid_cell = (\<lambda>_. True),
     env_distance_m = (\<lambda>_ _ _. 50), env_geofence_cell = (\<lambda>_ _. Some 1), env_regions = (\<lambda>_. True),
     env_trunc_hour = (\<lambda>t. Some (t - t mod hours 1))\<rparr>"

definition sample_tables :: coverage_tables where
  "sample_tables = \<lparr>ct_objects = [\<lparr>obj_uuid = ''u'', obj_radio_type = HbWifi, obj_radio_key = ''w'', obj_indoor = True,
        obj_claim_time = 1, obj_trust_score = 0, obj_inserted_at = 2, obj_invalidated_at = None\<rparr>],
     ct_hexes = [], ct_seniority = [\<lparr>sen_uuid = ''u'', sen_ts = 1, sen_last_heartbeat = 5, sen_inserted_at = 5,
        sen_update_reason = NewCoverageClaimTime, sen_radio_key = ''w'', sen_radio_type = HbWifi\<rparr>]\<rparr>"

definition sample_hb :: "timestamp \<Rightarrow> heartbeat" where
  "sample_hb t = \<lparr>hb_kind = HbWifi, hb_hotspot = ''w'', hb_cbsd_id = None, hb_operation_mode = True, hb_lat = 1, hb_lon = 1,
     hb_coverage_object = Some ''u'', hb_location_ts = None, hb_ts = t\<rparr>"

definition sample_row :: "nat \<Rightarrow> hb_row" where
  "sample_row i = \<lparr>hbr_key = ''w'', hbr_hotspot = ''w'', hbr_cell_type = NovaGenericWifiIndoor, hbr_latest = hours (int i) + 7,
     hbr_truncated = hours (int i), hbr_coverage = ''u'', hbr_multiplier = 1\<rparr>"

definition sample_hb_state :: hb_state where
  "sample_hb_state = \<lparr>st_db = sample_tables, st_cbrs = [], st_wifi = map sample_row [0..<12], st_cache = [],
     st_claims = Map.empty, st_hexes = Map.empty, st_heartbeat_sink = [], st_seniority_sink = []\<rparr>"

lemma sample_trunc_law: "trunc_law sample_hb_env"
  unfolding trunc_law_def sample_hb_env_def by (auto simp: minus_mod_eq_mult_div)

lemma sample_state_ok: "hb_state_ok sample_hb_env sample_hb_state"
  unfolding hb_state_ok_def hb_rows_ok_def sample_hb_state_def sample_hb_env_def
  by (auto simp: distinct_map inj_on_def sample_row_def)

lemma heartbeat_valid_iff_witness:
  "\<exists>c v. validate_heartbeat sample_hb_env 0 0 (0, 10) sample_tables Map.empty (sample_hb 8) = (c, Inr v) \<and>
     vh_is_valid v \<and> heartbeat_counts sample_hb_env (0, 10) sample_tables (sample_hb 8) \<and> vh_multiplier v \<noteq> 0"
proof -
  obtain c v where run: "validate_heartbeat sample_hb_env 0 0 (0, 10) sample_tables Map.empty (sample_hb 8) = (c, Inr v)"
    and valid: "vh_is_valid v"
    by (simp add: validate_heartbeat_def sample_hb_def hb_key_def fetch_coverage_object_def query_meta_def sample_tables_def
        query_hexes_def validate_located_def validated_cell_type_def in_valid_region_def resolve_gateway_def sample_hb_env_def Let_def)
  have "hex_cache_ok Map.empty sample_tables" by (simp add: hex_cache_ok_def)
  from heartbeat_valid_iff [OF this run] show ?thesis using run valid by blast
qed

definition sample_run :: "hb_state \<times> string hb_error option" where
  "sample_run = hb_loop sample_hb_env False 0 0 0 (0, 1) sample_tables [sample_hb 8] sample_hb_state"

lemma sample_run_wifi: "st_wifi (fst sample_run) = map sample_row [0..<12]"
  by (simp add: sample_run_def validate_heartbeat_def sample_hb_def hb_key_def fetch_coverage_object_def query_meta_def
      sample_tables_def query_hexes_def validate_located_def validated_cell_type_def in_valid_region_def sample_hb_env_def
      Let_def process_validated_def sample_hb_state_def)

lemma concat_map_nonempty: "x \<in> set xs \<Longrightarrow> f x \<noteq> [] \<Longrightarrow> concat (map f xs) \<noteq> []"
  by auto

lemma table_rewards_nonempty:
  assumes "g \<in> set (radio_groups rows)" "12 \<le> length (group_rows rows g)"
    "latest_uuid rows (hotspot_of rows (fst g)) (fst g) \<noteq> None"
  shows "table_rewards hotspot_of cbsd_of rows \<noteq> []"
  unfolding table_rewards_def
  by (rule concat_map_nonempty [OF assms(1)]) (use assms(2,3) in \<open>auto simp: MINIMUM_HEARTBEAT_COUNT_def\<close>)

lemma sample_rewards: "validated_rewards (fst sample_run) (0, hours 24) \<noteq> []"
proof -
  let ?rows = "map sample_row [0..<12]"
  have "in_epoch (0, hours 24) (sample_row i)" if "i < 12" for i using that by (simp add: in_epoch_def sample_row_def)
  then have epoch: "filter (in_epoch (0, hours 24)) ?rows = ?rows" by (auto simp: filter_id_conv)
  have g: "group_rows ?rows (''w'', NovaGenericWifiIndoor) = ?rows" by (auto simp: group_rows_def sample_row_def filter_id_conv)
  have "sample_row 0 \<in> set ?rows" unfolding set_map by (rule imageI) simp
  then have "(hbr_key (sample_row 0), hbr_cell_type (sample_row 0)) \<in> set (radio_groups ?rows)"
    unfolding radio_groups_def set_remdups set_map [of "\<lambda>r. (hbr_key r, hbr_cell_type r)"] by (rule imageI)
  then have "(''w'', NovaGenericWifiIndoor) \<in> set (radio_groups ?rows)" by (simp add: sample_row_def)
  moreover have "latest_uuid ?rows ''w'' ''w'' \<noteq> None"
  proof -
    have "filter (\<lambda>r. hbr_hotspot r = ''w'' \<and> hbr_key r = ''w'') ?rows = ?rows" by (auto simp: filter_id_conv sample_row_def)
    moreover have "length (sort_key (\<lambda>r. - hbr_truncated r) ?rows) = 12" by simp
    ultimately show ?thesis by (auto simp: latest_uuid_def split: list.splits simp del: length_sort)
  qed
  ultimately have "table_rewards (\<lambda>_ rid. rid) (\<lambda>_. None) ?rows \<noteq> []"
    by (intro table_rewards_nonempty [of "(''w'', NovaGenericWifiIndoor)"]) (simp_all add: g)
  then show ?thesis unfolding validated_rewards_def sample_run_wifi epoch by simp
qed

lemma rewarded_radio_heard_twelve_hours_witness:
  "\<exists>r. r \<in> set (validated_rewards (fst sample_run) (0, hours 24)) \<and>
     12 \<le> card (hbr_truncated ` set (rows_of_reward (fst sample_run) (0, hours 24) r)) \<and> reward_weight r \<le> 1"
proof -
  obtain r where r: "r \<in> set (validated_rewards (fst sample_run) (0, hours 24))"
    using sample_rewards by (meson list.set_sel(1))
  have run: "hb_loop sample_hb_env False 0 0 0 (0, 1) sample_tables [sample_hb 8] sample_hb_state = (fst sample_run, snd sample_run)"
    by (simp add: sample_run_def)
  from rewarded_radio_heard_twelve_hours [OF sample_trunc_law sample_state_ok run r] show ?thesis using r by blast
qed

lemma regular_heartbeats_keep_seniority_witness:
  "\<exists>r. fetch_latest sample_tables (WifiKey ''w'') = Some r \<and>
     fetch_latest (st_db (foldl (\<lambda>st hb. update_seniority 0 (WifiKey ''w'') hb st) sample_hb_state
        [sample_hb (days 1), sample_hb (days 3)])) (WifiKey ''w'') = Some (r\<lparr>sen_last_heartbeat := days 3\<rparr>)"
proof -
  let ?r = "hd (ct_seniority sample_tables)"
  have r: "fetch_latest (st_db sample_hb_state) (WifiKey ''w'') = Some ?r"
    by (simp add: fetch_latest_def sample_tables_def sample_hb_state_def)
  have "claim_cache_ok (st_claims sample_hb_state) (st_db sample_hb_state)"
    "query_claim_time (st_db sample_hb_state) (WifiKey ''w'') (Some (sen_uuid ?r)) \<noteq> None"
    "seniority_distinct (ct_seniority (st_db sample_hb_state))"
    "heard_regularly (sen_uuid ?r) (sen_last_heartbeat ?r) [sample_hb (days 1), sample_hb (days 3)]"
    by (simp_all add: claim_cache_ok_def query_claim_time_def sample_hb_state_def sample_tables_def seniority_distinct_def sample_hb_def)
  from regular_heartbeats_keep_seniority [OF this(1,2,3) r this(4) refl] r
  show ?thesis by (simp add: sample_hb_state_def sample_hb_def)
qed

end
