(* ===== verification/Mobile_Rewards.thy ===== *)
theory Mobile_Rewards
  imports Mobile_Sessions Mobile_Heartbeats
begin

text \<open>
  The rewards of the mobile network: \<open>src/mobile_verifier/src/reward_shares.rs\<close> and \<open>rewarder.rs\<close> beside it. An epoch pays
  four pools, for coverage and data transfer, mappers, service providers and oracles, each in a stage that writes rewards and
  what is left of the pool. The lemmas say what a tick may do to the period and the manifests, by which it is an instance of
  \<open>epoch_rewarder\<close>, and that adding up points never panics and gives every radio its points.
\<close>

section \<open>Emissions\<close>

definition TOTAL_EMISSIONS_POOL :: rat where "TOTAL_EMISSIONS_POOL = 30000000000000000"
definition MAX_DATA_TRANSFER_REWARDS_PERCENT :: rat where "MAX_DATA_TRANSFER_REWARDS_PERCENT = 4 / 10"
definition MOBILE_DC_USD_PRICE :: rat where "MOBILE_DC_USD_PRICE = 1 / 100000"
definition MOBILE_DEFAULT_PREC :: nat where "MOBILE_DEFAULT_PREC = 15"
definition MAPPERS_REWARDS_PERCENT :: rat where "MAPPERS_REWARDS_PERCENT = 2 / 10"
definition DISCOVERY_MAPPING_SHARES :: rat where "DISCOVERY_MAPPING_SHARES = 30"
definition SERVICE_PROVIDER_PERCENT :: rat where "SERVICE_PROVIDER_PERCENT = 1 / 10"
definition ORACLES_PERCENT :: rat where "ORACLES_PERCENT = 4 / 100"

definition get_total_scheduled_tokens :: "decimal_ops \<Rightarrow> duration \<Rightarrow> rat" where
  "get_total_scheduled_tokens D d =
     d_mul D (d_div D (d_div D TOTAL_EMISSIONS_POOL 366) (num_seconds (hours 24))) (num_seconds d)"

definition get_scheduled_tokens_for_poc :: "decimal_ops \<Rightarrow> duration \<Rightarrow> rat" where
  "get_scheduled_tokens_for_poc D d = d_mul D (get_total_scheduled_tokens D d) (6 / 10)"

definition get_scheduled_tokens_for_mappers :: "decimal_ops \<Rightarrow> duration \<Rightarrow> rat" where
  "get_scheduled_tokens_for_mappers D d = d_mul D (get_total_scheduled_tokens D d) MAPPERS_REWARDS_PERCENT"

definition get_scheduled_tokens_for_service_providers :: "decimal_ops \<Rightarrow> duration \<Rightarrow> rat" where
  "get_scheduled_tokens_for_service_providers D d = d_mul D (get_total_scheduled_tokens D d) SERVICE_PROVIDER_PERCENT"

definition get_scheduled_tokens_for_oracles :: "decimal_ops \<Rightarrow> duration \<Rightarrow> rat" where
  "get_scheduled_tokens_for_oracles D d = d_mul D (get_total_scheduled_tokens D d) ORACLES_PERCENT"

definition dc_to_mobile_bones :: "decimal_ops \<Rightarrow> rat \<Rightarrow> rat \<Rightarrow> rat" where
  "dc_to_mobile_bones D dc_amount mobile_bone_price =
     round_dp_up MOBILE_DEFAULT_PREC (d_div D (d_mul D dc_amount MOBILE_DC_USD_PRICE) mobile_bone_price)"

section \<open>Rewards that are written\<close>

datatype unallocated_type = UnallocatedPoc | UnallocatedMapper | UnallocatedServiceProvider | UnallocatedOracle | UnallocatedData

record radio_reward =
  rr_hotspot :: pubkey
  rr_cbsd_id :: string
  rr_poc_reward :: nat
  rr_coverage_points :: nat
  rr_seniority :: u64
  rr_coverage_object :: uuid
  rr_trust :: nat
  rr_speedtest :: nat

record mobile_gateway_reward =
  mg_hotspot :: pubkey
  mg_dc_transfer :: nat
  mg_bytes :: u64
  mg_price :: nat

datatype mobile_reward_kind =
  RadioReward radio_reward
| MobileGatewayReward mobile_gateway_reward
| SubscriberReward bytes nat
| ServiceProviderReward int nat
| MobileUnallocated unallocated_type nat

record mobile_reward_share =
  ms_period :: "u64 \<times> u64"
  ms_reward :: mobile_reward_kind

fun reward_amount :: "mobile_reward_kind \<Rightarrow> nat" where
  "reward_amount (RadioReward r) = rr_poc_reward r"
| "reward_amount (MobileGatewayReward r) = mg_dc_transfer r"
| "reward_amount (SubscriberReward _ n) = n"
| "reward_amount (ServiceProviderReward _ n) = n"
| "reward_amount (MobileUnallocated _ n) = n"

definition share_amount :: "mobile_reward_share \<Rightarrow> nat" where
  "share_amount s = reward_amount (ms_reward s)"

text \<open>\<open>to_u32().unwrap_or_default()\<close> after the fraction was cut.\<close>

definition to_u32_or_0 :: "int \<Rightarrow> nat" where
  "to_u32_or_0 n = (if 0 \<le> n \<and> n < 2 ^ 32 then nat n else 0)"

definition unallocated_share :: "timestamp \<times> timestamp \<Rightarrow> unallocated_type \<Rightarrow> nat \<Rightarrow> mobile_reward_share list" where
  "unallocated_share epoch ty amount =
     (if amount > 0 then [\<lparr>ms_period = encode_period epoch, ms_reward = MobileUnallocated ty amount\<rparr>] else [])"

section \<open>Data transfer\<close>

record transfer_reward =
  tr_bones :: rat
  tr_bytes :: u64

record transfer_rewards =
  tw_scale :: rat
  tw_rewards :: "(pubkey \<times> transfer_reward) list"
  tw_sum :: rat
  tw_price :: rat

definition from_transfer_sessions :: "decimal_ops \<Rightarrow> rat \<Rightarrow> hotspot_map \<Rightarrow> timestamp \<times> timestamp \<Rightarrow> transfer_rewards" where
  "from_transfer_sessions D price sessions epoch =
     (let rewards = map (\<lambda>(k, r). (k, \<lparr>tr_bones = dc_to_mobile_bones D (of_nat (unat (hw_dc r))) price, tr_bytes = hw_bytes r\<rparr>)) sessions;
          reward_sum = foldl (d_add D) 0 (map (\<lambda>(_, t). tr_bones t) rewards);
          pool = get_total_scheduled_tokens D (snd epoch - fst epoch);
          scale = (if d_div D reward_sum pool > MAX_DATA_TRANSFER_REWARDS_PERCENT
                   then d_div D (d_mul D MAX_DATA_TRANSFER_REWARDS_PERCENT pool) reward_sum else 1)
      in \<lparr>tw_scale = scale, tw_rewards = rewards, tw_sum = d_mul D reward_sum scale, tw_price = price\<rparr>)"

definition transfer_total :: "decimal_ops \<Rightarrow> transfer_rewards \<Rightarrow> rat" where
  "transfer_total D t = foldl (d_add D) 0 (map (\<lambda>(_, r). d_mul D (tr_bones r) (tw_scale t)) (tw_rewards t))"

definition transfer_into_rewards :: "decimal_ops \<Rightarrow> transfer_rewards \<Rightarrow> timestamp \<times> timestamp \<Rightarrow> mobile_reward_share list" where
  "transfer_into_rewards D t epoch =
     filter (\<lambda>s. share_amount s > 0)
       (map (\<lambda>(k, r). \<lparr>ms_period = encode_period epoch, ms_reward = MobileGatewayReward
               \<lparr>mg_hotspot = k, mg_dc_transfer = to_u64_or_0 (trunc_int (d_mul D (tr_bones r) (tw_scale t))), mg_bytes = tr_bytes r,
                mg_price = to_u64_or_0 (trunc_int (d_mul D (d_mul D (tw_price t) 1000000) 1000000))\<rparr>\<rparr>) (tw_rewards t))"

section \<open>Mappers and service providers\<close>

definition mapper_rewards_per_share :: "decimal_ops \<Rightarrow> bytes list \<Rightarrow> rat \<Rightarrow> rat" where
  "mapper_rewards_per_share D subscribers pool =
     (let total_shares = d_mul D (of_nat (length subscribers)) DISCOVERY_MAPPING_SHARES
      in if total_shares = 0 then 0 else d_div D pool total_shares)"

definition into_subscriber_rewards :: "decimal_ops \<Rightarrow> bytes list \<Rightarrow> timestamp \<times> timestamp \<Rightarrow> rat \<Rightarrow> mobile_reward_share list" where
  "into_subscriber_rewards D subscribers epoch rate =
     filter (\<lambda>s. share_amount s > 0)
       (map (\<lambda>sub. \<lparr>ms_period = encode_period epoch,
               ms_reward = SubscriberReward sub (to_u64_or_0 (trunc_int (d_mul D DISCOVERY_MAPPING_SHARES rate)))\<rparr>) subscribers)"

record sp_session =
  sp_provider :: int
  sp_total_dcs :: rat

fun from_payers_dc :: "(pubkey \<Rightarrow> 'e + int) \<Rightarrow> (pubkey \<times> u64) list \<Rightarrow> 'e + sp_session list" where
  "from_payers_dc client [] = Inr []"
| "from_payers_dc client ((payer, dcs) # rest) =
     (case client payer of
        Inl e \<Rightarrow> Inl e
      | Inr sp \<Rightarrow>
          (case from_payers_dc client rest of
             Inl e \<Rightarrow> Inl e
           | Inr shares \<Rightarrow> Inr (\<lparr>sp_provider = sp, sp_total_dcs = of_nat (unat dcs)\<rparr> # shares)))"

definition sp_total_dc :: "decimal_ops \<Rightarrow> sp_session list \<Rightarrow> rat" where
  "sp_total_dc D shares = foldl (d_add D) 0 (map sp_total_dcs shares)"

definition maybe_cap_service_provider_rewards :: "rat \<Rightarrow> rat \<Rightarrow> rat" where
  "maybe_cap_service_provider_rewards used pool = (if used \<le> pool then used else pool)"

definition calc_rewards_per_share :: "decimal_ops \<Rightarrow> rat \<Rightarrow> rat \<Rightarrow> rat" where
  "calc_rewards_per_share D rewards shares = (if shares > 0 then round_dp MOBILE_DEFAULT_PREC (d_div D rewards shares) else 0)"

definition sp_rewards_per_share :: "decimal_ops \<Rightarrow> sp_session list \<Rightarrow> rat \<Rightarrow> rat \<Rightarrow> rat" where
  "sp_rewards_per_share D shares pool price =
     (let dc = sp_total_dc D shares in calc_rewards_per_share D (maybe_cap_service_provider_rewards (dc_to_mobile_bones D dc price) pool) dc)"

definition into_service_provider_rewards :: "decimal_ops \<Rightarrow> sp_session list \<Rightarrow> timestamp \<times> timestamp \<Rightarrow> rat \<Rightarrow> mobile_reward_share list" where
  "into_service_provider_rewards D shares epoch rate =
     filter (\<lambda>s. share_amount s > 0)
       (map (\<lambda>s. \<lparr>ms_period = encode_period epoch,
               ms_reward = ServiceProviderReward (sp_provider s) (to_u64_or_0 (trunc_int (d_mul D (sp_total_dcs s) rate)))\<rparr>) shares)"

definition sp_into_unallocated_reward :: "rat \<Rightarrow> timestamp \<times> timestamp \<Rightarrow> mobile_reward_share" where
  "sp_into_unallocated_reward amount epoch =
     \<lparr>ms_period = encode_period epoch, ms_reward = MobileUnallocated UnallocatedServiceProvider (to_u64_or_0 (trunc_int amount))\<rparr>"

section \<open>Coverage points\<close>

record radio_points =
  pt_trust :: rat
  pt_coverage_object :: uuid
  pt_seniority :: timestamp
  pt_points :: rat

definition new_radio_points :: "rat \<Rightarrow> uuid \<Rightarrow> timestamp \<Rightarrow> radio_points" where
  "new_radio_points trust u seniority_ts = \<lparr>pt_trust = trust, pt_coverage_object = u, pt_seniority = seniority_ts, pt_points = 0\<rparr>"

definition radio_shares :: "decimal_ops \<Rightarrow> radio_points \<Rightarrow> rat" where
  "radio_shares D r = max (d_mul D (pt_trust r) (pt_points r)) 0"

record hotspot_points =
  hp_multiplier :: rat
  hp_radios :: "(string option \<times> radio_points) list"

definition total_points :: "decimal_ops \<Rightarrow> hotspot_points \<Rightarrow> rat" where
  "total_points D h = d_mul D (hp_multiplier h) (foldl (\<lambda>s (_, r). d_add D s (radio_shares D r)) 0 (hp_radios h))"

type_synonym coverage_points = "(pubkey \<times> hotspot_points) list"

definition coverage_total_shares :: "decimal_ops \<Rightarrow> coverage_points \<Rightarrow> rat" where
  "coverage_total_shares D cp = foldl (\<lambda>s (_, h). d_add D s (total_points D h)) 0 cp"

definition hotspot_total_points :: "decimal_ops \<Rightarrow> coverage_points \<Rightarrow> pubkey \<Rightarrow> rat" where
  "hotspot_total_points D cp hotspot = (case map_of cp hotspot of None \<Rightarrow> 0 | Some h \<Rightarrow> total_points D h)"

text \<open>\<open>HashMap::insert\<close>.\<close>

fun assoc_insert :: "'k \<Rightarrow> 'v \<Rightarrow> ('k \<times> 'v) list \<Rightarrow> ('k \<times> 'v) list" where
  "assoc_insert k v [] = [(k, v)]"
| "assoc_insert k v ((k', v') # xs) = (if k' = k then (k, v) # xs else (k', v') # assoc_insert k v xs)"

datatype points_error = PointsSql coverage_sql_error | PointsStream | PointsPanic

text \<open>The heartbeats are a stream of rows, in which an error may occur.

  One heartbeat: its hotspot gets an entry with the multiplier of its speed tests, its radio an entry without points, and the
  hexes of its coverage object are added to those covered. Reading the hexes removes older rows of the seniority.\<close>

definition add_heartbeat ::
  "(string \<Rightarrow> bool) \<Rightarrow> (u64 \<Rightarrow> bool) \<Rightarrow> (pubkey \<rightharpoonup> speedtest_average) \<Rightarrow> timestamp \<Rightarrow> heartbeat_reward \<Rightarrow>
   coverage_tables \<times> covered_hexes \<times> coverage_points \<Rightarrow> (points_error + unit) \<times> coverage_tables \<times> covered_hexes \<times> coverage_points" where
  "add_heartbeat is_pk valid_cell averages period_end hb st =
     (case st of (db, ch, cp) \<Rightarrow>
        let multiplier = (case averages (hr_hotspot hb) of None \<Rightarrow> 0 | Some a \<Rightarrow> avg_multiplier a) in
        case fetch_seniority db (reward_key hb) period_end of
          Inl e \<Rightarrow> (Inl (PointsSql e), db, ch, cp)
        | Inr sen \<Rightarrow>
            (case covered_hex_stream is_pk db (reward_key hb) (hr_coverage_object hb) sen of
               (db, hexes) \<Rightarrow>
                 (case aggregate_coverage valid_cell (hr_hotspot hb) (map Inr hexes :: (unit + hex_coverage) list) ch of
                    (ch, Inl _) \<Rightarrow> (Inl PointsPanic, db, ch, cp)
                  | (ch, Inr _) \<Rightarrow>
                      (Inr (), db, ch,
                       entry_update (hr_hotspot hb) \<lparr>hp_multiplier = multiplier, hp_radios = []\<rparr>
                         (\<lambda>h. h\<lparr>hp_radios := assoc_insert (into_cbsd_id (reward_key hb))
                            (new_radio_points (hr_multiplier hb) (hr_coverage_object hb) (sen_ts sen)) (hp_radios h)\<rparr>) cp))))"

fun add_heartbeats ::
  "(string \<Rightarrow> bool) \<Rightarrow> (u64 \<Rightarrow> bool) \<Rightarrow> (pubkey \<rightharpoonup> speedtest_average) \<Rightarrow> timestamp \<Rightarrow> (unit + heartbeat_reward) list \<Rightarrow>
   coverage_tables \<times> covered_hexes \<times> coverage_points \<Rightarrow> (points_error + unit) \<times> coverage_tables \<times> covered_hexes \<times> coverage_points" where
  "add_heartbeats is_pk valid_cell averages period_end [] st = (Inr (), st)"
| "add_heartbeats is_pk valid_cell averages period_end (Inl _ # hbs) st = (Inl PointsStream, st)"
| "add_heartbeats is_pk valid_cell averages period_end (Inr hb # hbs) st =
     (case add_heartbeat is_pk valid_cell averages period_end hb st of
        (Inl e, st) \<Rightarrow> (Inl e, st)
      | (Inr _, st) \<Rightarrow> add_heartbeats is_pk valid_cell averages period_end hbs st)"

text \<open>The points of a hexagon go to the entry of the radio; \<open>None\<close> is the panic of \<open>unwrap\<close> when there is none.\<close>

definition add_coverage_reward :: "decimal_ops \<Rightarrow> coverage_reward \<Rightarrow> coverage_points \<Rightarrow> coverage_points option" where
  "add_coverage_reward D cr cp =
     (case map_of cp (cr_hotspot cr) of
        None \<Rightarrow> None
      | Some h \<Rightarrow>
          (case map_of (hp_radios h) (into_cbsd_id (cr_radio_key cr)) of
             None \<Rightarrow> None
           | Some r \<Rightarrow>
               Some (assoc_insert (cr_hotspot cr)
                 (h\<lparr>hp_radios := assoc_insert (into_cbsd_id (cr_radio_key cr)) (r\<lparr>pt_points := d_add D (pt_points r) (cr_points cr)\<rparr>) (hp_radios h)\<rparr>) cp)))"

fun add_coverage_rewards :: "decimal_ops \<Rightarrow> coverage_reward list \<Rightarrow> coverage_points \<Rightarrow> coverage_points option" where
  "add_coverage_rewards D [] cp = Some cp"
| "add_coverage_rewards D (cr # crs) cp =
     (case add_coverage_reward D cr cp of None \<Rightarrow> None | Some cp \<Rightarrow> add_coverage_rewards D crs cp)"

definition aggregate_points ::
  "decimal_ops \<Rightarrow> (string \<Rightarrow> bool) \<Rightarrow> (u64 \<Rightarrow> bool) \<Rightarrow> (pubkey \<rightharpoonup> speedtest_average) \<Rightarrow> timestamp \<Rightarrow> (unit + heartbeat_reward) list \<Rightarrow>
   coverage_tables \<Rightarrow> (points_error + coverage_points) \<times> coverage_tables" where
  "aggregate_points D is_pk valid_cell averages period_end hbs db =
     (case add_heartbeats is_pk valid_cell averages period_end hbs (db, no_coverage, []) of
        (Inl e, db, _) \<Rightarrow> (Inl e, db)
      | (Inr _, db, ch, cp) \<Rightarrow>
          (case add_coverage_rewards D (into_coverage_rewards ch) cp of
             None \<Rightarrow> (Inl PointsPanic, db)
           | Some cp \<Rightarrow> (Inr cp, db)))"

definition new_radio_reward ::
  "decimal_ops \<Rightarrow> timestamp \<times> timestamp \<Rightarrow> pubkey \<Rightarrow> rat \<Rightarrow> rat \<Rightarrow> string option \<times> radio_points \<Rightarrow> mobile_reward_share" where
  "new_radio_reward D epoch hotspot rate multiplier radio =
     (case radio of (cbsd_id, r) \<Rightarrow>
        let poc_reward = d_mul D (d_mul D (d_mul D rate multiplier) (pt_trust r)) (pt_points r)
        in \<lparr>ms_period = encode_period epoch, ms_reward = RadioReward
              \<lparr>rr_hotspot = hotspot, rr_cbsd_id = (case cbsd_id of None \<Rightarrow> [] | Some s \<Rightarrow> s), rr_poc_reward = to_u64_or_0 (trunc_int poc_reward),
               rr_coverage_points = to_u64_or_0 (trunc_int (pt_points r)), rr_seniority = encode_timestamp (pt_seniority r),
               rr_coverage_object = pt_coverage_object r, rr_trust = to_u32_or_0 (trunc_int (d_mul D (pt_trust r) 1000)),
               rr_speedtest = to_u32_or_0 (trunc_int (d_mul D multiplier 1000))\<rparr>\<rparr>)"

definition points_into_rewards :: "decimal_ops \<Rightarrow> coverage_points \<Rightarrow> rat \<Rightarrow> timestamp \<times> timestamp \<Rightarrow> mobile_reward_share list option" where
  "points_into_rewards D cp available epoch =
     (let total = coverage_total_shares D cp in
      if total = 0 then None
      else let rate = d_div D available total in
           Some (filter (\<lambda>s. share_amount s > 0)
             (concat (map (\<lambda>(hotspot, h). map (new_radio_reward D epoch hotspot rate (hp_multiplier h)) (hp_radios h)) cp))))"

section \<open>The stages of an epoch\<close>

definition REWARDS_NOT_CURRENT_DELAY_PERIOD :: int where "REWARDS_NOT_CURRENT_DELAY_PERIOD = 5"

record mobile_tables =
  mt_heartbeats :: hb_state
  mt_speedtests :: speedtest_table
  mt_sessions :: "data_session list"
  mt_locations :: "location_row list"

datatype mobile_query = QueryMeta | QueryCbrs | QueryWifi | QuerySpeedtests | QuerySessions | QueryAverages | QueryLocations | QueryPayers

text \<open>How the calls of a tick end: the price, or an error; the queries; the row at which the stream of heartbeats fails, if
  it does; the write of the averages of the speed tests; the conversion of the scale for its gauge; the provider of a payer;
  and the calls after the rewards were computed.\<close>

record mobile_answers =
  ma_price :: "u64 option"
  ma_query :: "mobile_query \<Rightarrow> bool"
  ma_heartbeats_fail :: "nat option"
  ma_averages :: bool
  ma_to_f64 :: "rat \<Rightarrow> bool"
  ma_provider :: "pubkey \<Rightarrow> unit + int"
  ma_epoch :: epoch_answers

definition to_mobile_bone_price :: "decimal_ops \<Rightarrow> u64 \<Rightarrow> rat" where
  "to_mobile_bone_price D price = d_div D (d_div D (of_nat (unat price)) 1000000) 1000000"

definition heartbeat_stream :: "nat option \<Rightarrow> heartbeat_reward list \<Rightarrow> (unit + heartbeat_reward) list" where
  "heartbeat_stream fail rows = (case fail of None \<Rightarrow> map Inr rows | Some n \<Rightarrow> map Inr (take n rows) @ [Inl ()])"

text \<open>A list of rewards followed by what is left of the pool.\<close>

definition with_unallocated ::
  "decimal_ops \<Rightarrow> rat \<Rightarrow> unallocated_type \<Rightarrow> timestamp \<times> timestamp \<Rightarrow> mobile_reward_share list \<Rightarrow> mobile_reward_share list" where
  "with_unallocated D pool ty period rs =
     rs @ unallocated_share period ty (unallocated_amount D pool (allocated_sum (map share_amount rs)))"

definition poc_pool :: "decimal_ops \<Rightarrow> timestamp \<times> timestamp \<Rightarrow> rat \<Rightarrow> rat" where
  "poc_pool D period transfer_sum = d_sub D (get_scheduled_tokens_for_poc D (snd period - fst period)) transfer_sum"

definition mobile_reward_poc ::
  "decimal_ops \<Rightarrow> (string \<Rightarrow> bool) \<Rightarrow> (u64 \<Rightarrow> bool) \<Rightarrow> mobile_answers \<Rightarrow> timestamp \<times> timestamp \<Rightarrow> rat \<Rightarrow> mobile_tables \<Rightarrow>
   (epoch_error + mobile_reward_share list) \<times> mobile_tables" where
  "mobile_reward_poc D is_pk valid_cell ma period transfer_sum t =
     (let pool = poc_pool D period transfer_sum; hb = mt_heartbeats t in
      if \<not> ma_query ma QueryAverages then (Inl (EpochDb DbSql), t)
      else if \<not> ma_averages ma then (Inl EpochSink, t)
      else case aggregate_points D is_pk valid_cell (aggregate_epoch_averages (mt_speedtests t) (snd period)) (snd period)
                  (heartbeat_stream (ma_heartbeats_fail ma) (validated_rewards hb period)) (st_db hb) of
             (res, db) \<Rightarrow>
               (case res of
                  Inl PointsPanic \<Rightarrow> Inl EpochPanic
                | Inl _ \<Rightarrow> Inl (EpochDb DbSql)
                | Inr cp \<Rightarrow>
                    Inr (case points_into_rewards D cp pool period of
                           None \<Rightarrow> []
                         | Some rs \<Rightarrow> with_unallocated D pool UnallocatedPoc period rs),
                t\<lparr>mt_heartbeats := hb\<lparr>st_db := db\<rparr>\<rparr>))"

definition reward_dc :: "decimal_ops \<Rightarrow> timestamp \<times> timestamp \<Rightarrow> transfer_rewards \<Rightarrow> mobile_reward_share list" where
  "reward_dc D period tr = with_unallocated D (transfer_total D tr) UnallocatedData period (transfer_into_rewards D tr period)"

definition epoch_transfer :: "decimal_ops \<Rightarrow> rat \<Rightarrow> timestamp \<times> timestamp \<Rightarrow> mobile_tables \<Rightarrow> transfer_rewards" where
  "epoch_transfer D price period t = from_transfer_sessions D price (aggregate_hotspot_data_sessions_to_dc period (mt_sessions t)) period"

text \<open>The rewards for coverage and those for data, each as a stage; the second is not reached when the first fails.\<close>

definition reward_poc_and_dc ::
  "decimal_ops \<Rightarrow> (string \<Rightarrow> bool) \<Rightarrow> (u64 \<Rightarrow> bool) \<Rightarrow> mobile_answers \<Rightarrow> timestamp \<times> timestamp \<Rightarrow> rat \<Rightarrow> mobile_tables \<Rightarrow>
   (epoch_error + mobile_reward_share list) list \<times> mobile_tables" where
  "reward_poc_and_dc D is_pk valid_cell ma period price t =
     (if \<not> ma_query ma QuerySessions then ([Inl (EpochDb DbSql)], t)
      else let tr = epoch_transfer D price period t in
           if \<not> ma_to_f64 ma (tw_scale tr) then ([Inl EpochService], t)
           else case mobile_reward_poc D is_pk valid_cell ma period (tw_sum tr) t of
                  (poc, t) \<Rightarrow> ([poc, Inr (reward_dc D period tr)], t))"

definition mapper_pool :: "decimal_ops \<Rightarrow> timestamp \<times> timestamp \<Rightarrow> rat" where
  "mapper_pool D period = get_scheduled_tokens_for_mappers D (snd period - fst period)"

definition reward_mappers ::
  "decimal_ops \<Rightarrow> mobile_answers \<Rightarrow> timestamp \<times> timestamp \<Rightarrow> mobile_tables \<Rightarrow> epoch_error + mobile_reward_share list" where
  "reward_mappers D ma period t =
     (if \<not> ma_query ma QueryLocations then Inl (EpochDb DbSql)
      else let subscribers = aggregate_location_shares period (mt_locations t); pool = mapper_pool D period
           in Inr (with_unallocated D pool UnallocatedMapper period
                (into_subscriber_rewards D subscribers period (mapper_rewards_per_share D subscribers pool))))"

definition sp_pool :: "decimal_ops \<Rightarrow> timestamp \<times> timestamp \<Rightarrow> rat" where
  "sp_pool D period = get_scheduled_tokens_for_service_providers D (snd period - fst period)"

definition reward_service_providers ::
  "decimal_ops \<Rightarrow> mobile_answers \<Rightarrow> timestamp \<times> timestamp \<Rightarrow> rat \<Rightarrow> mobile_tables \<Rightarrow> epoch_error + mobile_reward_share list" where
  "reward_service_providers D ma period price t =
     (if \<not> ma_query ma QueryPayers then Inl (EpochDb DbSql)
      else case sum_data_sessions_to_dc_by_payer period (mt_sessions t) of
             Inl e \<Rightarrow> Inl (EpochDb e)
           | Inr payers \<Rightarrow>
               (case from_payers_dc (ma_provider ma) payers of
                  Inl _ \<Rightarrow> Inl EpochService
                | Inr shares \<Rightarrow>
                    let pool = sp_pool D period
                    in Inr (with_unallocated D pool UnallocatedServiceProvider period
                         (into_service_provider_rewards D shares period (sp_rewards_per_share D shares pool price)))))"

definition oracle_pool :: "decimal_ops \<Rightarrow> timestamp \<times> timestamp \<Rightarrow> rat" where
  "oracle_pool D period = get_scheduled_tokens_for_oracles D (snd period - fst period)"

definition mobile_reward_oracles :: "decimal_ops \<Rightarrow> timestamp \<times> timestamp \<Rightarrow> mobile_reward_share list" where
  "mobile_reward_oracles D period = with_unallocated D (oracle_pool D period) UnallocatedOracle period []"

section \<open>The loop\<close>

definition clear_mobile_tables :: "timestamp \<Rightarrow> mobile_tables \<Rightarrow> mobile_tables" where
  "clear_mobile_tables ts t =
     (let hb = clear_heartbeats ts (mt_heartbeats t) in
      t\<lparr>mt_heartbeats := hb\<lparr>st_db := clear_coverage_objects (st_db hb) ts\<rparr>, mt_speedtests := clear_speedtests (mt_speedtests t) ts,
        mt_sessions := clear_hotspot_data_sessions ts (mt_sessions t)\<rparr>)"

definition mobile_reward ::
  "decimal_ops \<Rightarrow> (string \<Rightarrow> bool) \<Rightarrow> (u64 \<Rightarrow> bool) \<Rightarrow> mobile_answers \<Rightarrow> scheduler \<Rightarrow> (mobile_tables, mobile_reward_share) reward_world \<Rightarrow>
   (epoch_error + unit) \<times> (mobile_tables, mobile_reward_share) reward_world" where
  "mobile_reward D is_pk valid_cell ma sc w =
     (case ma_price ma of
        None \<Rightarrow> (Inl EpochPrice, w)
      | Some p \<Rightarrow>
          let period = sc_period sc; price = to_mobile_bone_price D p in
          case reward_poc_and_dc D is_pk valid_cell ma period price (rw_tables w) of
            (stages, t) \<Rightarrow>
              run_epoch (ma_epoch ma) sc
                (stages @ [reward_mappers D ma period t, reward_service_providers D ma period price t, Inr (mobile_reward_oracles D period)])
                (clear_mobile_tables (fst period)) (w\<lparr>rw_tables := t\<rparr>))"

definition is_data_current ::
  "(timestamp \<Rightarrow> bool) \<Rightarrow> (mobile_query \<Rightarrow> bool) \<Rightarrow> (string \<rightharpoonup> string) \<Rightarrow> timestamp \<times> timestamp \<Rightarrow> mobile_tables \<Rightarrow> db_error + bool" where
  "is_data_current rep query meta period t =
     (case (if query QueryMeta then fetch_rewarded_timestamp rep ''disable_complete_data_checks_until'' meta else Inl DbSql) of
        Inl e \<Rightarrow> Inl e
      | Inr until \<Rightarrow>
          if snd period \<ge> until then
            if \<not> query QueryCbrs then Inl DbSql
            else if filter (\<lambda>r. hbr_latest r \<ge> snd period) (st_cbrs (mt_heartbeats t)) = [] then Inr False
            else if \<not> query QueryWifi then Inl DbSql
            else if filter (\<lambda>r. hbr_latest r \<ge> snd period) (st_wifi (mt_heartbeats t)) = [] then Inr False
            else if \<not> query QuerySpeedtests then Inl DbSql
            else Inr (filter (\<lambda>r. st_timestamp r \<ge> snd period) (mt_speedtests t) \<noteq> [])
          else Inr True)"

text \<open>One turn of the loop of \<open>run\<close>, with the time to sleep after it.\<close>

definition mobile_tick ::
  "decimal_ops \<Rightarrow> (string \<Rightarrow> bool) \<Rightarrow> (u64 \<Rightarrow> bool) \<Rightarrow> (timestamp \<Rightarrow> bool) \<Rightarrow> duration \<Rightarrow> duration \<Rightarrow> mobile_answers \<Rightarrow> timestamp \<Rightarrow>
   (mobile_tables, mobile_reward_share) reward_world \<Rightarrow> (epoch_error + duration) \<times> (mobile_tables, mobile_reward_share) reward_world" where
  "mobile_tick D is_pk valid_cell rep len offset ma now w =
     (case fetch_rewarded_timestamp rep LAST_REWARDED_END_TIME (rw_meta w) of
        Inl e \<Rightarrow> (Inl (EpochDb e), w)
      | Inr last_end \<Rightarrow>
          (case fetch_rewarded_timestamp rep NEXT_REWARDED_END_TIME (rw_meta w) of
             Inl e \<Rightarrow> (Inl (EpochDb e), w)
           | Inr next_end \<Rightarrow>
               let sc = new_scheduler len last_end next_end offset in
               if should_reward sc now then
                 (case is_data_current rep (ma_query ma) (rw_meta w) (sc_period sc) (rw_tables w) of
                    Inl e \<Rightarrow> (Inl (EpochDb e), w)
                  | Inr False \<Rightarrow> (Inr (minutes REWARDS_NOT_CURRENT_DELAY_PERIOD), w)
                  | Inr True \<Rightarrow>
                      (case mobile_reward D is_pk valid_cell ma sc w of
                         (Inl e, w) \<Rightarrow> (Inl e, w)
                       | (Inr _, w) \<Rightarrow> (Inr 0, w)))
               else (case sleep_duration sc now of Inl _ \<Rightarrow> (Inl EpochSleep, w) | Inr d \<Rightarrow> (Inr d, w))))"

section \<open>Periods\<close>

lemma mobile_reward_advances:
  assumes "mobile_reward D is_pk valid_cell ma sc w = (res, w')" "sc = new_scheduler len a b offset" "should_reward sc now"
    "fetch_rewarded_timestamp rep LAST_REWARDED_END_TIME (rw_meta w) = Inr a" "fetch_rewarded_timestamp rep NEXT_REWARDED_END_TIME (rw_meta w) = Inr b"
  shows "rw_meta w' = rw_meta w \<and> eo_manifests (rw_out w') = eo_manifests (rw_out w) \<or> period_advanced rep len offset now w w'"
proof (cases "ma_price ma")
  case None
  then show ?thesis using assms(1) by (simp add: mobile_reward_def)
next
  case (Some p)
  obtain stages t where s: "reward_poc_and_dc D is_pk valid_cell ma (sc_period sc) (to_mobile_bone_price D p) (rw_tables w) = (stages, t)" by fastforce
  note run = assms(1) [unfolded mobile_reward_def Some option.case Let_def s prod.case]
  have same: "period_advanced rep len offset now (w\<lparr>rw_tables := t\<rparr>) w' = period_advanced rep len offset now w w'"
    by (simp add: period_advanced_def)
  show ?thesis using run_epoch_advances [OF run assms(2,3), of rep] assms(4,5) unfolding same by simp
qed

lemma mobile_tick_effect:
  assumes "mobile_tick D is_pk valid_cell rep len offset ma now w = (res, w')"
  shows "rw_meta w' = rw_meta w \<and> eo_manifests (rw_out w') = eo_manifests (rw_out w) \<or> period_advanced rep len offset now w w'"
proof (cases "w' = w")
  case False
  then obtain a b r where run: "fetch_rewarded_timestamp rep LAST_REWARDED_END_TIME (rw_meta w) = Inr a"
      "fetch_rewarded_timestamp rep NEXT_REWARDED_END_TIME (rw_meta w) = Inr b" "should_reward (new_scheduler len a b offset) now"
      "mobile_reward D is_pk valid_cell ma (new_scheduler len a b offset) w = (r, w')"
    using assms by (auto simp: mobile_tick_def Let_def split: sum.splits if_splits bool.splits prod.splits)
  show ?thesis by (rule mobile_reward_advances [OF run(4) refl run(3,1,2)])
qed simp

interpretation mobile_epochs: epoch_rewarder "mobile_tick D is_pk valid_cell rep len offset" rep len offset
  for D is_pk valid_cell rep len offset
  by unfold_locales (rule mobile_tick_effect)

section \<open>Points\<close>

lemma assoc_insert_get: "map_of (assoc_insert k v xs) k' = (if k' = k then Some v else map_of xs k')"
  by (induction xs) auto

text \<open>The radios of the hexes covered, and those that have an entry.\<close>

definition outdoor_radios :: "outdoor_level list \<Rightarrow> (pubkey \<times> key_type) set" where
  "outdoor_radios ls = (\<lambda>l. (ol_hotspot l, ol_radio_key l)) ` set ls"

definition indoor_radios :: "indoor_level list \<Rightarrow> (pubkey \<times> key_type) set" where
  "indoor_radios ls = (\<lambda>l. (il_hotspot l, il_radio_key l)) ` set ls"

definition entry_radios :: "('v \<Rightarrow> (pubkey \<times> key_type) set) \<Rightarrow> ('k \<times> 'v) list \<Rightarrow> (pubkey \<times> key_type) set" where
  "entry_radios g xs = (\<Union>x \<in> set xs. g (snd x))"

definition covered_radios :: "covered_hexes \<Rightarrow> (pubkey \<times> key_type) set" where
  "covered_radios ch = entry_radios outdoor_radios (ch_outdoor ch) \<union> entry_radios (entry_radios indoor_radios) (ch_indoor ch)"

definition radio_entry :: "coverage_points \<Rightarrow> pubkey \<Rightarrow> string option \<Rightarrow> radio_points option" where
  "radio_entry cp hotspot cbsd = (case map_of cp hotspot of None \<Rightarrow> None | Some h \<Rightarrow> map_of (hp_radios h) cbsd)"

definition radios_known :: "covered_hexes \<Rightarrow> coverage_points \<Rightarrow> bool" where
  "radios_known ch cp \<longleftrightarrow> (\<forall>(hotspot, key) \<in> covered_radios ch. radio_entry cp hotspot (into_cbsd_id key) \<noteq> None)"

lemma entry_radios_update:
  assumes "\<And>v. g (f v) \<subseteq> insert a (g v)" "g d = {}"
  shows "entry_radios g (entry_update k d f xs) \<subseteq> insert a (entry_radios g xs)"
proof (induction xs)
  case Nil
  show ?case using assms(1) [of d] assms(2) by (simp add: entry_radios_def)
next
  case (Cons x xs)
  obtain k' v where x: "x = (k', v)" by fastforce
  show ?case using Cons assms(1) [of v] by (cases "k' = k") (auto simp: x entry_radios_def)
qed

lemma push_coverage_radios:
  "covered_radios (push_coverage hotspot hc ch) \<subseteq> insert (hotspot, hc_radio_key hc) (covered_radios ch)"
proof (cases "hc_indoor hc")
  case True
  define l where "l = \<lparr>il_radio_key = hc_radio_key hc, il_seniority = hc_claim_time hc, il_hotspot = hotspot, il_signal_level = hc_signal_level hc\<rparr>"
  have "indoor_radios (ls @ [l]) \<subseteq> insert (hotspot, hc_radio_key hc) (indoor_radios ls)" for ls by (auto simp: indoor_radios_def l_def)
  then have level: "entry_radios indoor_radios (entry_update (hc_signal_level hc) [] (\<lambda>ls. ls @ [l]) levels) \<subseteq>
      insert (hotspot, hc_radio_key hc) (entry_radios indoor_radios levels)" for levels
    by (rule entry_radios_update [where g = indoor_radios]) (simp add: indoor_radios_def)
  have all: "entry_radios (entry_radios indoor_radios) (entry_update (hc_hex hc) [] (entry_update (hc_signal_level hc) [] (\<lambda>ls. ls @ [l])) (ch_indoor ch)) \<subseteq>
      insert (hotspot, hc_radio_key hc) (entry_radios (entry_radios indoor_radios) (ch_indoor ch))"
    by (rule entry_radios_update [where g = "entry_radios indoor_radios", OF level]) (simp add: entry_radios_def)
  have "covered_radios (push_coverage hotspot hc ch) = entry_radios outdoor_radios (ch_outdoor ch) \<union>
      entry_radios (entry_radios indoor_radios) (entry_update (hc_hex hc) [] (entry_update (hc_signal_level hc) [] (\<lambda>ls. ls @ [l])) (ch_indoor ch))"
    using True by (simp add: covered_radios_def push_coverage_def l_def)
  then show ?thesis using all unfolding covered_radios_def [of ch] by blast
next
  case False
  define l where "l = \<lparr>ol_radio_key = hc_radio_key hc, ol_seniority = hc_claim_time hc, ol_hotspot = hotspot,
    ol_signal_power = (if is_wifi (hc_radio_key hc) then hc_signal_power hc - 300 else hc_signal_power hc), ol_signal_level = hc_signal_level hc\<rparr>"
  have "outdoor_radios (ls @ [l]) \<subseteq> insert (hotspot, hc_radio_key hc) (outdoor_radios ls)" for ls by (auto simp: outdoor_radios_def l_def)
  then have all: "entry_radios outdoor_radios (entry_update (hc_hex hc) [] (\<lambda>ls. ls @ [l]) (ch_outdoor ch)) \<subseteq>
      insert (hotspot, hc_radio_key hc) (entry_radios outdoor_radios (ch_outdoor ch))"
    by (rule entry_radios_update [where g = outdoor_radios]) (simp add: outdoor_radios_def)
  have "covered_radios (push_coverage hotspot hc ch) = entry_radios outdoor_radios (entry_update (hc_hex hc) [] (\<lambda>ls. ls @ [l]) (ch_outdoor ch)) \<union>
      entry_radios (entry_radios indoor_radios) (ch_indoor ch)"
    using False by (simp add: covered_radios_def push_coverage_def l_def Let_def)
  then show ?thesis using all unfolding covered_radios_def [of ch] by blast
qed

lemma aggregate_coverage_radios:
  assumes "aggregate_coverage valid_cell hotspot (map Inr hexes :: ('e + hex_coverage) list) ch = (ch', res)" "\<forall>hc \<in> set hexes. hc_radio_key hc = key"
  shows "covered_radios ch' \<subseteq> insert (hotspot, key) (covered_radios ch)"
  using assms
proof (induction hexes arbitrary: ch)
  case (Cons hc hexes)
  show ?case
  proof (cases "valid_cell (hc_hex hc)")
    case True
    then show ?thesis using Cons.IH [of "push_coverage hotspot hc ch"] Cons.prems push_coverage_radios [of hotspot hc ch] by auto
  qed (use Cons.prems in auto)
qed auto

lemma aggregate_coverage_valid:
  "\<forall>hc \<in> set hexes. valid_cell (hc_hex hc) \<Longrightarrow>
   snd (aggregate_coverage valid_cell hotspot (map Inr hexes :: ('e + hex_coverage) list) ch) = Inr ()"
  by (induction hexes arbitrary: ch) auto

lemma covered_hex_stream_elem:
  assumes "covered_hex_stream is_pk db key u sen = (db', hexes)" "hc \<in> set hexes"
  shows "hc_radio_key hc = key_decode is_pk (key_text key) \<and> (\<exists>h \<in> set (ct_hexes db). hc_hex hc = hx_hex h)"
  using assms by (auto simp: covered_hex_stream_def Let_def) blast

lemma covered_hex_stream_tables: "covered_hex_stream is_pk db key u sen = (db', hexes) \<Longrightarrow> ct_hexes db' = ct_hexes db \<and> ct_objects db' = ct_objects db"
  by (auto simp: covered_hex_stream_def Let_def)

definition keys_decode :: "(string \<Rightarrow> bool) \<Rightarrow> heartbeat_reward \<Rightarrow> bool" where
  "keys_decode is_pk hb \<longleftrightarrow> key_decode is_pk (key_text (reward_key hb)) = reward_key hb"

definition cells_valid :: "(u64 \<Rightarrow> bool) \<Rightarrow> coverage_tables \<Rightarrow> bool" where
  "cells_valid valid_cell db \<longleftrightarrow> (\<forall>h \<in> set (ct_hexes db). valid_cell (hx_hex h))"

lemma radio_entry_update:
  "radio_entry (entry_update h \<lparr>hp_multiplier = m, hp_radios = []\<rparr> (\<lambda>x. x\<lparr>hp_radios := assoc_insert c r (hp_radios x)\<rparr>) cp) h' c' =
    (if h' = h \<and> c' = c then Some r else radio_entry cp h' c')"
  by (simp add: radio_entry_def entry_update_map_of assoc_insert_get split: option.splits)

definition zero_points :: "coverage_points \<Rightarrow> bool" where
  "zero_points cp \<longleftrightarrow> (\<forall>h c r. radio_entry cp h c = Some r \<longrightarrow> pt_points r = 0)"

lemma add_heartbeat_inv:
  assumes "add_heartbeat is_pk valid_cell averages period_end hb (db, ch, cp) = (res, db', ch', cp')"
    "keys_decode is_pk hb" "cells_valid valid_cell db" "radios_known ch cp" "zero_points cp"
  shows "res \<noteq> Inl PointsPanic \<and> cells_valid valid_cell db' \<and> (res = Inr () \<longrightarrow> radios_known ch' cp' \<and> zero_points cp')"
proof (cases "fetch_seniority db (reward_key hb) period_end")
  case (Inl e)
  then show ?thesis using assms(1,3) by (auto simp: add_heartbeat_def)
next
  case (Inr sen)
  obtain db1 hexes where s: "covered_hex_stream is_pk db (reward_key hb) (hr_coverage_object hb) sen = (db1, hexes)" by fastforce
  obtain ch1 r where a: "aggregate_coverage valid_cell (hr_hotspot hb) (map Inr hexes :: (unit + hex_coverage) list) ch = (ch1, r)" by fastforce
  have keys: "\<forall>hc \<in> set hexes. hc_radio_key hc = reward_key hb" using covered_hex_stream_elem [OF s] assms(2) by (simp add: keys_decode_def)
  have "\<forall>hc \<in> set hexes. valid_cell (hc_hex hc)" using covered_hex_stream_elem [OF s] assms(3) by (fastforce simp: cells_valid_def)
  then have r: "r = Inr ()" using aggregate_coverage_valid [where 'e = unit, of hexes valid_cell "hr_hotspot hb" ch] a by simp
  have eqs: "res = Inr ()" "db' = db1" "ch' = ch1" "cp' = entry_update (hr_hotspot hb)
      \<lparr>hp_multiplier = (case averages (hr_hotspot hb) of None \<Rightarrow> 0 | Some a \<Rightarrow> avg_multiplier a), hp_radios = []\<rparr>
      (\<lambda>h. h\<lparr>hp_radios := assoc_insert (into_cbsd_id (reward_key hb))
         (new_radio_points (hr_multiplier hb) (hr_coverage_object hb) (sen_ts sen)) (hp_radios h)\<rparr>) cp"
    using assms(1) Inr s a r by (simp_all add: add_heartbeat_def Let_def)
  have "covered_radios ch1 \<subseteq> insert (hr_hotspot hb, reward_key hb) (covered_radios ch)" by (rule aggregate_coverage_radios [OF a keys])
  then have "radios_known ch1 cp'" using assms(4) unfolding radios_known_def eqs(4) radio_entry_update by auto
  moreover have "zero_points cp'" using assms(5) unfolding zero_points_def eqs(4) radio_entry_update by (auto simp: new_radio_points_def)
  moreover have "cells_valid valid_cell db1" using covered_hex_stream_tables [OF s] assms(3) by (simp add: cells_valid_def)
  ultimately show ?thesis using eqs(1-3) by simp
qed

lemma add_heartbeats_inv:
  assumes "add_heartbeats is_pk valid_cell averages period_end hbs (db, ch, cp) = (res, db', ch', cp')"
    "\<forall>hb. Inr hb \<in> set hbs \<longrightarrow> keys_decode is_pk hb" "cells_valid valid_cell db" "radios_known ch cp" "zero_points cp"
  shows "res \<noteq> Inl PointsPanic \<and> (res = Inr () \<longrightarrow> radios_known ch' cp' \<and> zero_points cp')"
  using assms
proof (induction hbs arbitrary: db ch cp)
  case (Cons x hbs)
  show ?case
  proof (cases x)
    case (Inl u)
    then show ?thesis using Cons.prems(1) by auto
  next
    case (Inr hb)
    obtain r db1 ch1 cp1 where a: "add_heartbeat is_pk valid_cell averages period_end hb (db, ch, cp) = (r, db1, ch1, cp1)" by (metis prod_cases4)
    have "keys_decode is_pk hb" using Cons.prems(2) Inr by simp
    note inv = add_heartbeat_inv [OF a this Cons.prems(3-5)]
    show ?thesis
    proof (cases r)
      case (Inl e)
      then show ?thesis using Cons.prems(1) Inr a inv by auto
    next
      case r: (Inr v)
      then show ?thesis using Cons.IH [of db1 ch1 cp1] Cons.prems Inr a inv by simp
    qed
  qed
qed auto

lemma outdoor_hex_radios: "c \<in> set (outdoor_hex_rewards ls) \<Longrightarrow> (cr_hotspot c, cr_radio_key c) \<in> outdoor_radios ls"
  by (auto simp: outdoor_hex_rewards_def outdoor_radios_def dest!: set_zip_leftD in_set_takeD)

lemma indoor_hex_radios:
  assumes c: "c \<in> set (indoor_hex_rewards levels)"
  shows "(cr_hotspot c, cr_radio_key c) \<in> entry_radios indoor_radios levels"
proof -
  have ne: "levels \<noteq> []" using c by (auto simp: indoor_hex_rewards_def)
  then have "Max (fst ` set levels) \<in> fst ` set levels" by (intro Max_in) auto
  then obtain radios where m: "map_of levels (Max (fst ` set levels)) = Some radios" by (metis map_of_eq_None_iff not_Some_eq)
  have "c \<in> set (map (\<lambda>c. \<lparr>cr_radio_key = il_radio_key c, cr_points = indoor_points (il_signal_level c), cr_hotspot = il_hotspot c\<rparr>)
      (take 5 (sort_key indoor_key radios)))"
    using c indoor_hex_rewards_best [OF ne m] by simp
  then have "(cr_hotspot c, cr_radio_key c) \<in> indoor_radios radios" by (auto simp: indoor_radios_def dest!: in_set_takeD)
  then show ?thesis using map_of_SomeD [OF m] unfolding entry_radios_def by force
qed

lemma into_coverage_rewards_radios:
  assumes "cr \<in> set (into_coverage_rewards ch)"
  shows "(cr_hotspot cr, cr_radio_key cr) \<in> covered_radios ch"
proof -
  consider k ls where "(k, ls) \<in> set (ch_outdoor ch)" "cr \<in> set (outdoor_hex_rewards ls)"
    | k levels where "(k, levels) \<in> set (ch_indoor ch)" "cr \<in> set (indoor_hex_rewards levels)"
    using assms unfolding into_coverage_rewards_def by auto
  then show ?thesis
  proof cases
    case 1
    then show ?thesis using outdoor_hex_radios unfolding covered_radios_def entry_radios_def [of outdoor_radios] by force
  next
    case 2
    then show ?thesis using indoor_hex_radios unfolding covered_radios_def entry_radios_def [of "entry_radios indoor_radios"] by force
  qed
qed

text \<open>The points a list of hexagon rewards gives to a radio.\<close>

definition points_of :: "pubkey \<Rightarrow> string option \<Rightarrow> coverage_reward list \<Rightarrow> rat list" where
  "points_of hotspot cbsd crs = map cr_points (filter (\<lambda>c. cr_hotspot c = hotspot \<and> into_cbsd_id (cr_radio_key c) = cbsd) crs)"

lemma add_coverage_reward_entry:
  assumes "radio_entry cp (cr_hotspot cr) (into_cbsd_id (cr_radio_key cr)) = Some r"
  shows "\<exists>cp'. add_coverage_reward D cr cp = Some cp' \<and> (\<forall>h c. radio_entry cp' h c =
    (if h = cr_hotspot cr \<and> c = into_cbsd_id (cr_radio_key cr) then Some (r\<lparr>pt_points := d_add D (pt_points r) (cr_points cr)\<rparr>)
     else radio_entry cp h c))"
  using assms by (auto simp: radio_entry_def add_coverage_reward_def assoc_insert_get split: option.splits)

lemma add_coverage_rewards_entry:
  assumes "\<forall>cr \<in> set crs. radio_entry cp (cr_hotspot cr) (into_cbsd_id (cr_radio_key cr)) \<noteq> None"
  shows "\<exists>cp'. add_coverage_rewards D crs cp = Some cp' \<and> (\<forall>h c. radio_entry cp' h c =
    map_option (\<lambda>r. r\<lparr>pt_points := foldl (d_add D) (pt_points r) (points_of h c crs)\<rparr>) (radio_entry cp h c))"
  using assms
proof (induction crs arbitrary: cp)
  case Nil
  show ?case by (simp add: points_of_def option.map_ident)
next
  case (Cons cr crs)
  obtain r where r: "radio_entry cp (cr_hotspot cr) (into_cbsd_id (cr_radio_key cr)) = Some r" using Cons.prems by auto
  obtain cp1 where cp1: "add_coverage_reward D cr cp = Some cp1" "\<forall>h c. radio_entry cp1 h c =
      (if h = cr_hotspot cr \<and> c = into_cbsd_id (cr_radio_key cr) then Some (r\<lparr>pt_points := d_add D (pt_points r) (cr_points cr)\<rparr>)
       else radio_entry cp h c)" using add_coverage_reward_entry [OF r, of D] by blast
  have "\<forall>c \<in> set crs. radio_entry cp1 (cr_hotspot c) (into_cbsd_id (cr_radio_key c)) \<noteq> None" using Cons.prems cp1(2) by auto
  from Cons.IH [OF this] obtain cp2 where cp2: "add_coverage_rewards D crs cp1 = Some cp2" "\<forall>h c. radio_entry cp2 h c =
      map_option (\<lambda>r. r\<lparr>pt_points := foldl (d_add D) (pt_points r) (points_of h c crs)\<rparr>) (radio_entry cp1 h c)" by blast
  have "radio_entry cp2 h c = map_option (\<lambda>r. r\<lparr>pt_points := foldl (d_add D) (pt_points r) (points_of h c (cr # crs))\<rparr>) (radio_entry cp h c)" for h c
    using cp2(2) cp1(2) r by (auto simp: points_of_def)
  then show ?case using cp1(1) cp2(1) by auto
qed

text \<open>C19: adding up the points of an epoch never panics when the stored hexes are cells and the text of every radio key is read back as the key: every radio that
  covers a hexagon has an entry. When no database error occurs, each radio then holds the points of exactly the hexagons rewarded to it,
  added in their order.\<close>

theorem aggregate_points_complete:
  assumes "\<forall>hb. Inr hb \<in> set hbs \<longrightarrow> keys_decode is_pk hb" "cells_valid valid_cell db"
    "add_heartbeats is_pk valid_cell averages period_end hbs (db, no_coverage, []) = (res, db', ch, entries)"
  shows "case res of
      Inl e \<Rightarrow> e \<noteq> PointsPanic \<and> aggregate_points D is_pk valid_cell averages period_end hbs db = (Inl e, db')
    | Inr _ \<Rightarrow> \<exists>cp. aggregate_points D is_pk valid_cell averages period_end hbs db = (Inr cp, db') \<and>
        (\<forall>h c. radio_entry cp h c =
           map_option (\<lambda>r. r\<lparr>pt_points := foldl (d_add D) 0 (points_of h c (into_coverage_rewards ch))\<rparr>) (radio_entry entries h c))"
proof -
  have init: "radios_known no_coverage []" "zero_points []" by (simp_all add: radios_known_def covered_radios_def entry_radios_def no_coverage_def zero_points_def radio_entry_def)
  note inv = add_heartbeats_inv [OF assms(3,1,2) init]
  show ?thesis
  proof (cases res)
    case (Inl e)
    then show ?thesis using inv assms(3) by (simp add: aggregate_points_def)
  next
    case (Inr u)
    then have known: "radios_known ch entries" "zero_points entries" using inv by simp_all
    then have "\<forall>cr \<in> set (into_coverage_rewards ch). radio_entry entries (cr_hotspot cr) (into_cbsd_id (cr_radio_key cr)) \<noteq> None"
      using into_coverage_rewards_radios known(1) unfolding radios_known_def by blast
    from add_coverage_rewards_entry [OF this, of D] obtain cp where cp: "add_coverage_rewards D (into_coverage_rewards ch) entries = Some cp"
      "\<forall>h c. radio_entry cp h c = map_option (\<lambda>r. r\<lparr>pt_points := foldl (d_add D) (pt_points r) (points_of h c (into_coverage_rewards ch))\<rparr>) (radio_entry entries h c)"
      by blast
    have "radio_entry cp h c = map_option (\<lambda>r. r\<lparr>pt_points := foldl (d_add D) 0 (points_of h c (into_coverage_rewards ch))\<rparr>) (radio_entry entries h c)" for h c
      using cp(2) known(2) by (cases "radio_entry entries h c") (simp_all add: zero_points_def)
    then show ?thesis using Inr assms(3) cp(1) by (simp add: aggregate_points_def)
  qed
qed

definition sample_coverage :: coverage_tables where
  "sample_coverage = \<lparr>ct_objects = [\<lparr>obj_uuid = ''u'', obj_radio_type = HbWifi, obj_radio_key = ''h'', obj_indoor = True, obj_claim_time = 1,
       obj_trust_score = 0, obj_inserted_at = 2, obj_invalidated_at = None\<rparr>],
     ct_hexes = [\<lparr>hx_uuid = ''u'', hx_hex = 9, hx_signal_level = HighSignal, hx_signal_power = 0\<rparr>],
     ct_seniority = [\<lparr>sen_uuid = ''u'', sen_ts = 1, sen_last_heartbeat = 3, sen_inserted_at = 3, sen_update_reason = NewCoverageClaimTime,
       sen_radio_key = ''h'', sen_radio_type = HbWifi\<rparr>]\<rparr>"

definition sample_heartbeat :: heartbeat_reward where
  "sample_heartbeat = \<lparr>hr_hotspot = ''h'', hr_cbsd_id = None, hr_cell_type = NovaGenericWifiIndoor, hr_multiplier = 1, hr_coverage_object = ''u''\<rparr>"

theorem aggregate_points_complete_witness:
  "\<exists>cp r. aggregate_points exact_decimal (\<lambda>s. s = ''h'') (\<lambda>_. True) Map.empty 10 [Inr sample_heartbeat] sample_coverage = (Inr cp, sample_coverage) \<and>
    radio_entry cp ''h'' None = Some r \<and> pt_points r = 400"
proof -
  let ?pk = "\<lambda>s. s = ''h''" and ?hbs = "[Inr sample_heartbeat] :: (unit + heartbeat_reward) list"
  let ?ch = "\<lparr>ch_indoor = [(9, [(HighSignal, [\<lparr>il_radio_key = WifiKey ''h'', il_seniority = 1, il_hotspot = ''h'', il_signal_level = HighSignal\<rparr>])])],
    ch_outdoor = []\<rparr>"
  let ?entries = "[(''h'', \<lparr>hp_multiplier = 0, hp_radios = [(None, new_radio_points 1 ''u'' 1)]\<rparr>)]"
  have keys: "\<forall>hb. Inr hb \<in> set ?hbs \<longrightarrow> keys_decode ?pk hb" by (simp add: keys_decode_def key_decode_def sample_heartbeat_def reward_key_def)
  have cells: "cells_valid (\<lambda>_. True) sample_coverage" by (simp add: cells_valid_def)
  have run: "add_heartbeats ?pk (\<lambda>_. True) Map.empty 10 ?hbs (sample_coverage, no_coverage, []) = (Inr (), sample_coverage, ?ch, ?entries)"
    by (simp add: add_heartbeat_def Let_def sample_heartbeat_def sample_coverage_def fetch_seniority_def reward_key_def covered_hex_stream_def
      key_decode_def push_coverage_def no_coverage_def)
  have "points_of ''h'' None (into_coverage_rewards ?ch) = [400]"
    by (simp add: points_of_def into_coverage_rewards_def indoor_hex_rewards_def Let_def MAX_INDOOR_RADIOS_PER_RES12_HEX_def)
  then show ?thesis using aggregate_points_complete [where D = exact_decimal, OF keys cells run]
    by (auto simp: radio_entry_def exact_decimal_def)
qed

end
