(* ===== verification/Mobile_Payouts.thy ===== *)
theory Mobile_Payouts
  imports Mobile_Rewards
begin

text \<open>
  What an epoch of the mobile network pays: the amounts of every pool against the pool, with the rounding of decimals; the cap on
  data transfer; the manifest of an epoch; and the periods over whole runs of the rewarder, with the manifest that is
  lost when its write fails.
\<close>

section \<open>What a pool pays\<close>

lemma laws_round:
  assumes "decimal_laws D"
  shows "in_range (x * y) \<Longrightarrow> rounds_to (x * y) (d_mul D x y)" "y \<noteq> 0 \<Longrightarrow> in_range (x / y) \<Longrightarrow> rounds_to (x / y) (d_div D x y)"
  using assms unfolding decimal_laws_def by blast+

lemma share_amount_simp [simp]: "share_amount \<lparr>ms_period = p, ms_reward = r\<rparr> = reward_amount r"
  by (simp add: share_amount_def)

definition amounts :: "mobile_reward_share list \<Rightarrow> nat" where
  "amounts rs = sum_list (map share_amount rs)"

lemma amounts_append [simp]: "amounts (xs @ ys) = amounts xs + amounts ys"
  by (simp add: amounts_def)

lemma amounts_filter: "amounts (filter (\<lambda>s. share_amount s > 0) rs) = amounts rs"
  unfolding amounts_def by (induction rs) auto

lemma amounts_map: "amounts (map f xs) = sum_list (map (\<lambda>x. share_amount (f x)) xs)"
  by (simp add: amounts_def comp_def)

lemma unallocated_share_amounts: "amounts (unallocated_share period ty n) = n"
  by (simp add: amounts_def unallocated_share_def)

lemma with_unallocated_amounts:
  assumes "decimal_laws D" "representable pool" "0 \<le> pool" "pool < 2 ^ 64" "amounts rs < 2 ^ 64"
  shows "int (amounts (with_unallocated D pool ty period rs)) = max (int (amounts rs)) \<lfloor>pool\<rfloor>"
  using pool_accounted [OF assms(1-4), of "map share_amount rs"] assms(5)
  by (simp add: with_unallocated_def unallocated_share_amounts amounts_def [symmetric])

subsection \<open>Data transfer\<close>

lemma transfer_amounts:
  "amounts (transfer_into_rewards D tr period) = sum_list (map (\<lambda>(_, r). to_u64_or_0 (trunc_int (d_mul D (tr_bones r) (tw_scale tr)))) (tw_rewards tr))"
  unfolding transfer_into_rewards_def amounts_filter amounts_map by (simp add: case_prod_unfold)

lemma to_u64_rounds_to_le:
  assumes "rounds_to x r" "of_nat k \<le> x" "k < 2 ^ 64"
  shows "of_nat k \<le> r"
proof -
  have "representable (of_nat k)" using representable_int [of "int k"] assms(3) by simp
  then show ?thesis using assms(1,2) unfolding rounds_to_def by blast
qed

text \<open>A sum of numbers is at least that of their integral parts: rounding never crosses an integer.\<close>

lemma d_sum_ge_amounts:
  assumes "decimal_laws D" "\<forall>x \<in> set xs. 0 \<le> x" "of_nat k \<le> a" "a + sum_list xs + of_nat (length xs) < 2 ^ 63"
  shows "of_nat (k + sum_list (map (\<lambda>x. to_u64_or_0 (trunc_int x)) xs)) \<le> foldl (d_add D) a xs"
  using assms(2-)
proof (induction xs arbitrary: a k)
  case (Cons x xs)
  have x: "0 \<le> x" "of_nat (to_u64_or_0 (trunc_int x)) \<le> x" using Cons.prems(1) to_u64_or_0_le by simp_all
  have rest: "0 \<le> sum_list xs" using Cons.prems(1) by (simp add: sum_list_nonneg)
  have a: "0 \<le> a" using Cons.prems(2) by (meson of_nat_0_le_iff order_trans)
  have small: "a + x + 1 < 2 ^ 63" using Cons.prems(3) rest x(1) by simp
  let ?k = "k + to_u64_or_0 (trunc_int x)"
  have le: "of_nat ?k \<le> a + x" using Cons.prems(2) x(2) by simp
  then have "(of_nat ?k :: rat) < of_nat (2 ^ 64)" using small by simp
  then have k: "?k < 2 ^ 64" by (simp only: of_nat_less_iff)
  have r: "rounds_to (a + x) (d_add D a x)" using assms(1) a x(1) small unfolding decimal_laws_def by simp
  have near: "d_add D a x \<le> a + x + 1" using rounds_to_error [OF r, of 0] a x(1) small by simp
  have "d_add D a x + sum_list xs + of_nat (length xs) < 2 ^ 63" using near Cons.prems(3) by simp
  then have "of_nat (?k + sum_list (map (\<lambda>x. to_u64_or_0 (trunc_int x)) xs)) \<le> foldl (d_add D) (d_add D a x) xs"
    using Cons.IH [of ?k "d_add D a x"] to_u64_rounds_to_le [OF r le k] Cons.prems(1) by simp
  then show ?case by (simp add: add.assoc)
qed simp

definition scaled_bones :: "decimal_ops \<Rightarrow> transfer_rewards \<Rightarrow> rat list" where
  "scaled_bones D tr = map (\<lambda>(_, r). d_mul D (tr_bones r) (tw_scale tr)) (tw_rewards tr)"

lemma reward_dc_amounts:
  assumes "decimal_laws D" "\<forall>x \<in> set (scaled_bones D tr). 0 \<le> x" "sum_list (scaled_bones D tr) + of_nat (length (tw_rewards tr)) < 2 ^ 63"
    "representable (transfer_total D tr)" "transfer_total D tr < 2 ^ 64"
  shows "int (amounts (reward_dc D period tr)) = \<lfloor>transfer_total D tr\<rfloor>"
proof -
  let ?paid = "amounts (transfer_into_rewards D tr period)"
  have paid: "?paid = sum_list (map (\<lambda>x. to_u64_or_0 (trunc_int x)) (scaled_bones D tr))"
    unfolding transfer_amounts scaled_bones_def by (simp add: comp_def case_prod_unfold)
  have "of_nat ?paid \<le> transfer_total D tr"
    using d_sum_ge_amounts [OF assms(1,2), of 0 0] assms(3) unfolding paid transfer_total_def scaled_bones_def [symmetric]
    by (simp add: scaled_bones_def)
  moreover from this have "0 \<le> transfer_total D tr" by (meson of_nat_0_le_iff order_trans)
  moreover from \<open>of_nat ?paid \<le> transfer_total D tr\<close> have "(of_nat ?paid :: rat) < of_nat (2 ^ 64)" using assms(5) by simp
  then have "?paid < 2 ^ 64" by (simp only: of_nat_less_iff)
  moreover have "int ?paid \<le> \<lfloor>transfer_total D tr\<rfloor>" using \<open>of_nat ?paid \<le> transfer_total D tr\<close> by (simp add: le_floor_iff)
  ultimately show ?thesis using with_unallocated_amounts [OF assms(1,4)] assms(5) unfolding reward_dc_def by simp
qed

subsection \<open>Mappers\<close>

lemma subscriber_amounts:
  "amounts (into_subscriber_rewards D subs period rate) = length subs * to_u64_or_0 (trunc_int (d_mul D DISCOVERY_MAPPING_SHARES rate))"
  unfolding into_subscriber_rewards_def amounts_filter amounts_map by (simp add: sum_list_triv)

lemma subscriber_payout:
  assumes "decimal_laws D" "0 \<le> pool" "pool * 10 ^ 9 + 62 < 2 ^ 96" "n = length subs" "n < 2 ^ 64"
  shows "of_nat (amounts (into_subscriber_rewards D subs period (mapper_rewards_per_share D subs pool))) \<le> pool + 31 * of_nat n / 10 ^ 9"
proof (cases "n = 0")
  case True
  then show ?thesis using assms(2,4) by (simp add: subscriber_amounts)
next
  case False
  have n: "1 \<le> (of_nat n :: rat)" using False by (simp add: Suc_leI)
  have nr: "(of_nat n :: rat) < of_nat (2 ^ 64)" using assms(5) by (simp only: of_nat_less_iff)
  have "(of_nat n * 30 :: rat) = of_int (int n * 30)" by simp
  then have "representable (of_nat n * 30 :: rat)" using representable_int [of "int n * 30"] assms(5) by simp
  moreover have "rounds_to (of_nat n * 30) (d_mul D (of_nat n) 30)" using assms(1) nr unfolding decimal_laws_def by simp
  ultimately have total: "d_mul D (of_nat n) DISCOVERY_MAPPING_SHARES = of_nat n * 30"
    using rounds_to_exact by (simp add: DISCOVERY_MAPPING_SHARES_def)
  define q where "q = pool / (of_nat n * 30)"
  define rate where "rate = d_div D pool (of_nat n * 30)"
  have "pool / (of_nat n * 30) \<le> pool / 1" by (rule divide_left_mono) (use assms(2) n in simp_all)
  then have q: "0 \<le> q" "q \<le> pool" using assms(2) by (simp_all add: q_def)
  then have "q * 10 ^ 9 + 1 < 2 ^ 96" using assms(3) by simp
  then have rate: "0 \<le> rate" "rate \<le> q + 1 / 10 ^ 9"
    using d_div_bounds [OF assms(1,2), of "of_nat n * 30"] n by (simp_all add: q_def rate_def)
  have nq: "of_nat n * (30 * q) = pool" using n by (simp add: q_def)
  have "30 * q \<le> of_nat n * (30 * q)" using n q(1) mult_right_mono [of 1 "of_nat n" "30 * q"] by simp
  then have "30 * rate \<le> pool + 30 / 10 ^ 9" using rate(2) nq by simp
  then have "30 * rate * 10 ^ 9 + 1 < 2 ^ 96" using assms(3) by simp
  then have m: "0 \<le> d_mul D 30 rate \<and> d_mul D 30 rate \<le> 30 * rate + 1 / 10 ^ 9" using d_mul_bounds [OF assms(1), of 30 rate 9] rate(1) by simp
  have "of_nat n * of_nat (to_u64_or_0 (trunc_int (d_mul D 30 rate))) \<le> of_nat n * (30 * q + 31 / 10 ^ 9)"
    by (rule mult_left_mono) (use to_u64_or_0_le [of "d_mul D 30 rate"] m rate(2) in \<open>linarith, simp\<close>)
  also have "\<dots> = pool + 31 * of_nat n / 10 ^ 9" using nq by (simp add: distrib_left)
  finally have "of_nat n * of_nat (to_u64_or_0 (trunc_int (d_mul D 30 rate))) \<le> pool + 31 * of_nat n / 10 ^ 9" .
  moreover have "mapper_rewards_per_share D subs pool = rate"
    using total n by (simp add: mapper_rewards_per_share_def assms(4) [symmetric] rate_def)
  ultimately show ?thesis by (simp add: subscriber_amounts assms(4) [symmetric] DISCOVERY_MAPPING_SHARES_def)
qed

subsection \<open>Service providers\<close>

lemma provider_amounts:
  "amounts (into_service_provider_rewards D shares period rate) =
    sum_list (map (\<lambda>s. to_u64_or_0 (trunc_int (d_mul D (sp_total_dcs s) rate))) shares)"
  unfolding into_service_provider_rewards_def amounts_filter amounts_map by simp

lemma dc_to_mobile_bones_nonneg:
  assumes "decimal_laws D" "0 \<le> dc" "0 < price" "dc < 2 ^ 80" "dc / 100000 + 1 < price * 2 ^ 95"
  shows "0 \<le> dc_to_mobile_bones D dc price"
proof -
  let ?usd = "d_mul D dc MOBILE_DC_USD_PRICE"
  have r: "rounds_to (dc * MOBILE_DC_USD_PRICE) ?usd" by (rule laws_round [OF assms(1)]) (use assms(2,4) in \<open>simp add: MOBILE_DC_USD_PRICE_def\<close>)
  have usd: "0 \<le> ?usd" using r assms(2) unfolding rounds_to_def MOBILE_DC_USD_PRICE_def by simp
  have "\<bar>dc * MOBILE_DC_USD_PRICE\<bar> * 10 ^ 0 + 1 < 2 ^ 96" using assms(2,4) by (simp add: MOBILE_DC_USD_PRICE_def)
  from rounds_to_error [OF r _ this] have "?usd \<le> dc / 100000 + 1" by (simp add: MOBILE_DC_USD_PRICE_def abs_le_iff)
  then have "?usd < price * 2 ^ 95" using assms(5) by linarith
  then have "?usd / price < 2 ^ 95" using assms(3) by (simp add: pos_divide_less_eq mult.commute)
  moreover have "0 \<le> ?usd / price" using usd assms(3) by simp
  ultimately have "rounds_to (?usd / price) (d_div D ?usd price)" using laws_round(2) [OF assms(1), of price ?usd] assms(3) by simp
  then have "0 \<le> d_div D ?usd price" using \<open>0 \<le> ?usd / price\<close> unfolding rounds_to_def by simp
  then have "0 \<le> d_div D ?usd price * 10 ^ MOBILE_DEFAULT_PREC" by simp
  then have "0 \<le> \<lceil>d_div D ?usd price * 10 ^ MOBILE_DEFAULT_PREC\<rceil>" by linarith
  then show ?thesis unfolding dc_to_mobile_bones_def round_dp_up_def by simp
qed

lemma provider_payout:
  assumes "decimal_laws D" "\<forall>s \<in> set shares. 0 \<le> sp_total_dcs s \<and> places 0 (sp_total_dcs s)" "S = sum_list (map sp_total_dcs shares)"
    "0 \<le> pool" "S < 2 ^ 80" "pool * 10 ^ 9 + 2 * S + 1 < 2 ^ 96" "0 < price" "S / 100000 + 1 < price * 2 ^ 95"
  shows "of_nat (amounts (into_service_provider_rewards D shares period (sp_rewards_per_share D shares pool price))) \<le>
    pool + (2 * S + of_nat (length shares)) / 10 ^ 9"
proof -
  define used where "used = maybe_cap_service_provider_rewards (dc_to_mobile_bones D S price) pool"
  define rate where "rate = sp_rewards_per_share D shares pool price"
  have S: "0 \<le> S" unfolding assms(3) by (rule sum_list_nonneg) (use assms(2) in auto)
  have sum: "sp_total_dc D shares = S"
    using sum_exact [OF assms(1), of 0 "map sp_total_dcs shares" 0] assms(2,3,5) by (simp add: sp_total_dc_def)
  have used: "0 \<le> used" "used \<le> pool"
    using dc_to_mobile_bones_nonneg [OF assms(1) S assms(7,5,8)] assms(4) by (auto simp: used_def maybe_cap_service_provider_rewards_def)
  have rate_eq: "rate = calc_rewards_per_share D used S" by (simp add: rate_def sp_rewards_per_share_def sum used_def Let_def)
  have bound: "0 \<le> rate \<and> rate * S \<le> pool + 2 * S / 10 ^ 9"
  proof (cases "0 < S")
    case True
    have "places 0 S" using assms(2) unfolding assms(3) by (induction shares) (auto intro: places_add)
    then obtain m :: int where "S = of_int m" by (auto simp: places_def)
    then have "1 \<le> S" using True by simp
    then have "used / S \<le> used / 1" using used(1) by (intro divide_left_mono) simp_all
    then have "used / S \<le> pool" using used(2) by simp
    moreover have "q * 10 ^ 9 + 1 < 2 ^ 96" if "q \<le> pool" for q using that assms(6) S by simp
    ultimately have "used / S * 10 ^ 9 + 1 < 2 ^ 96" by blast
    from rounded_rate_bounds [OF assms(1) used(1) True this] show ?thesis
      using used(2) True by (simp add: rate_eq calc_rewards_per_share_def MOBILE_DEFAULT_PREC_def)
  next
    case False
    then show ?thesis using assms(4) S by (simp add: rate_eq calc_rewards_per_share_def)
  qed
  have range: "s * rate * 10 ^ 9 + 1 < 2 ^ 96" if "s \<le> S" "0 \<le> s" for s
  proof -
    have "s * rate \<le> rate * S" using mult_right_mono [OF that(1), of rate] bound by (simp add: mult.commute)
    then have "s * rate \<le> pool + 2 * S / 10 ^ 9" using bound by linarith
    moreover have "x * 10 ^ 9 + 1 < 2 ^ 96" if "x \<le> pool + 2 * S / 10 ^ 9" for x using that assms(6) by simp
    ultimately show ?thesis by blast
  qed
  have le: "sp_total_dcs s \<le> S" if "s \<in> set shares" for s
    unfolding assms(3) using assms(2) that by (intro member_le_sum_list) auto
  have "of_nat (sum_list (map (\<lambda>s. to_u64_or_0 (trunc_int (d_mul D (sp_total_dcs s) rate))) shares)) \<le>
      sum_list (map (\<lambda>s. sp_total_dcs s * rate + 1 / 10 ^ 9) shares)"
    by (rule payout_sum) (use d_mul_bounds [OF assms(1) _ _ _ range [OF le]] assms(2) bound in simp)
  also have "\<dots> = rate * S + of_nat (length shares) / 10 ^ 9"
    unfolding assms(3) by (induction shares) (simp_all add: algebra_simps add_divide_distrib)
  finally show ?thesis using bound unfolding provider_amounts rate_def [symmetric] by (simp add: add_divide_distrib)
qed

subsection \<open>Coverage\<close>

definition radio_ok :: "radio_points \<Rightarrow> bool" where
  "radio_ok r \<longleftrightarrow> 0 \<le> pt_trust r \<and> pt_trust r \<le> 1 \<and> places 16 (pt_trust r) \<and> 0 \<le> pt_points r \<and> places 0 (pt_points r)"

definition hotspot_ok :: "hotspot_points \<Rightarrow> bool" where
  "hotspot_ok h \<longleftrightarrow> 0 \<le> hp_multiplier h \<and> hp_multiplier h \<le> 1 \<and> places 2 (hp_multiplier h) \<and> (\<forall>(_, r) \<in> set (hp_radios h). radio_ok r)"

text \<open>The radios with the multiplier of their hotspot, the points of all of them, and their shares.\<close>

definition all_radios :: "coverage_points \<Rightarrow> (rat \<times> radio_points) list" where
  "all_radios cp = concat (map (\<lambda>(_, h). map (\<lambda>(_, r). (hp_multiplier h, r)) (hp_radios h)) cp)"

definition points_sum :: "coverage_points \<Rightarrow> rat" where
  "points_sum cp = sum_list (map (\<lambda>(_, r). pt_points r) (all_radios cp))"

definition shares_sum :: "coverage_points \<Rightarrow> rat" where
  "shares_sum cp = sum_list (map (\<lambda>(m, r). m * (pt_trust r * pt_points r)) (all_radios cp))"

lemma all_radios_Cons: "all_radios ((k, h) # cp) = map (\<lambda>(_, r). (hp_multiplier h, r)) (hp_radios h) @ all_radios cp"
  by (simp add: all_radios_def)

lemma radio_shares_exact:
  assumes "decimal_laws D" "radio_ok r" "pt_points r * 10 ^ 18 < 2 ^ 96"
  shows "radio_shares D r = pt_trust r * pt_points r" "0 \<le> pt_trust r * pt_points r" "places 16 (pt_trust r * pt_points r)"
    "pt_trust r * pt_points r \<le> pt_points r"
proof -
  show nonneg: "0 \<le> pt_trust r * pt_points r" using assms(2) by (simp add: radio_ok_def)
  show "places 16 (pt_trust r * pt_points r)" using places_mult [of 16 "pt_trust r" 0] assms(2) by (simp add: radio_ok_def)
  show le: "pt_trust r * pt_points r \<le> pt_points r" using assms(2) by (simp add: radio_ok_def mult_left_le_one_le)
  have "\<bar>t\<bar> * 10 ^ (16 + 0) < 2 ^ 96" if "0 \<le> t" "t \<le> pt_points r" for t using that assms(3) by simp
  note this [OF nonneg le]
  then have "d_mul D (pt_trust r) (pt_points r) = pt_trust r * pt_points r"
    using d_mul_exact [OF assms(1), of 16 "pt_trust r" 0] assms(2) by (simp add: radio_ok_def)
  then show "radio_shares D r = pt_trust r * pt_points r" using nonneg by (simp add: radio_shares_def)
qed

lemma foldl_d_add: "foldl (\<lambda>s x. d_add D s (f x)) a xs = foldl (d_add D) a (map f xs)"
  by (induction xs arbitrary: a) simp_all

lemma total_points_exact:
  assumes "decimal_laws D" "hotspot_ok h" "(\<Sum>(_, r) \<leftarrow> hp_radios h. pt_points r) * 10 ^ 18 < 2 ^ 96"
  defines "t \<equiv> hp_multiplier h * (\<Sum>(_, r) \<leftarrow> hp_radios h. pt_trust r * pt_points r)"
  shows "total_points D h = t" "0 \<le> t" "places 18 t" "t \<le> (\<Sum>(_, r) \<leftarrow> hp_radios h. pt_points r)"
proof -
  define rs where "rs = map snd (hp_radios h)"
  let ?P = "sum_list (map pt_points rs)" and ?T = "sum_list (map (\<lambda>r. pt_trust r * pt_points r) rs)"
  have P: "(\<Sum>(_, r) \<leftarrow> hp_radios h. pt_points r) = ?P" "(\<Sum>(_, r) \<leftarrow> hp_radios h. pt_trust r * pt_points r) = ?T"
    by (simp_all add: rs_def comp_def case_prod_unfold)
  have ok: "\<forall>r \<in> set rs. radio_ok r" using assms(2) by (fastforce simp: hotspot_ok_def rs_def)
  have m: "0 \<le> hp_multiplier h" "hp_multiplier h \<le> 1" "places 2 (hp_multiplier h)" using assms(2) by (simp_all add: hotspot_ok_def)
  have small: "pt_points r * 10 ^ 18 < 2 ^ 96" if "r \<in> set rs" for r
  proof -
    have "pt_points r \<le> ?P" using that ok by (intro member_le_sum_list) (auto simp: radio_ok_def)
    then show ?thesis using assms(3) P by simp
  qed
  note exact = radio_shares_exact [OF assms(1) bspec [OF ok] small]
  have T: "0 \<le> ?T" "?T \<le> ?P" using exact by (auto intro!: sum_list_nonneg sum_list_mono)
  have pT: "places 16 ?T" using exact(3) by (induction rs) (auto intro!: places_add)
  have "foldl (\<lambda>s (_, r). d_add D s (radio_shares D r)) 0 (hp_radios h) = foldl (d_add D) 0 (map (\<lambda>r. pt_trust r * pt_points r) rs)"
    proof -
    have "map (radio_shares D) rs = map (\<lambda>r. pt_trust r * pt_points r) rs" using exact(1) by simp
    then show ?thesis using foldl_d_add [of D "\<lambda>p. radio_shares D (snd p)" 0 "hp_radios h"] by (simp add: case_prod_unfold rs_def comp_def cong: map_cong)
  qed
  also have "\<dots> = 0 + ?T" by (rule sum_exact [OF assms(1), of 16]) (use exact T assms(3) P in auto)
  finally have fold: "foldl (\<lambda>s (_, r). d_add D s (radio_shares D r)) 0 (hp_radios h) = ?T" by simp
  have t: "t = hp_multiplier h * ?T" by (simp add: t_def P)
  show nonneg: "0 \<le> t" using m T by (simp add: t)
  show "places 18 t" using places_mult [OF m(3) pT] by (simp add: t)
  have "t \<le> ?T" using m T by (simp add: t mult_left_le_one_le)
  then show le: "t \<le> (\<Sum>(_, r) \<leftarrow> hp_radios h. pt_points r)" using T P by simp
  have "\<bar>hp_multiplier h * ?T\<bar> * 10 ^ (2 + 16) < 2 ^ 96" using nonneg le assms(3) P t by simp
  then show "total_points D h = t" unfolding total_points_def fold t using d_mul_exact [OF assms(1) m(3) pT] by simp
qed

lemma all_radios_sum:
  fixes f :: "rat \<times> radio_points \<Rightarrow> rat"
  shows "sum_list (map f (all_radios cp)) = (\<Sum>(_, h) \<leftarrow> cp. \<Sum>(_, r) \<leftarrow> hp_radios h. f (hp_multiplier h, r))"
  by (induction cp) (auto simp: all_radios_def comp_def case_prod_unfold)

lemma shares_sum_eq: "shares_sum cp = (\<Sum>(_, h) \<leftarrow> cp. hp_multiplier h * (\<Sum>(_, r) \<leftarrow> hp_radios h. pt_trust r * pt_points r))"
  unfolding shares_sum_def all_radios_sum by (simp add: case_prod_unfold sum_list_const_mult)

lemma points_sum_eq: "points_sum cp = (\<Sum>(_, h) \<leftarrow> cp. \<Sum>(_, r) \<leftarrow> hp_radios h. pt_points r)"
  unfolding points_sum_def all_radios_sum by (simp add: case_prod_unfold)

definition coverage_ok :: "coverage_points \<Rightarrow> bool" where
  "coverage_ok cp \<longleftrightarrow> (\<forall>(_, h) \<in> set cp. hotspot_ok h) \<and> points_sum cp * 10 ^ 18 < 2 ^ 96"

lemma hotspot_points_nonneg: "hotspot_ok h \<Longrightarrow> 0 \<le> (\<Sum>(_, r) \<leftarrow> hp_radios h. pt_points r)"
  by (rule sum_list_nonneg) (auto simp: hotspot_ok_def radio_ok_def)

lemma coverage_total_exact:
  assumes "decimal_laws D" "coverage_ok cp"
  shows "coverage_total_shares D cp = shares_sum cp" "0 \<le> shares_sum cp" "shares_sum cp \<le> points_sum cp"
proof -
  let ?p = "\<lambda>h. \<Sum>(_, r) \<leftarrow> hp_radios h. pt_points r" and ?t = "\<lambda>h. hp_multiplier h * (\<Sum>(_, r) \<leftarrow> hp_radios h. pt_trust r * pt_points r)"
  define hs where "hs = map snd cp"
  have ok: "\<forall>h \<in> set hs. hotspot_ok h" using assms(2) by (fastforce simp: coverage_ok_def hs_def)
  have P: "points_sum cp = sum_list (map ?p hs)" and S: "shares_sum cp = sum_list (map ?t hs)"
    unfolding points_sum_eq shares_sum_eq hs_def by (simp_all add: comp_def case_prod_unfold)
  have range: "sum_list (map ?p hs) * 10 ^ 18 < 2 ^ 96" using assms(2) unfolding P [symmetric] coverage_ok_def by blast
  have small: "?p h * 10 ^ 18 < 2 ^ 96" if "h \<in> set hs" for h
  proof -
    have "?p h \<le> sum_list (map ?p hs)" by (rule member_le_sum_list) (use ok hotspot_points_nonneg that in auto)
    moreover have "x * 10 ^ 18 < 2 ^ 96" if "x \<le> sum_list (map ?p hs)" for x using that range by simp
    ultimately show ?thesis by blast
  qed
  note exact = total_points_exact [OF assms(1) bspec [OF ok] small]
  show nonneg: "0 \<le> shares_sum cp" unfolding S by (rule sum_list_nonneg) (use exact(2) in auto)
  show le: "shares_sum cp \<le> points_sum cp" unfolding S P by (rule sum_list_mono) (rule exact(4); assumption)
  have eq: "map (total_points D) hs = map ?t hs" using exact(1) by simp
  have "coverage_total_shares D cp = foldl (d_add D) 0 (map (total_points D) hs)"
    using foldl_d_add [of D "\<lambda>p. total_points D (snd p)" 0 cp] by (simp add: coverage_total_shares_def case_prod_unfold hs_def comp_def)
  also have "\<dots> = 0 + sum_list (map ?t hs)"
    unfolding eq by (rule sum_exact [OF assms(1), of 18]) (use exact(2,3) nonneg le range S P in auto)
  finally show "coverage_total_shares D cp = shares_sum cp" by (simp add: S)
qed

lemma poc_amounts:
  assumes "points_into_rewards D cp pool period = Some rs"
  shows "coverage_total_shares D cp \<noteq> 0 \<and> amounts rs = sum_list (map (\<lambda>(m, r). to_u64_or_0 (trunc_int
    (d_mul D (d_mul D (d_mul D (d_div D pool (coverage_total_shares D cp)) m) (pt_trust r)) (pt_points r)))) (all_radios cp))"
proof -
  have rs: "coverage_total_shares D cp \<noteq> 0" "rs = filter (\<lambda>s. share_amount s > 0) (concat (map (\<lambda>(hotspot, h).
      map (new_radio_reward D period hotspot (d_div D pool (coverage_total_shares D cp)) (hp_multiplier h)) (hp_radios h)) cp))"
    using assms by (auto simp: points_into_rewards_def Let_def split: if_splits)
  have "amounts (concat (map (\<lambda>(hotspot, h). map (new_radio_reward D period hotspot rate (hp_multiplier h)) (hp_radios h)) xs)) =
      sum_list (map (\<lambda>(m, r). to_u64_or_0 (trunc_int (d_mul D (d_mul D (d_mul D rate m) (pt_trust r)) (pt_points r)))) (all_radios xs))" for rate xs
    by (induction xs) (auto simp: amounts_def all_radios_def new_radio_reward_def Let_def comp_def case_prod_unfold)
  then show ?thesis using rs by (simp add: amounts_filter)
qed

text \<open>Three multiplications in a row, each rounded.\<close>

lemma chain_bounds:
  assumes "decimal_laws D" "0 \<le> rate" "0 \<le> m" "m \<le> 1" "0 \<le> t" "t \<le> 1" "0 \<le> p"
    "rate * 10 ^ 9 + 3 < 2 ^ 96" "(rate * (m * (t * p)) + 2 * p / 10 ^ 9) * 10 ^ 9 + 1 < 2 ^ 96"
  shows "0 \<le> d_mul D (d_mul D (d_mul D rate m) t) p \<and> d_mul D (d_mul D (d_mul D rate m) t) p \<le> rate * (m * (t * p)) + (2 * p + 1) / 10 ^ 9"
proof -
  define x where "x = d_mul D rate m"
  have rm: "rate * m \<le> rate" "0 \<le> rate * m" using assms(2-4) by (simp_all add: mult_left_le)
  have lift: "z * 10 ^ 9 + 1 < 2 ^ 96" if "z \<le> rate + 1 / 10 ^ 9" for z using that assms(8) by simp
  have x: "0 \<le> x" "x \<le> rate * m + 1 / 10 ^ 9"
    unfolding x_def using d_mul_bounds [OF assms(1-3), of 9] lift [of "rate * m"] rm by simp_all
  have xt: "x * t \<le> x" "0 \<le> x * t" using x(1) assms(5,6) by (simp_all add: mult_left_le)
  define y where "y = d_mul D x t"
  have y: "0 \<le> y" "y \<le> x * t + 1 / 10 ^ 9"
    unfolding y_def using d_mul_bounds [OF assms(1) x(1) assms(5), of 9] lift [of "x * t"] xt x(2) rm by simp_all
  have "x * t \<le> (rate * m + 1 / 10 ^ 9) * t" by (rule mult_right_mono [OF x(2) assms(5)])
  also have "\<dots> \<le> rate * m * t + 1 / 10 ^ 9" using assms(5,6) by (simp add: distrib_right)
  finally have "y \<le> rate * m * t + 2 / 10 ^ 9" using y(2) by simp
  then have "y * p \<le> (rate * m * t + 2 / 10 ^ 9) * p" by (rule mult_right_mono [OF _ assms(7)])
  also have "\<dots> = rate * (m * (t * p)) + 2 * p / 10 ^ 9" by (simp add: algebra_simps)
  finally have yp: "y * p \<le> rate * (m * (t * p)) + 2 * p / 10 ^ 9" .
  have "z * 10 ^ 9 + 1 < 2 ^ 96" if "z \<le> rate * (m * (t * p)) + 2 * p / 10 ^ 9" for z
    using mult_right_mono [OF that, of "10 ^ 9"] assms(9) by simp
  from d_mul_bounds [OF assms(1) y(1) assms(7) _ this [OF yp]]
  show ?thesis using yp unfolding x_def [symmetric] y_def [symmetric] by (simp add: add_divide_distrib)
qed

text \<open>What the coverage of an epoch is paid, in total, exceeds the pool by at most the rounding of the decimals.\<close>

lemma poc_payout:
  assumes "decimal_laws D" "coverage_ok cp" "points_into_rewards D cp pool period = Some rs" "0 \<le> pool"
    "(pool / shares_sum cp + pool + 3 * points_sum cp) * 10 ^ 9 + 4 < 2 ^ 96"
  shows "of_nat (amounts rs) \<le> pool + (3 * points_sum cp + of_nat (length (all_radios cp))) / 10 ^ 9"
proof -
  let ?S = "shares_sum cp" and ?P = "points_sum cp"
  note tot = coverage_total_exact [OF assms(1,2)]
  define rate where "rate = d_div D pool ?S"
  have S: "0 < ?S" using poc_amounts [OF assms(3)] tot(1,2) by simp
  have P: "0 \<le> ?P" using S tot(3) by simp
  define q where "q = pool / ?S"
  have q: "0 \<le> q" "q * ?S = pool" using assms(4) S by (simp_all add: q_def)
  have range: "(q + pool + 3 * ?P) * 10 ^ 9 + 4 < 2 ^ 96" using assms(5) by (simp only: q_def)
  have rate: "0 \<le> rate" "rate \<le> q + 1 / 10 ^ 9"
    using d_div_bounds [OF assms(1,4) S] range assms(4) P by (simp_all add: q_def [symmetric] rate_def)
  have "rate * ?S \<le> (q + 1 / 10 ^ 9) * ?S" by (rule mult_right_mono [OF rate(2)]) (use S in simp)
  also have "\<dots> = pool + ?S / 10 ^ 9" using q(2) by (simp add: distrib_right)
  finally have rS: "rate * ?S \<le> pool + ?P / 10 ^ 9" using tot(3) by simp
  have ok: "0 \<le> m \<and> m \<le> 1 \<and> radio_ok r" if "(m, r) \<in> set (all_radios cp)" for m r
    using that assms(2) by (fastforce simp: all_radios_def coverage_ok_def hotspot_ok_def)
  let ?g = "\<lambda>(m, r). rate * (m * (pt_trust r * pt_points r)) + (2 * pt_points r + 1) / 10 ^ 9"
  have "0 \<le> d_mul D (d_mul D (d_mul D rate m) (pt_trust r)) (pt_points r) \<and>
      d_mul D (d_mul D (d_mul D rate m) (pt_trust r)) (pt_points r) \<le> ?g (m, r)" if mem: "(m, r) \<in> set (all_radios cp)" for m r
  proof -
    have p: "pt_points r \<le> ?P" unfolding points_sum_def
      by (rule member_le_sum_list) (use mem ok in \<open>fastforce simp: radio_ok_def\<close>)+
    have s: "m * (pt_trust r * pt_points r) \<le> ?S" unfolding shares_sum_def
      by (rule member_le_sum_list) (use mem ok in \<open>fastforce simp: radio_ok_def\<close>)+
    have "rate * (m * (pt_trust r * pt_points r)) \<le> rate * ?S" by (rule mult_left_mono [OF s rate(1)])
    then have z: "rate * (m * (pt_trust r * pt_points r)) + 2 * pt_points r / 10 ^ 9 \<le> pool + 3 * ?P / 10 ^ 9" using rS p by simp
    have "z * 10 ^ 9 + 1 < 2 ^ 96" if "z \<le> pool + 3 * ?P / 10 ^ 9" for z using that range q(1) P by simp
    note this [OF z]
    moreover have "rate * 10 ^ 9 + 3 < 2 ^ 96" using rate(2) range assms(4) P by simp
    ultimately show ?thesis using chain_bounds [OF assms(1) rate(1), of m "pt_trust r" "pt_points r"] ok [OF mem] by (simp add: radio_ok_def)
  qed
  then have paid: "of_nat (sum_list (map (\<lambda>x. to_u64_or_0 (trunc_int (case x of (m, r) \<Rightarrow> d_mul D (d_mul D (d_mul D rate m) (pt_trust r)) (pt_points r)))) (all_radios cp)))
      \<le> sum_list (map ?g (all_radios cp))" by (intro payout_sum) auto
  have eq: "amounts rs = sum_list (map (\<lambda>x. to_u64_or_0 (trunc_int (case x of (m, r) \<Rightarrow> d_mul D (d_mul D (d_mul D rate m) (pt_trust r)) (pt_points r)))) (all_radios cp))"
    using poc_amounts [OF assms(3)] unfolding tot(1) rate_def by (simp add: case_prod_unfold)
  have gsum: "sum_list (map ?g xs) = rate * sum_list (map (\<lambda>(m, r). m * (pt_trust r * pt_points r)) xs) +
      (2 * sum_list (map (\<lambda>(_, r). pt_points r) xs) + of_nat (length xs)) / 10 ^ 9" for xs
    by (induction xs) (auto simp: algebra_simps add_divide_distrib)
  have "of_nat (amounts rs) \<le> rate * ?S + (2 * ?P + of_nat (length (all_radios cp))) / 10 ^ 9"
    using paid unfolding gsum eq shares_sum_def points_sum_def .
  then show ?thesis using rS by (simp add: add_divide_distrib)
qed

section \<open>The data transfer cap\<close>

lemma unscaled_sum:
  assumes "decimal_laws D" "0 \<le> s" "s < 10 ^ 18" "1 \<le> pool" "pool < 10 ^ 18" "d_div D s pool \<le> 4 / 10"
  shows "s \<le> 4 / 10 * pool + 1 / 10 ^ 9"
proof -
  define x where "x = s / pool"
  have "s / pool \<le> s / 1" by (rule divide_left_mono) (use assms(2,4) in simp_all)
  then have x: "0 \<le> x" "x < 10 ^ 18" using assms(2-4) by (simp_all add: x_def)
  then have r: "rounds_to x (d_div D s pool)" using laws_round(2) [OF assms(1), of pool s] assms(4) by (simp add: x_def)
  have "representable (4 / 10 + 1 / 10 ^ 28)" using representable_frac [of "4 * 10 ^ 27 + 1" 28] by simp
  then have "x < 4 / 10 + 1 / 10 ^ 28" using r assms(6) unfolding rounds_to_def by fastforce
  then have "x * pool \<le> (4 / 10 + 1 / 10 ^ 28) * pool" using assms(4) by (intro mult_right_mono) simp_all
  moreover have "x * pool = s" using assms(4) by (simp add: x_def)
  ultimately show ?thesis using assms(5) by (simp add: distrib_right)
qed

lemma scaled_sum:
  assumes "decimal_laws D" "0 < s" "s < 10 ^ 18" "representable s" "1 \<le> pool" "pool < 10 ^ 18" "4 / 10 * pool \<le> s"
  defines "scale \<equiv> d_div D (d_mul D (4 / 10) pool) s"
  shows "0 \<le> scale \<and> scale \<le> 1 \<and> s * scale \<le> 4 / 10 * pool + 2 / 10 ^ 9"
proof -
  define m where "m = d_mul D (4 / 10) pool"
  have rm: "rounds_to (4 / 10 * pool) m" unfolding m_def by (rule laws_round(1) [OF assms(1)]) (use assms(5,6) in simp)
  then have "m \<le> s" using assms(4,7) unfolding rounds_to_def by blast
  have m: "0 \<le> m" "m \<le> 4 / 10 * pool + 1 / 10 ^ 9"
    using d_mul_bounds [OF assms(1), of "4 / 10" pool 9] assms(5,6) by (simp_all add: m_def)
  define y where "y = m / s"
  have y: "0 \<le> y" "y \<le> 1" "s * y = m" using m(1) \<open>m \<le> s\<close> assms(2) by (simp_all add: y_def)
  have r: "rounds_to y scale" unfolding y_def scale_def m_def [symmetric]
    by (rule laws_round(2) [OF assms(1)]) (use y assms(2) in \<open>simp_all add: y_def [symmetric] del: abs_divide\<close>)
  have scale: "0 \<le> scale" "scale \<le> 1" using r y unfolding rounds_to_def by simp_all
  have "\<bar>y\<bar> * 10 ^ 28 + 1 < 2 ^ 96" using y by simp
  from rounds_to_error [OF r order_refl this] have "scale \<le> y + 1 / 10 ^ 28" unfolding abs_le_iff by linarith
  then have "s * scale \<le> s * (y + 1 / 10 ^ 28)" using assms(2) by (intro mult_left_mono) simp_all
  then have "s * scale \<le> m + s / 10 ^ 28" using y(3) by (simp add: distrib_left)
  then have "s * scale \<le> 4 / 10 * pool + 2 / 10 ^ 9" using m(2) assms(3) by simp
  then show ?thesis using scale by simp
qed

definition bones_sum :: "decimal_ops \<Rightarrow> transfer_rewards \<Rightarrow> rat" where
  "bones_sum D tr = foldl (d_add D) 0 (map (\<lambda>(_, t). tr_bones t) (tw_rewards tr))"

text \<open>C20: data transfer is scaled so that it never takes more than 40 percent of the emissions of the epoch, up to a billionth of a bone: the scale is
  between 0 and 1, it is 1 when the rewards stay below the limit, and the sum of the scaled rewards, by which the rewards for coverage are
  reduced, is within the limit.\<close>

theorem data_transfer_capped:
  assumes "tr = from_transfer_sessions D price sessions epoch" "pool = get_total_scheduled_tokens D (snd epoch - fst epoch)" "s = bones_sum D tr"
    "decimal_laws D" "0 \<le> s" "s < 10 ^ 18" "representable s" "1 \<le> pool" "pool < 10 ^ 18"
  shows "0 \<le> tw_scale tr \<and> tw_scale tr \<le> 1 \<and> (s \<le> 4 / 10 * pool \<longrightarrow> tw_scale tr = 1) \<and>
    0 \<le> tw_sum tr \<and> tw_sum tr \<le> 4 / 10 * pool + 3 / 10 ^ 9"
proof -
  let ?scaled = "d_div D s pool > 4 / 10"
  have tr: "tw_scale tr = (if ?scaled then d_div D (d_mul D (4 / 10) pool) s else 1)" "tw_sum tr = d_mul D s (tw_scale tr)"
    unfolding assms(1-3) bones_sum_def from_transfer_sessions_def Let_def MAX_DATA_TRANSFER_REWARDS_PERCENT_def by simp_all
  have below: "\<not> ?scaled" if "s \<le> 4 / 10 * pool"
  proof -
    have x: "s / pool \<le> 4 / 10" "0 \<le> s / pool" using that assms(5,8) by (simp_all add: pos_divide_le_eq)
    have "in_range x" if "0 \<le> x" "x \<le> 4 / 10" for x :: rat using that by simp
    note this [OF x(2,1)]
    moreover have "pool \<noteq> 0" using assms(8) by simp
    ultimately have "rounds_to (s / pool) (d_div D s pool)" by (intro laws_round(2) [OF assms(4)])
    moreover have "representable (4 / 10)" using representable_frac [of 4 1] by simp
    ultimately have "d_div D s pool \<le> 4 / 10" using x(1) unfolding rounds_to_def by blast
    then show ?thesis by simp
  qed
  have scale: "0 \<le> tw_scale tr \<and> tw_scale tr \<le> 1 \<and> s * tw_scale tr \<le> 4 / 10 * pool + 2 / 10 ^ 9"
  proof (cases ?scaled)
    case True
    then have "4 / 10 * pool \<le> s" using below by linarith
    then show ?thesis using scaled_sum [OF assms(4) _ assms(6-9)] True tr(1) assms(8) by simp
  next
    case False
    then show ?thesis using unscaled_sum [OF assms(4-6,8,9)] tr(1) by simp
  qed
  have "s * tw_scale tr * 10 ^ 9 + 1 < 2 ^ 96" if "s * tw_scale tr \<le> 4 / 10 * pool + 2 / 10 ^ 9"
    using mult_right_mono [OF that, of "10 ^ 9"] assms(9) by simp
  then have "0 \<le> tw_sum tr \<and> tw_sum tr \<le> s * tw_scale tr + 1 / 10 ^ 9"
    using d_mul_bounds [OF assms(4,5), of "tw_scale tr" 9] scale unfolding tr(2) by simp
  then show ?thesis using scale below tr(1) by auto
qed

section \<open>An epoch accounts for its pools\<close>

definition pool_fits :: "rat \<Rightarrow> bool" where
  "pool_fits pool \<longleftrightarrow> representable pool \<and> 0 \<le> pool \<and> pool < 2 ^ 60"

lemma with_unallocated_within:
  assumes "decimal_laws D" "pool_fits pool" "of_nat (amounts rs) \<le> pool + e" "0 \<le> e" "e < 2 ^ 60"
  shows "\<lfloor>pool\<rfloor> \<le> int (amounts (with_unallocated D pool ty period rs)) \<and> of_nat (amounts (with_unallocated D pool ty period rs)) \<le> pool + e"
proof -
  have pool: "representable pool" "0 \<le> pool" "pool < 2 ^ 64" using assms(2) by (simp_all add: pool_fits_def)
  have "(of_nat (amounts rs) :: rat) < of_nat (2 ^ 64)" using assms(2,3,5) by (simp add: pool_fits_def)
  then have "amounts rs < 2 ^ 64" by (simp only: of_nat_less_iff)
  then have eq: "int (amounts (with_unallocated D pool ty period rs)) = max (int (amounts rs)) \<lfloor>pool\<rfloor>"
    using with_unallocated_amounts [OF assms(1) pool] by simp
  have "(of_int (max (int (amounts rs)) \<lfloor>pool\<rfloor>) :: rat) \<le> pool + e"
  proof (cases "int (amounts rs) \<le> \<lfloor>pool\<rfloor>")
    case True
    then show ?thesis using assms(4) order_trans [OF of_int_floor_le [of pool], of "pool + e"] by (simp add: max_def)
  qed (use assms(3) in \<open>simp add: max_def\<close>)
  then have "(of_int (int (amounts (with_unallocated D pool ty period rs))) :: rat) \<le> pool + e" by (simp only: eq)
  then show ?thesis using eq by simp
qed

lemma oracle_amounts:
  assumes "decimal_laws D" "pool_fits (oracle_pool D period)"
  shows "int (amounts (mobile_reward_oracles D period)) = \<lfloor>oracle_pool D period\<rfloor>"
  using with_unallocated_amounts [OF assms(1), of "oracle_pool D period" "[]"] assms(2)
  by (simp add: pool_fits_def mobile_reward_oracles_def amounts_def)

lemma from_payers_dc_shares: "from_payers_dc client payers = Inr shares \<Longrightarrow> map sp_total_dcs shares = map (\<lambda>(_, dcs). of_nat (unat dcs)) payers"
  by (induction client payers arbitrary: shares rule: from_payers_dc.induct) (auto split: sum.splits)

lemma mobile_reward_poc_tables:
  "mobile_reward_poc D is_pk valid_cell ma period s t = (res, t') \<Longrightarrow> mt_sessions t' = mt_sessions t \<and> mt_locations t' = mt_locations t"
  by (auto simp: mobile_reward_poc_def Let_def split: if_splits prod.splits)

text \<open>The numbers of an epoch are within the range in which decimals are precise to a billionth.\<close>

definition payers_dc :: "timestamp \<times> timestamp \<Rightarrow> mobile_tables \<Rightarrow> rat" where
  "payers_dc period t = (case sum_data_sessions_to_dc_by_payer period (mt_sessions t) of
     Inl _ \<Rightarrow> 0 | Inr payers \<Rightarrow> sum_list (map (\<lambda>(_, dcs). of_nat (unat dcs)) payers))"

definition epoch_in_range :: "decimal_ops \<Rightarrow> timestamp \<times> timestamp \<Rightarrow> rat \<Rightarrow> mobile_tables \<Rightarrow> bool" where
  "epoch_in_range D period price t \<longleftrightarrow>
     (let tr = epoch_transfer D price period t in
      (\<forall>x \<in> set (scaled_bones D tr). 0 \<le> x) \<and> sum_list (scaled_bones D tr) + of_nat (length (tw_rewards tr)) < 2 ^ 63 \<and>
      representable (transfer_total D tr) \<and> transfer_total D tr < 2 ^ 64) \<and>
     pool_fits (mapper_pool D period) \<and> pool_fits (sp_pool D period) \<and> pool_fits (oracle_pool D period) \<and>
     length (mt_locations t) < 2 ^ 60 \<and> length (mt_sessions t) < 2 ^ 60 \<and> payers_dc period t < 2 ^ 80 \<and>
     0 < price \<and> payers_dc period t / 100000 + 1 < price * 2 ^ 95"

lemma reward_mappers_within:
  assumes "decimal_laws D" "epoch_in_range D period price t" "reward_mappers D ma period t = Inr rs"
  shows "\<lfloor>mapper_pool D period\<rfloor> \<le> int (amounts rs) \<and>
    of_nat (amounts rs) \<le> mapper_pool D period + 31 * of_nat (length (aggregate_location_shares period (mt_locations t))) / 10 ^ 9"
proof -
  let ?subs = "aggregate_location_shares period (mt_locations t)"
  have "length ?subs \<le> length (mt_locations t)" unfolding aggregate_location_shares_def
    by (rule order_trans [OF length_remdups_leq]) (simp add: length_filter_le)
  then have n: "length ?subs < 2 ^ 60" using assms(2) by (simp add: epoch_in_range_def Let_def)
  then have nr: "(of_nat (length ?subs) :: rat) < of_nat (2 ^ 60)" by (simp only: of_nat_less_iff)
  have fits: "pool_fits (mapper_pool D period)" using assms(2) by (simp add: epoch_in_range_def)
  then have pool: "0 \<le> mapper_pool D period" "mapper_pool D period * 10 ^ 9 + 62 < 2 ^ 96" by (simp_all add: pool_fits_def)
  have rs: "rs = with_unallocated D (mapper_pool D period) UnallocatedMapper period
      (into_subscriber_rewards D ?subs period (mapper_rewards_per_share D ?subs (mapper_pool D period)))"
    using assms(3) by (simp add: reward_mappers_def Let_def split: if_splits)
  show ?thesis unfolding rs
    by (rule with_unallocated_within [OF assms(1) fits subscriber_payout [OF assms(1) pool refl]]) (use n nr in simp_all)
qed

lemma reward_service_providers_within:
  assumes "decimal_laws D" "epoch_in_range D period price t" "reward_service_providers D ma period price t = Inr rs"
  shows "\<lfloor>sp_pool D period\<rfloor> \<le> int (amounts rs) \<and>
    of_nat (amounts rs) \<le> sp_pool D period + (2 * payers_dc period t + of_nat (length (mt_sessions t))) / 10 ^ 9"
proof -
  let ?S = "payers_dc period t" and ?P = "sp_pool D period"
  obtain payers shares where p: "sum_data_sessions_to_dc_by_payer period (mt_sessions t) = Inr payers" "from_payers_dc (ma_provider ma) payers = Inr shares"
    and rs: "rs = with_unallocated D ?P UnallocatedServiceProvider period (into_service_provider_rewards D shares period (sp_rewards_per_share D shares ?P price))"
    using assms(3) by (auto simp: reward_service_providers_def Let_def split: if_splits sum.splits)
  have S: "?S = sum_list (map sp_total_dcs shares)" using from_payers_dc_shares [OF p(2)] by (simp add: payers_dc_def p(1))
  have whole: "places 0 (of_nat n)" for n unfolding places_def by (rule exI [of _ "int n"]) simp
  have shares: "\<forall>s \<in> set shares. 0 \<le> sp_total_dcs s \<and> places 0 (sp_total_dcs s)"
  proof
    fix s assume "s \<in> set shares"
    then have "sp_total_dcs s \<in> set (map (\<lambda>(_, dcs). of_nat (unat dcs)) payers)" using from_payers_dc_shares [OF p(2)] by (metis image_eqI list.set_map)
    then obtain n :: nat where "sp_total_dcs s = of_nat n" by auto (metis of_nat_unat)
    then show "0 \<le> sp_total_dcs s \<and> places 0 (sp_total_dcs s)" using whole by simp
  qed
  have "length payers \<le> length (mt_sessions t)"
  proof -
    have "length payers = length (remdups (map hs_payer (sessions_in period (mt_sessions t))))"
      using p(1) by (auto simp: sum_data_sessions_to_dc_by_payer_def Let_def split: if_splits)
    also have "\<dots> \<le> length (sessions_in period (mt_sessions t))" using length_remdups_leq [of "map hs_payer (sessions_in period (mt_sessions t))"] by simp
    also have "\<dots> \<le> length (mt_sessions t)" unfolding sessions_in_def by (rule length_filter_le)
    finally show ?thesis .
  qed
  then have len: "length shares \<le> length (mt_sessions t)" using arg_cong [OF from_payers_dc_shares [OF p(2)], of length] by simp
  have fits: "pool_fits ?P" and range: "?S < 2 ^ 80" "0 < price" "?S / 100000 + 1 < price * 2 ^ 95" "length (mt_sessions t) < 2 ^ 60"
    using assms(2) by (simp_all add: epoch_in_range_def)
  have S0: "0 \<le> ?S" unfolding S by (rule sum_list_nonneg) (use shares in auto)
  have pool: "0 \<le> ?P" "?P * 10 ^ 9 + 2 * ?S + 1 < 2 ^ 96" using fits range(1) by (simp_all add: pool_fits_def)
  have "of_nat (amounts (into_service_provider_rewards D shares period (sp_rewards_per_share D shares ?P price))) \<le> ?P + (2 * ?S + of_nat (length shares)) / 10 ^ 9"
    by (rule provider_payout [OF assms(1) shares S pool(1) range(1) pool(2) range(2,3)])
  also have "\<dots> \<le> ?P + (2 * ?S + of_nat (length (mt_sessions t))) / 10 ^ 9" using len by (simp add: divide_right_mono)
  finally have paid: "of_nat (amounts (into_service_provider_rewards D shares period (sp_rewards_per_share D shares ?P price))) \<le>
      ?P + (2 * ?S + of_nat (length (mt_sessions t))) / 10 ^ 9" .
  have "(of_nat (length (mt_sessions t)) :: rat) < of_nat (2 ^ 60)" using range(4) by (simp only: of_nat_less_iff)
  then show ?thesis unfolding rs by (intro with_unallocated_within [OF assms(1) fits paid]) (use S0 range(1) in simp_all)
qed

lemma mobile_reward_stages:
  assumes "mobile_reward D is_pk valid_cell ma sc w = (Inr (), w')"
  obtains p poc mappers providers t where "ma_price ma = Some p"
    "mobile_reward_poc D is_pk valid_cell ma (sc_period sc) (tw_sum (epoch_transfer D (to_mobile_bone_price D p) (sc_period sc) (rw_tables w))) (rw_tables w) = (Inr poc, t)"
    "reward_mappers D ma (sc_period sc) t = Inr mappers"
    "reward_service_providers D ma (sc_period sc) (to_mobile_bone_price D p) t = Inr providers"
    "eo_manifests (rw_out w') = eo_manifests (rw_out w) @ [(encode_period (sc_period sc), eo_sink (rw_out w) @ poc @
       reward_dc D (sc_period sc) (epoch_transfer D (to_mobile_bone_price D p) (sc_period sc) (rw_tables w)) @ mappers @ providers @ mobile_reward_oracles D (sc_period sc))]"
proof -
  obtain p where p: "ma_price ma = Some p" using assms by (cases "ma_price ma") (auto simp: mobile_reward_def)
  let ?price = "to_mobile_bone_price D p" and ?period = "sc_period sc"
  let ?tr = "epoch_transfer D ?price ?period (rw_tables w)"
  obtain stages t where s: "reward_poc_and_dc D is_pk valid_cell ma ?period ?price (rw_tables w) = (stages, t)" by fastforce
  note run = assms [unfolded mobile_reward_def p option.case Let_def s prod.case]
  let ?all = "stages @ [reward_mappers D ma ?period t, reward_service_providers D ma ?period ?price t, Inr (mobile_reward_oracles D ?period)]"
  have ok: "\<forall>x \<in> set ?all. \<exists>rs. x = Inr rs" and man: "eo_manifests (rw_out w') = eo_manifests (rw_out w) @
      [(encode_period ?period, eo_sink (rw_out w) @ concat (map projr ?all))]" using run_epoch_effect [OF run] by auto
  obtain poc' where poc': "mobile_reward_poc D is_pk valid_cell ma ?period (tw_sum ?tr) (rw_tables w) = (poc', t)" "stages = [poc', Inr (reward_dc D ?period ?tr)]"
    using s ok by (auto simp: reward_poc_and_dc_def Let_def split: if_splits prod.splits)
  obtain poc mappers providers where r: "poc' = Inr poc" "reward_mappers D ma ?period t = Inr mappers" "reward_service_providers D ma ?period ?price t = Inr providers"
    using ok unfolding poc'(2) by auto
  show ?thesis by (rule that [OF p poc'(1) [unfolded r(1)] r(2,3)]) (use man r poc'(2) in simp)
qed

text \<open>C2: when an epoch ends without error, its manifest names the rewards of all its pools and nothing else: the amounts for data transfer make up its total
  without the fraction, those for mappers and for service providers make up at least their pool without the fraction and exceed it by no
  more than the rounding of the decimals, and the oracles' pool is written as unallocated as a whole.\<close>

theorem mobile_epoch_accounted:
  assumes "decimal_laws D" "mobile_reward D is_pk valid_cell ma sc w = (Inr (), w')" "eo_sink (rw_out w) = []" "ma_price ma = Some p"
    "period = sc_period sc" "price = to_mobile_bone_price D p" "t = rw_tables w" "epoch_in_range D period price t"
  shows "\<exists>poc dc mappers providers oracles.
    eo_manifests (rw_out w') = eo_manifests (rw_out w) @ [(encode_period period, poc @ dc @ mappers @ providers @ oracles)] \<and>
    fst (mobile_reward_poc D is_pk valid_cell ma period (tw_sum (epoch_transfer D price period t)) t) = Inr poc \<and>
    int (amounts dc) = \<lfloor>transfer_total D (epoch_transfer D price period t)\<rfloor> \<and>
    \<lfloor>mapper_pool D period\<rfloor> \<le> int (amounts mappers) \<and>
    of_nat (amounts mappers) \<le> mapper_pool D period + 31 * of_nat (length (aggregate_location_shares period (mt_locations t))) / 10 ^ 9 \<and>
    \<lfloor>sp_pool D period\<rfloor> \<le> int (amounts providers) \<and>
    of_nat (amounts providers) \<le> sp_pool D period + (2 * payers_dc period t + of_nat (length (mt_sessions t))) / 10 ^ 9 \<and>
    int (amounts oracles) = \<lfloor>oracle_pool D period\<rfloor>"
proof -
  obtain poc mappers providers t' where st: "mobile_reward_poc D is_pk valid_cell ma period (tw_sum (epoch_transfer D price period t)) t = (Inr poc, t')"
    "reward_mappers D ma period t' = Inr mappers" "reward_service_providers D ma period price t' = Inr providers"
    "eo_manifests (rw_out w') = eo_manifests (rw_out w) @ [(encode_period period, poc @
       reward_dc D period (epoch_transfer D price period t) @ mappers @ providers @ mobile_reward_oracles D period)]"
    by (rule mobile_reward_stages [OF assms(2)]) (use assms(3-7) in auto)
  note same = mobile_reward_poc_tables [OF st(1)]
  have "epoch_in_range D period price t' = epoch_in_range D period price t"
    using same by (simp add: epoch_in_range_def epoch_transfer_def payers_dc_def)
  then have range: "epoch_in_range D period price t'" using assms(8) by simp
  have m: "reward_mappers D ma period t' = Inr mappers" "payers_dc period t' = payers_dc period t" using st(2) same by (simp_all add: payers_dc_def)
  have dc: "int (amounts (reward_dc D period (epoch_transfer D price period t))) = \<lfloor>transfer_total D (epoch_transfer D price period t)\<rfloor>"
    by (rule reward_dc_amounts [OF assms(1)]) (use assms(8) in \<open>simp_all add: epoch_in_range_def Let_def\<close>)
  have oracles: "int (amounts (mobile_reward_oracles D period)) = \<lfloor>oracle_pool D period\<rfloor>"
    by (rule oracle_amounts [OF assms(1)]) (use assms(8) in \<open>simp add: epoch_in_range_def\<close>)
  note within = reward_mappers_within [OF assms(1) range st(2)] reward_service_providers_within [OF assms(1) range st(3)]
  show ?thesis
    by (intro exI conjI, rule st(4)) (use st(1) dc oracles within same m(2) in simp_all)
qed


definition sample_points :: coverage_points where
  "sample_points = [(''h'', \<lparr>hp_multiplier = 1, hp_radios = [(None, (new_radio_points 1 ''u'' 0)\<lparr>pt_points := 16\<rparr>)]\<rparr>)]"

lemma sample_points_ok: "coverage_ok sample_points" "shares_sum sample_points = 16" "points_sum sample_points = 16" "length (all_radios sample_points) = 1"
proof -
  have "places s (of_nat n)" for s n unfolding places_def by (rule exI [of _ "int n * 10 ^ s"]) simp
  from this [of _ 1] this [of _ 16] have "places s 1" "places s 16" for s by simp_all
  then show "coverage_ok sample_points" "shares_sum sample_points = 16" "points_sum sample_points = 16" "length (all_radios sample_points) = 1"
    by (simp_all add: sample_points_def coverage_ok_def hotspot_ok_def radio_ok_def points_sum_def shares_sum_def all_radios_def new_radio_points_def)
qed


theorem data_transfer_capped_witness:
  "tw_scale (from_transfer_sessions exact_decimal (1 / 1000000) [(''h'', \<lparr>hw_bytes = 0, hw_dc = 100000\<rparr>)] (0, hours 183)) = 1"
proof -
  let ?tr = "from_transfer_sessions exact_decimal (1 / 1000000) [(''h'', \<lparr>hw_bytes = 0, hw_dc = 100000\<rparr>)] (0, hours 183)"
  have s: "bones_sum exact_decimal ?tr = 1000000"
    by (simp add: bones_sum_def from_transfer_sessions_def Let_def dc_to_mobile_bones_def exact_decimal_def MOBILE_DC_USD_PRICE_def
      round_dp_up_def MOBILE_DEFAULT_PREC_def)
  have pool: "get_total_scheduled_tokens exact_decimal (snd (0, hours 183) - fst (0, hours 183)) = 625000000000000"
    by (simp add: get_total_scheduled_tokens_def exact_decimal_def TOTAL_EMISSIONS_POOL_def num_seconds_def)
  have "representable 1000000" using representable_int [of 1000000] by simp
  then show ?thesis
    using data_transfer_capped [OF refl pool [symmetric] s [symmetric] exact_decimal_laws] by simp
qed

section \<open>A run of the rewarder\<close>

definition sample_meta :: "string \<rightharpoonup> string" where
  "sample_meta = [LAST_REWARDED_END_TIME \<mapsto> show_int 0, NEXT_REWARDED_END_TIME \<mapsto> show_int 658800,
     ''disable_complete_data_checks_until'' \<mapsto> show_int 1000000000]"

definition sample_mobile_tables :: mobile_tables where
  "sample_mobile_tables = \<lparr>mt_heartbeats = \<lparr>st_db = \<lparr>ct_objects = [], ct_hexes = [], ct_seniority = []\<rparr>, st_cbrs = [], st_wifi = [], st_cache = [],
       st_claims = Map.empty, st_hexes = Map.empty, st_heartbeat_sink = [], st_seniority_sink = []\<rparr>,
     mt_speedtests = [], mt_sessions = [\<lparr>hs_pub_key = ''h'', hs_payer = ''p'', hs_upload = 1, hs_download = 2, hs_num_dcs = 100000, hs_received = 5\<rparr>],
     mt_locations = [\<lparr>lv_subscriber = [7], lv_received = hours 182\<rparr>]\<rparr>"

definition sample_mobile_world :: "(mobile_tables, mobile_reward_share) reward_world" where
  "sample_mobile_world = \<lparr>rw_meta = sample_meta, rw_tables = sample_mobile_tables, rw_out = \<lparr>eo_sink = [], eo_manifests = []\<rparr>\<rparr>"

definition sample_mobile_answers :: "bool \<Rightarrow> mobile_answers" where
  "sample_mobile_answers manifest = \<lparr>ma_price = Some 1000000, ma_query = (\<lambda>_. True), ma_heartbeats_fail = None, ma_averages = True,
     ma_to_f64 = (\<lambda>_. True), ma_provider = (\<lambda>_. Inr 0),
     ma_epoch = \<lparr>ea_write = (\<lambda>_. True), ea_commit = True, ea_db = True, ea_manifest = manifest\<rparr>\<rparr>"

abbreviation sample_scheduler :: scheduler where
  "sample_scheduler \<equiv> new_scheduler (hours 183) 0 (hours 183) 0"

lemma sample_period [simp]: "sc_period sample_scheduler = (0, hours 183)"
  by (simp add: new_scheduler_def)

lemma sample_mobile_poc:
  "mobile_reward_poc D is_pk valid_cell (sample_mobile_answers b) period s sample_mobile_tables = (Inr [], sample_mobile_tables)"
  by (simp add: mobile_reward_poc_def Let_def sample_mobile_answers_def sample_mobile_tables_def heartbeat_stream_def validated_rewards_def table_rewards_def
    radio_groups_def aggregate_points_def no_coverage_def into_coverage_rewards_def points_into_rewards_def coverage_total_shares_def)

lemma sample_stages:
  "\<exists>mappers providers. reward_mappers D (sample_mobile_answers b) period sample_mobile_tables = Inr mappers \<and>
     reward_service_providers D (sample_mobile_answers b) period price sample_mobile_tables = Inr providers"
  by (cases "fst period \<le> 5 \<and> 5 < snd period")
    (auto simp: reward_mappers_def reward_service_providers_def sample_mobile_answers_def sample_mobile_tables_def Let_def
      sum_data_sessions_to_dc_by_payer_def sessions_in_def payer_sum_def)

lemma sample_reward:
  assumes "rw_tables w = sample_mobile_tables"
  shows "\<exists>w'. mobile_reward D is_pk valid_cell (sample_mobile_answers b) sc w = (if b then Inr () else Inl EpochSink, w') \<and>
    rw_meta w' = advance_period sc (rw_meta w) \<and> rw_tables w' = clear_mobile_tables (fst (sc_period sc)) sample_mobile_tables"
proof -
  let ?a = "sample_mobile_answers b" and ?price = "to_mobile_bone_price D 1000000" and ?period = "sc_period sc"
  obtain mappers providers where st: "reward_mappers D ?a ?period sample_mobile_tables = Inr mappers"
    "reward_service_providers D ?a ?period ?price sample_mobile_tables = Inr providers"
    using sample_stages by metis
  have "\<exists>dc. reward_poc_and_dc D is_pk valid_cell ?a ?period ?price sample_mobile_tables = ([Inr [], Inr dc], sample_mobile_tables)"
    unfolding reward_poc_and_dc_def Let_def sample_mobile_poc by (simp add: sample_mobile_answers_def)
  then obtain dc where dc: "reward_poc_and_dc D is_pk valid_cell ?a ?period ?price sample_mobile_tables = ([Inr [], Inr dc], sample_mobile_tables)" by blast
  have same: "w\<lparr>rw_tables := sample_mobile_tables\<rparr> = w" using assms by (cases w) simp
  have p: "ma_price ?a = Some 1000000" and ea: "ma_epoch ?a = \<lparr>ea_write = (\<lambda>_. True), ea_commit = True, ea_db = True, ea_manifest = b\<rparr>"
    by (simp_all add: sample_mobile_answers_def)
  have "mobile_reward D is_pk valid_cell ?a sc w = run_epoch (ma_epoch ?a) sc
      [Inr [], Inr dc, Inr mappers, Inr providers, Inr (mobile_reward_oracles D ?period)] (clear_mobile_tables (fst ?period)) w"
    unfolding mobile_reward_def p option.case Let_def assms dc prod.case st append_Cons append_Nil by (simp add: same)
  then show ?thesis using run_epoch_answered [of "ma_epoch ?a" "[Inr [], Inr dc, Inr mappers, Inr providers, Inr (mobile_reward_oracles D ?period)]"
    sc "clear_mobile_tables (fst ?period)" w] assms unfolding ea by auto
qed

lemma sample_fetch:
  "fetch_rewarded_timestamp (\<lambda>_. True) LAST_REWARDED_END_TIME sample_meta = Inr 0"
  "fetch_rewarded_timestamp (\<lambda>_. True) NEXT_REWARDED_END_TIME sample_meta = Inr (hours 183)"
  using fetch_stored [of sample_meta LAST_REWARDED_END_TIME 0 "\<lambda>_. True"] fetch_stored [of sample_meta NEXT_REWARDED_END_TIME 658800 "\<lambda>_. True"]
  by (simp_all add: sample_meta_def)

lemma sample_mobile_tick:
  assumes "rw_tables w = sample_mobile_tables" "fetch_rewarded_timestamp (\<lambda>_. True) LAST_REWARDED_END_TIME (rw_meta w) = Inr a"
    "fetch_rewarded_timestamp (\<lambda>_. True) NEXT_REWARDED_END_TIME (rw_meta w) = Inr c" "c \<le> now"
    "rw_meta w ''disable_complete_data_checks_until'' = Some (show_int 1000000000)" "c < seconds 1000000000"
  shows "\<exists>w'. mobile_tick D is_pk valid_cell (\<lambda>_. True) len 0 (sample_mobile_answers b) now w = (if b then Inr 0 else Inl EpochSink, w') \<and>
    rw_meta w' = advance_period (new_scheduler len a c 0) (rw_meta w) \<and> rw_tables w' = clear_mobile_tables a sample_mobile_tables \<and> (b \<longrightarrow> eo_manifests (rw_out w') \<noteq> [])"
proof -
  let ?sc = "new_scheduler len a c 0"
  have sc: "sc_period ?sc = (a, c)" "should_reward ?sc now" using assms(4) by (simp_all add: new_scheduler_def should_reward_def)
  have cur: "is_data_current (\<lambda>_. True) (ma_query (sample_mobile_answers b)) (rw_meta w) (a, c) (rw_tables w) = Inr True"
    using fetch_stored [of "rw_meta w" "''disable_complete_data_checks_until''" 1000000000 "\<lambda>_. True"] assms(5,6) by (simp add: is_data_current_def sample_mobile_answers_def)
  obtain w' where w': "mobile_reward D is_pk valid_cell (sample_mobile_answers b) ?sc w = (if b then Inr () else Inl EpochSink, w')"
    "rw_meta w' = advance_period ?sc (rw_meta w)" "rw_tables w' = clear_mobile_tables a sample_mobile_tables"
    using sample_reward [OF assms(1), where sc = ?sc] unfolding sc by (metis fst_conv)
  have "eo_manifests (rw_out w') \<noteq> []" if b by (rule mobile_reward_stages [of D is_pk valid_cell "sample_mobile_answers b" ?sc w w']) (use that w'(1) in auto)
  then show ?thesis unfolding mobile_tick_def assms(2,3) sum.case Let_def sc cur using w' sc(2) by (intro exI [of _ w']) simp
qed

lemma sample_pools:
  "mapper_pool exact_decimal (0, hours 183) = 125000000000000" "sp_pool exact_decimal (0, hours 183) = 62500000000000"
  "oracle_pool exact_decimal (0, hours 183) = 25000000000000"
  by (simp_all add: mapper_pool_def sp_pool_def oracle_pool_def get_scheduled_tokens_for_mappers_def get_scheduled_tokens_for_service_providers_def
    get_scheduled_tokens_for_oracles_def get_total_scheduled_tokens_def exact_decimal_def TOTAL_EMISSIONS_POOL_def num_seconds_def
    MAPPERS_REWARDS_PERCENT_def SERVICE_PROVIDER_PERCENT_def ORACLES_PERCENT_def)

lemma sample_transfer:
  "epoch_transfer exact_decimal (1 / 1000000) (0, hours 183) sample_mobile_tables =
    \<lparr>tw_scale = 1, tw_rewards = [(''h'', \<lparr>tr_bones = 1000000, tr_bytes = 3\<rparr>)], tw_sum = 1000000, tw_price = 1 / 1000000\<rparr>"
  by (simp add: epoch_transfer_def aggregate_hotspot_data_sessions_to_dc_def data_sessions_to_dc_def sessions_in_def sample_mobile_tables_def
    from_transfer_sessions_def Let_def dc_to_mobile_bones_def exact_decimal_def MOBILE_DC_USD_PRICE_def round_dp_up_def MOBILE_DEFAULT_PREC_def
    get_total_scheduled_tokens_def TOTAL_EMISSIONS_POOL_def num_seconds_def MAX_DATA_TRANSFER_REWARDS_PERCENT_def add_session_def)

lemma sample_payers: "payers_dc (0, hours 183) sample_mobile_tables = 100000"
  by (simp add: payers_dc_def sum_data_sessions_to_dc_by_payer_def sessions_in_def sample_mobile_tables_def payer_sum_def Let_def)

lemma sample_in_range: "epoch_in_range exact_decimal (0, hours 183) (1 / 1000000) sample_mobile_tables"
proof -
  have "representable (of_int n)" if "\<bar>n\<bar> < 2 ^ 96" for n using representable_int [OF that] .
  from this [of 1000000] this [of 125000000000000] this [of 62500000000000] this [of 25000000000000]
  show ?thesis
    unfolding epoch_in_range_def Let_def sample_transfer sample_pools sample_payers
    by (simp add: scaled_bones_def transfer_total_def pool_fits_def exact_decimal_def) (simp add: sample_mobile_tables_def)
qed

theorem mobile_epoch_accounted_witness:
  "\<exists>w' rs. mobile_reward exact_decimal (\<lambda>_. False) (\<lambda>_. True) (sample_mobile_answers True) sample_scheduler sample_mobile_world = (Inr (), w') \<and>
    eo_manifests (rw_out w') = [(encode_period (0, hours 183), rs)] \<and> 212500001000000 \<le> amounts rs"
proof -
  let ?D = exact_decimal and ?a = "sample_mobile_answers True"
  have "rw_tables sample_mobile_world = sample_mobile_tables" by (simp add: sample_mobile_world_def)
  from sample_reward [OF this, where b = True] obtain w' where w': "mobile_reward ?D (\<lambda>_. False) (\<lambda>_. True) ?a sample_scheduler sample_mobile_world = (Inr (), w')"
    by (metis (full_types))
  have price: "to_mobile_bone_price ?D 1000000 = 1 / 1000000" by (simp add: to_mobile_bone_price_def exact_decimal_def)
  have w: "eo_sink (rw_out sample_mobile_world) = []" "ma_price ?a = Some 1000000" "rw_tables sample_mobile_world = sample_mobile_tables"
    "eo_manifests (rw_out sample_mobile_world) = []"
    by (simp_all add: sample_mobile_world_def sample_mobile_answers_def)
  obtain poc dc mappers providers oracles where m: "eo_manifests (rw_out w') = [(encode_period (0, hours 183), poc @ dc @ mappers @ providers @ oracles)]"
    "int (amounts dc) = \<lfloor>transfer_total ?D (epoch_transfer ?D (1 / 1000000) (0, hours 183) sample_mobile_tables)\<rfloor>"
    "\<lfloor>mapper_pool ?D (0, hours 183)\<rfloor> \<le> int (amounts mappers)" "\<lfloor>sp_pool ?D (0, hours 183)\<rfloor> \<le> int (amounts providers)"
    "int (amounts oracles) = \<lfloor>oracle_pool ?D (0, hours 183)\<rfloor>"
    using mobile_epoch_accounted [OF exact_decimal_laws w' w(1,2) sample_period [symmetric] price [symmetric] w(3) [symmetric] sample_in_range]
    unfolding w(4) append_Nil by (elim exE conjE) (rule that; assumption)
  have "212500001000000 \<le> amounts (poc @ dc @ mappers @ providers @ oracles)"
    using m(2-5) unfolding sample_pools sample_transfer by (simp add: transfer_total_def exact_decimal_def)
  then show ?thesis using w' m(1) by blast
qed

section \<open>The periods of the mobile network\<close>

text \<open>C4: from the first period on, the periods the mobile rewarder pays follow each other without gap and without overlap, each of the configured
  length, over every sequence of ticks, changes of the tables and restarts; the manifests are those of these periods, in their order, at most one
  for each.\<close>

theorem mobile_periods_contiguous:
  assumes "epoch_reachable (mobile_tick D is_pk valid_cell rep len offset) rep w\<^sub>0 (w, ps)" "0 < len" "len mod nanos_per_sec = 0"
    "rw_meta w\<^sub>0 LAST_REWARDED_END_TIME = Some (show_int a)" "rw_meta w\<^sub>0 NEXT_REWARDED_END_TIME = Some (show_int b)"
    "eo_manifests (rw_out w\<^sub>0) = []"
  shows "(\<forall>i < length ps. ps ! i = (if i = 0 then seconds a else seconds b + int (i - 1) * len, seconds b + int i * len)) \<and>
    subseq (map fst (eo_manifests (rw_out w))) (map encode_period ps)"
  using mobile_epochs.periods_contiguous [OF assms(1), of "(seconds a, seconds b)"] assms(2-) by simp

lemma sample_disabled: "sample_meta ''disable_complete_data_checks_until'' = Some (show_int 1000000000)"
  by (simp add: sample_meta_def)

lemma sample_first_tick:
  "\<exists>w'. mobile_tick D is_pk valid_cell (\<lambda>_. True) (hours 183) 0 (sample_mobile_answers b) (hours 184) sample_mobile_world =
      (if b then Inr 0 else Inl EpochSink, w') \<and>
    rw_meta w' = advance_period sample_scheduler sample_meta \<and> rw_tables w' = sample_mobile_tables"
proof -
  have "clear_mobile_tables 0 sample_mobile_tables = sample_mobile_tables"
    by (simp add: clear_mobile_tables_def Let_def sample_mobile_tables_def clear_heartbeats_def clear_coverage_objects_def clear_speedtests_def
      clear_hotspot_data_sessions_def)
  then show ?thesis using sample_mobile_tick [of sample_mobile_world 0 "hours 183" "hours 184" D is_pk valid_cell "hours 183" b] sample_fetch sample_disabled
    by (auto simp: sample_mobile_world_def)
qed

lemma sample_advanced:
  "advance_period sample_scheduler sample_meta LAST_REWARDED_END_TIME = Some (show_int 658800)"
  "advance_period sample_scheduler sample_meta NEXT_REWARDED_END_TIME = Some (show_int 1317600)"
  "advance_period sample_scheduler sample_meta ''disable_complete_data_checks_until'' = Some (show_int 1000000000)"
  "advance_period sample_scheduler sample_meta \<noteq> sample_meta"
proof -
  show last: "advance_period sample_scheduler sample_meta LAST_REWARDED_END_TIME = Some (show_int 658800)"
    and "advance_period sample_scheduler sample_meta NEXT_REWARDED_END_TIME = Some (show_int 1317600)"
    and "advance_period sample_scheduler sample_meta ''disable_complete_data_checks_until'' = Some (show_int 1000000000)"
    by (simp_all add: advance_period_def save_rewarded_timestamp_def meta_store_def new_scheduler_def next_reward_period_def sample_meta_def)
  have "sample_meta LAST_REWARDED_END_TIME = Some (show_int 0)" by (simp add: sample_meta_def)
  then show "advance_period sample_scheduler sample_meta \<noteq> sample_meta" using last show_int_i64 [of 0 658800] by auto
qed

theorem mobile_periods_contiguous_witness:
  "\<exists>w ps. epoch_reachable (mobile_tick exact_decimal (\<lambda>_. False) (\<lambda>_. True) (\<lambda>_. True) (hours 183) 0) (\<lambda>_. True) sample_mobile_world (w, ps) \<and>
    ps \<noteq> [] \<and> ps ! 0 = (0, hours 183)"
proof -
  let ?tick = "mobile_tick exact_decimal (\<lambda>_. False) (\<lambda>_. True) (\<lambda>_. True) (hours 183) 0" and ?w = sample_mobile_world
  obtain w' where tick: "?tick (sample_mobile_answers True) (hours 184) ?w = (Inr 0, w')" and meta': "rw_meta w' = advance_period sample_scheduler sample_meta"
    using sample_first_tick [where b = True and D = exact_decimal] by fastforce
  then have "rw_meta w' \<noteq> rw_meta ?w" using sample_advanced by (simp add: sample_mobile_world_def)
  then have "epoch_step ?tick (\<lambda>_. True) (?w, []) (w', [(0, hours 183)])"
    using epoch_step.ticked [where tick = ?tick, OF tick, of "\<lambda>_. True" "[]"] sample_fetch by (simp add: sample_mobile_world_def)
  then have reach: "epoch_reachable ?tick (\<lambda>_. True) ?w (w', [(0, hours 183)])" by (rule epoch_reachable.epoch_next [OF epoch_reachable.epoch_init])
  have meta: "rw_meta ?w LAST_REWARDED_END_TIME = Some (show_int 0)" "rw_meta ?w NEXT_REWARDED_END_TIME = Some (show_int 658800)"
      "eo_manifests (rw_out ?w) = []" by (simp_all add: sample_mobile_world_def sample_meta_def)
  have "(if (0::nat) = 0 then seconds 0 else seconds 658800 + int (0 - 1) * hours 183, seconds 658800 + int 0 * hours 183) = [(0, hours 183)] ! 0"
    using mobile_periods_contiguous [OF reach _ _ meta] by simp
  then show ?thesis using reach by (intro exI [of _ w'] exI [of _ "[(0, hours 183)]"]) simp
qed

section \<open>A manifest that is lost\<close>

text \<open>C30: the manifest is written after the transaction that moves the period on. When a tick fails after that transaction, the manifest of its
  period has not been written, and it never is: in every later state a manifest is one from before or that of a period that begins no earlier
  than the end of the lost one.\<close>

theorem mobile_manifest_lost:
  assumes "mobile_tick D is_pk valid_cell rep len offset ma now w = (Inl e, w')" "rw_meta w' \<noteq> rw_meta w"
    "rw_meta w NEXT_REWARDED_END_TIME = Some (show_int b)" "0 < len" "len mod nanos_per_sec = 0"
    "epoch_reachable (mobile_tick D is_pk valid_cell rep len offset) rep w' (w'', ps)" "(m, rs) \<in> set (eo_manifests (rw_out w''))"
  shows "m \<in> fst ` set (eo_manifests (rw_out w)) \<or> (\<exists>q. m = encode_period q \<and> seconds b \<le> fst q)"
proof -
  obtain a c where f: "fetch_rewarded_timestamp rep LAST_REWARDED_END_TIME (rw_meta w) = Inr a" "fetch_rewarded_timestamp rep NEXT_REWARDED_END_TIME (rw_meta w) = Inr c"
    and run: "mobile_reward D is_pk valid_cell ma (new_scheduler len a c offset) w = (Inl e, w')"
    using assms(1,2) by (auto simp: mobile_tick_def Let_def split: sum.splits if_splits bool.splits prod.splits)
  have c: "c = seconds b" using fetch_saved [where t = "seconds b", OF _ _ f(2)] assms(3) by simp
  obtain p where p: "ma_price ma = Some p" using run assms(2) by (cases "ma_price ma") (auto simp: mobile_reward_def)
  obtain stages t where s: "reward_poc_and_dc D is_pk valid_cell ma (sc_period (new_scheduler len a c offset)) (to_mobile_bone_price D p) (rw_tables w) = (stages, t)"
    by fastforce
  note eff = run_epoch_effect [OF run [unfolded mobile_reward_def p option.case Let_def s prod.case]]
  have same: "eo_manifests (rw_out w') = eo_manifests (rw_out w)" and adv: "rw_meta w' = advance_period (new_scheduler len a c offset) (rw_meta w)"
    using eff assms(2) by auto
  have saved: "rw_meta w' LAST_REWARDED_END_TIME = Some (show_int (c div nanos_per_sec))" "rw_meta w' NEXT_REWARDED_END_TIME = Some (show_int ((c + len) div nanos_per_sec))"
    unfolding adv by (simp_all add: advance_period_def save_rewarded_timestamp_def meta_store_def next_reward_period_def new_scheduler_def)
  have whole: "c mod nanos_per_sec = 0" "(c + len) mod nanos_per_sec = 0" using assms(5) by (simp_all add: c mod_add_right_eq [symmetric])
  have "m \<in> fst ` set (eo_manifests (rw_out w')) \<or> (\<exists>q. m = encode_period q \<and> c \<le> fst q)"
    using mobile_epochs.later_manifests [OF assms(6), of "(c, c + len)"] whole saved assms(4,5,7) by simp
  then show ?thesis using same c by simp
qed

theorem mobile_manifest_lost_witness:
  "\<exists>e w' d w'' m rs. mobile_tick exact_decimal (\<lambda>_. False) (\<lambda>_. True) (\<lambda>_. True) (hours 183) 0 (sample_mobile_answers False) (hours 184)
      sample_mobile_world = (Inl e, w') \<and>
    mobile_tick exact_decimal (\<lambda>_. False) (\<lambda>_. True) (\<lambda>_. True) (hours 183) 0 (sample_mobile_answers True) (hours 367) w' = (Inr d, w'') \<and>
    (m, rs) \<in> set (eo_manifests (rw_out w'')) \<and> (\<exists>q. m = encode_period q \<and> hours 183 \<le> fst q)"
proof -
  let ?tick = "mobile_tick exact_decimal (\<lambda>_. False) (\<lambda>_. True) (\<lambda>_. True) (hours 183) 0" and ?w = sample_mobile_world
  obtain w' where t1: "?tick (sample_mobile_answers False) (hours 184) ?w = (Inl EpochSink, w')" and w': "rw_meta w' = advance_period sample_scheduler sample_meta"
      "rw_tables w' = sample_mobile_tables"
    using sample_first_tick [where b = False and D = exact_decimal] by fastforce
  have f: "fetch_rewarded_timestamp (\<lambda>_. True) LAST_REWARDED_END_TIME (rw_meta w') = Inr (seconds 658800)"
    "fetch_rewarded_timestamp (\<lambda>_. True) NEXT_REWARDED_END_TIME (rw_meta w') = Inr (seconds 1317600)"
    using fetch_stored [of "rw_meta w'" LAST_REWARDED_END_TIME 658800 "\<lambda>_. True"] fetch_stored [of "rw_meta w'" NEXT_REWARDED_END_TIME 1317600 "\<lambda>_. True"]
      sample_advanced(1,2) by (simp_all add: w'(1))
  obtain w'' where t2: "?tick (sample_mobile_answers True) (hours 367) w' = (Inr 0, w'')" "eo_manifests (rw_out w'') \<noteq> []"
    using sample_mobile_tick [OF w'(2) f, of "hours 367" exact_decimal "\<lambda>_. False" "\<lambda>_. True" "hours 183" True] sample_advanced(3) w'(1) by fastforce
  then obtain m rs where m: "(m, rs) \<in> set (eo_manifests (rw_out w''))" by (metis list.set_intros(1) neq_Nil_conv surj_pair)
  obtain ps where reach: "epoch_reachable ?tick (\<lambda>_. True) w' (w'', ps)"
    using epoch_reachable.epoch_next [OF epoch_reachable.epoch_init epoch_step.ticked [where tick = ?tick, OF t2(1)]] by blast
  have changed: "rw_meta w' \<noteq> rw_meta ?w" using sample_advanced(4) w'(1) by (simp add: sample_mobile_world_def)
  have nxt: "rw_meta ?w NEXT_REWARDED_END_TIME = Some (show_int 658800)" "eo_manifests (rw_out ?w) = []" by (simp_all add: sample_mobile_world_def sample_meta_def)
  have "\<exists>q. m = encode_period q \<and> seconds 658800 \<le> fst q"
    using mobile_manifest_lost [OF t1 changed nxt(1) _ _ reach m] nxt(2) by simp
  then show ?thesis using t1 t2(1) m
    by (intro exI [of _ EpochSink] exI [of _ w'] exI [of _ 0] exI [of _ w''] exI [of _ m] exI [of _ rs]) simp
qed

end
