(* ===== verification/Mobile_Packets.thy ===== *)
theory Mobile_Packets
  imports Mobile_Sessions
begin

text \<open>
  The mobile packet verifier, \<open>src/mobile_packet_verifier/src\<close>: \<open>accumulate.rs\<close> adds the data transfer reports of a file
  to the sessions of a hotspot and a payer, \<open>event_ids.rs\<close> remembers the events seen, and \<open>burner.rs\<close> burns the data credits of the
  sessions of each payer and writes them for the mobile verifier. \<open>transfer_step\<close> is a turn of the loop of \<open>daemon.rs\<close> or of the
  purger. The lemmas say that every accepted byte is burned once when the deletion after a burn succeeds, and that it is burned again when it
  fails.
\<close>

section \<open>Sessions and events\<close>

record transfer_report =
  dr_event_id :: string
  dr_pub_key :: pubkey
  dr_payer :: pubkey
  dr_upload :: u64
  dr_download :: u64
  dr_rewardable :: u64
  dr_router :: pubkey
  dr_received :: timestamp

record transfer_session =
  ts_pub_key :: pubkey
  ts_payer :: pubkey
  ts_uploaded :: i64
  ts_downloaded :: i64
  ts_rewardable :: i64
  ts_first :: timestamp
  ts_last :: timestamp

record transfer_tables =
  tt_sessions :: "transfer_session list"
  tt_events :: "(string \<times> timestamp) list"

datatype transfer_status = TransferValid | TransferCancelled | TransferDuplicate | InvalidGatewayKey | InvalidRoutingKey

text \<open>\<open>INSERT ... ON CONFLICT DO NOTHING\<close>: the table after it and whether the event was there.\<close>

definition is_duplicate :: "string \<Rightarrow> timestamp \<Rightarrow> (string \<times> timestamp) list \<Rightarrow> (string \<times> timestamp) list \<times> bool" where
  "is_duplicate event received events =
     (if event \<in> fst ` set events then (events, True) else (events @ [(event, received)], False))"

definition purge_events :: "timestamp \<Rightarrow> duration \<Rightarrow> (string \<times> timestamp) list \<Rightarrow> (string \<times> timestamp) list" where
  "purge_events now max_age events = filter (\<lambda>(_, received). \<not> received < now - max_age) events"

text \<open>An error of a service counts as a refusal.\<close>

definition verify_transfer_report ::
  "(pubkey \<Rightarrow> 'e + 'g option) \<Rightarrow> (pubkey \<Rightarrow> 'e + bool) \<Rightarrow> transfer_report \<Rightarrow> (string \<times> timestamp) list \<Rightarrow> (string \<times> timestamp) list \<times> transfer_status" where
  "verify_transfer_report gateway authorized r events =
     (case is_duplicate (dr_event_id r) (dr_received r) events of
        (events, dup) \<Rightarrow>
          (events,
           if dup then TransferDuplicate
           else if \<not> (case gateway (dr_pub_key r) of Inl _ \<Rightarrow> False | Inr info \<Rightarrow> info \<noteq> None) then InvalidGatewayKey
           else if \<not> (case authorized (dr_router r) of Inl _ \<Rightarrow> False | Inr ok \<Rightarrow> ok) then InvalidRoutingKey
           else TransferValid))"

definition add_to_session :: "timestamp \<Rightarrow> transfer_report \<Rightarrow> transfer_session \<Rightarrow> transfer_session option" where
  "add_to_session file_ts r s =
     (case (add_i64 (ts_uploaded s) (dr_upload r), add_i64 (ts_downloaded s) (dr_download r), add_i64 (ts_rewardable s) (dr_rewardable r)) of
        (Some u, Some d, Some b) \<Rightarrow>
          Some (s\<lparr>ts_uploaded := u, ts_downloaded := d, ts_rewardable := b, ts_last := max (ts_last s) file_ts\<rparr>)
      | _ \<Rightarrow> None)"

text \<open>The upsert by hotspot and payer; \<open>None\<close> when a sum leaves the range of the column.\<close>

fun upsert_session :: "timestamp \<Rightarrow> transfer_report \<Rightarrow> transfer_session list \<Rightarrow> transfer_session list option" where
  "upsert_session file_ts r [] =
     Some [\<lparr>ts_pub_key = dr_pub_key r, ts_payer = dr_payer r, ts_uploaded = dr_upload r, ts_downloaded = dr_download r,
            ts_rewardable = dr_rewardable r, ts_first = file_ts, ts_last = file_ts\<rparr>]"
| "upsert_session file_ts r (s # ss) =
     (if ts_pub_key s = dr_pub_key r \<and> ts_payer s = dr_payer r
      then map_option (\<lambda>s. s # ss) (add_to_session file_ts r s)
      else map_option (\<lambda>ss. s # ss) (upsert_session file_ts r ss))"

text \<open>The loop over the reports of a file, in a transaction: \<open>None\<close> is an error, after which nothing is committed. The invalid
  reports that were written are returned on every path. The answers are numbered by report.\<close>

fun accumulate_sessions ::
  "(pubkey \<Rightarrow> 'e + 'g option) \<Rightarrow> (pubkey \<Rightarrow> 'e + bool) \<Rightarrow> (nat \<Rightarrow> bool) \<Rightarrow> (nat \<Rightarrow> bool) \<Rightarrow> nat \<Rightarrow> timestamp \<Rightarrow> transfer_report list \<Rightarrow>
   transfer_tables \<Rightarrow> transfer_tables option \<times> (transfer_report \<times> transfer_status) list" where
  "accumulate_sessions gateway authorized write_ok db_ok n file_ts [] t = (Some t, [])"
| "accumulate_sessions gateway authorized write_ok db_ok n file_ts (r # rs) t =
     (if dr_rewardable r = 0 then
        if write_ok n then
          (case accumulate_sessions gateway authorized write_ok db_ok (Suc n) file_ts rs t of (res, out) \<Rightarrow> (res, (r, TransferCancelled) # out))
        else (None, [])
      else if \<not> db_ok n then (None, [])
      else case verify_transfer_report gateway authorized r (tt_events t) of
             (events, status) \<Rightarrow>
               let t = t\<lparr>tt_events := events\<rparr> in
               if status \<noteq> TransferValid then
                 if write_ok n then
                   (case accumulate_sessions gateway authorized write_ok db_ok (Suc n) file_ts rs t of (res, out) \<Rightarrow> (res, (r, status) # out))
                 else (None, [])
               else case upsert_session file_ts r (tt_sessions t) of
                      None \<Rightarrow> (None, [])
                    | Some sessions \<Rightarrow>
                        accumulate_sessions gateway authorized write_ok db_ok (Suc n) file_ts rs (t\<lparr>tt_sessions := sessions\<rparr>))"

section \<open>Burning\<close>

definition MOBILE_BYTES_PER_DC :: u64 where "MOBILE_BYTES_PER_DC = 20000"

definition bytes_to_dc :: "u64 \<Rightarrow> u64" where
  "bytes_to_dc bytes = (let bytes = max bytes MOBILE_BYTES_PER_DC in (bytes + MOBILE_BYTES_PER_DC - 1) div MOBILE_BYTES_PER_DC)"

record payer_totals =
  pt_total_dcs :: u64
  pt_sessions :: "transfer_session list"

definition push_sess :: "transfer_session \<Rightarrow> payer_totals \<Rightarrow> payer_totals" where
  "push_sess s p = \<lparr>pt_total_dcs = pt_total_dcs p + bytes_to_dc (ts_rewardable s), pt_sessions = pt_sessions p @ [s]\<rparr>"

definition group_by_payer :: "transfer_session list \<Rightarrow> (pubkey \<times> payer_totals) list" where
  "group_by_payer sessions = foldl (\<lambda>m s. entry_update (ts_payer s) \<lparr>pt_total_dcs = 0, pt_sessions = []\<rparr> (push_sess s) m) [] sessions"

datatype mobile_burn_error = MobileSqlError | MobileSolanaError | MobileFileStoreError

text \<open>How the calls for one payer end: its balance, whether the transaction could be made, whether the chain executed it and whether
  the answer said so, the deletion, and the writes by number.\<close>

record payer_answers =
  pa_balance :: "u64 option"
  pa_make :: bool
  pa_executed :: bool
  pa_submitted :: bool
  pa_delete :: bool
  pa_write_session :: "nat \<Rightarrow> bool"

definition burn_data_credits :: "payer_answers \<Rightarrow> pubkey \<Rightarrow> u64 \<Rightarrow> (pubkey \<times> u64) list \<times> bool" where
  "burn_data_credits a payer amount = (if pa_make a then (if pa_executed a then [(payer, amount)] else [], pa_submitted a) else ([], False))"

text \<open>The record written: the fields its readers use, and the rest of it.\<close>

record session_output = valid_session +
  so_rewardable :: u64
  so_first :: u64
  so_last :: u64

definition millis_u64 :: "timestamp \<Rightarrow> u64" where
  "millis_u64 ts = word_of_int (ts div 10 ^ 6)"

definition session_output_of :: "transfer_session \<Rightarrow> session_output" where
  "session_output_of s = \<lparr>vt_pub_key = ts_pub_key s, vt_payer = ts_payer s, vt_upload = ts_uploaded s, vt_download = ts_downloaded s,
     vt_num_dcs = bytes_to_dc (ts_rewardable s), so_rewardable = ts_rewardable s,
     so_first = millis_u64 (ts_first s), so_last = millis_u64 (ts_last s)\<rparr>"

fun write_sessions :: "(nat \<Rightarrow> bool) \<Rightarrow> nat \<Rightarrow> transfer_session list \<Rightarrow> bool \<times> session_output list" where
  "write_sessions ok n [] = (True, [])"
| "write_sessions ok n (s # ss) =
     (if ok n then case write_sessions ok (Suc n) ss of (res, out) \<Rightarrow> (res, session_output_of s # out) else (False, []))"

text \<open>The table, the burns the chain executed and the sessions written.\<close>

record burn_world =
  bw_sessions :: "transfer_session list"
  bw_chain :: "(pubkey \<times> u64) list"
  bw_written :: "session_output list"

text \<open>The loop over the payers, in the order of the map; the error ends it.\<close>

fun burn_payers ::
  "(pubkey \<Rightarrow> payer_answers) \<Rightarrow> (pubkey \<times> payer_totals) list \<Rightarrow> burn_world \<Rightarrow> (mobile_burn_error + unit) \<times> burn_world" where
  "burn_payers ans [] w = (Inr (), w)"
| "burn_payers ans ((payer, p) # ps) w =
     (case pa_balance (ans payer) of
        None \<Rightarrow> (Inl MobileSolanaError, w)
      | Some balance \<Rightarrow>
          if balance < pt_total_dcs p then burn_payers ans ps w
          else case burn_data_credits (ans payer) payer (pt_total_dcs p) of
                 (burns, ok) \<Rightarrow>
                   let w = w\<lparr>bw_chain := bw_chain w @ burns\<rparr> in
                   if \<not> ok then burn_payers ans ps w
                   else if \<not> pa_delete (ans payer) then (Inl MobileSqlError, w)
                   else let w = w\<lparr>bw_sessions := filter (\<lambda>s. ts_payer s \<noteq> payer) (bw_sessions w)\<rparr> in
                        case write_sessions (pa_write_session (ans payer)) 0 (pt_sessions p) of
                          (res, out) \<Rightarrow>
                            let w = w\<lparr>bw_written := bw_written w @ out\<rparr> in
                            if res then burn_payers ans ps w else (Inl MobileFileStoreError, w))"

definition mobile_burn ::
  "bool \<Rightarrow> (pubkey \<Rightarrow> payer_answers) \<Rightarrow> ((pubkey \<times> payer_totals) list \<Rightarrow> (pubkey \<times> payer_totals) list) \<Rightarrow> burn_world \<Rightarrow>
   (mobile_burn_error + unit) \<times> burn_world" where
  "mobile_burn read_ok ans order w =
     (if read_ok then burn_payers ans (order (group_by_payer (bw_sessions w))) w else (Inl MobileSqlError, w))"

section \<open>Groups\<close>

lemma group_by_payer_get:
  "map_of (group_by_payer sessions) p =
    (let own = filter (\<lambda>s. ts_payer s = p) sessions in
     if own = [] then None else Some \<lparr>pt_total_dcs = sum_list (map (\<lambda>s. bytes_to_dc (ts_rewardable s)) own), pt_sessions = own\<rparr>)"
proof (induction sessions rule: rev_induct)
  case Nil
  show ?case by (simp add: group_by_payer_def)
next
  case (snoc s ss)
  have "group_by_payer (ss @ [s]) = entry_update (ts_payer s) \<lparr>pt_total_dcs = 0, pt_sessions = []\<rparr> (push_sess s) (group_by_payer ss)"
    by (simp add: group_by_payer_def)
  then show ?case using snoc.IH by (auto simp: entry_update_map_of push_sess_def Let_def)
qed

lemma group_by_payer_distinct: "distinct (map fst (group_by_payer sessions))"
proof -
  have "distinct (map fst m) \<Longrightarrow> distinct (map fst (foldl (\<lambda>m s. entry_update (ts_payer s) \<lparr>pt_total_dcs = 0, pt_sessions = []\<rparr> (push_sess s) m) m sessions))" for m
    by (induction sessions arbitrary: m) (simp_all add: entry_update_distinct)
  then show ?thesis by (simp add: group_by_payer_def)
qed

section \<open>Bytes\<close>

definition key_of :: "transfer_session \<Rightarrow> pubkey \<times> pubkey" where
  "key_of s = (ts_pub_key s, ts_payer s)"

definition report_key :: "transfer_report \<Rightarrow> pubkey \<times> pubkey" where
  "report_key r = (dr_pub_key r, dr_payer r)"

definition session_bytes :: "pubkey \<times> pubkey \<Rightarrow> transfer_session list \<Rightarrow> int" where
  "session_bytes k ss = sum_list (map (\<lambda>s. sint (ts_rewardable s)) (filter (\<lambda>s. key_of s = k) ss))"

definition report_bytes :: "pubkey \<times> pubkey \<Rightarrow> transfer_report list \<Rightarrow> int" where
  "report_bytes k rs = sum_list (map (\<lambda>r. sint (dr_rewardable r)) (filter (\<lambda>r. report_key r = k) rs))"

text \<open>The reports of a file that count: not cancelled, their event not seen before, of a known gateway and router.\<close>

fun accepted_reports :: "(pubkey \<Rightarrow> 'e + 'g option) \<Rightarrow> (pubkey \<Rightarrow> 'e + bool) \<Rightarrow> (string \<times> timestamp) list \<Rightarrow> transfer_report list \<Rightarrow> transfer_report list" where
  "accepted_reports gateway authorized events [] = []"
| "accepted_reports gateway authorized events (r # rs) =
     (if dr_rewardable r = 0 then accepted_reports gateway authorized events rs
      else case verify_transfer_report gateway authorized r events of
             (events, status) \<Rightarrow>
               (if status = TransferValid then [r] else []) @ accepted_reports gateway authorized events rs)"

lemma upsert_session_bytes:
  assumes "upsert_session ts r ss = Some ss'"
  shows "session_bytes k ss' = session_bytes k ss + report_bytes k [r]"
  using assms
proof (induction ss arbitrary: ss')
  case Nil
  then show ?case by (auto simp: session_bytes_def report_bytes_def key_of_def report_key_def)
next
  case (Cons s ss)
  show ?case
  proof (cases "ts_pub_key s = dr_pub_key r \<and> ts_payer s = dr_payer r")
    case True
    then obtain s' where s': "add_to_session ts r s = Some s'" "ss' = s' # ss" using Cons.prems by auto
    then have "key_of s' = key_of s" "sint (ts_rewardable s') = sint (ts_rewardable s) + sint (dr_rewardable r)"
      using sint_add_i64 by (auto simp: add_to_session_def key_of_def split: option.splits)
    then show ?thesis using True s'(2) by (auto simp: session_bytes_def report_bytes_def key_of_def report_key_def)
  next
    case False
    then obtain tl where "upsert_session ts r ss = Some tl" "ss' = s # tl" using Cons.prems by auto
    then show ?thesis using Cons.IH [of tl] by (simp add: session_bytes_def)
  qed
qed

lemma upsert_session_keys:
  "upsert_session ts r ss = Some ss' \<Longrightarrow> distinct (map key_of ss) \<Longrightarrow>
   distinct (map key_of ss') \<and> set (map key_of ss') = insert (report_key r) (set (map key_of ss))"
proof (induction ss arbitrary: ss')
  case Nil
  then show ?case by (auto simp: key_of_def report_key_def)
next
  case (Cons s ss)
  show ?case
  proof (cases "ts_pub_key s = dr_pub_key r \<and> ts_payer s = dr_payer r")
    case True
    then obtain s' where s': "add_to_session ts r s = Some s'" "ss' = s' # ss" using Cons.prems(1) by auto
    then have "key_of s' = key_of s" by (auto simp: add_to_session_def key_of_def split: option.splits)
    then show ?thesis using True s'(2) Cons.prems(2) by (auto simp: key_of_def report_key_def)
  next
    case False
    then obtain tl where tl: "upsert_session ts r ss = Some tl" "ss' = s # tl" using Cons.prems(1) by auto
    have "key_of s \<noteq> report_key r" using False by (simp add: key_of_def report_key_def)
    then show ?thesis using Cons.IH [OF tl(1)] Cons.prems(2) tl(2) by auto
  qed
qed

lemma accumulate_sessions_accepted:
  assumes "accumulate_sessions gateway authorized write_ok db_ok n ts rs t = (Some t', out)" "distinct (map key_of (tt_sessions t))"
  shows "session_bytes k (tt_sessions t') = session_bytes k (tt_sessions t) + report_bytes k (accepted_reports gateway authorized (tt_events t) rs) \<and>
    distinct (map key_of (tt_sessions t'))"
  using assms
proof (induction rs arbitrary: n t out)
  case Nil
  then show ?case by (simp add: report_bytes_def)
next
  case (Cons r rs)
  obtain events status where v: "verify_transfer_report gateway authorized r (tt_events t) = (events, status)" by fastforce
  consider "dr_rewardable r = 0" | "dr_rewardable r \<noteq> 0" "status \<noteq> TransferValid" | "dr_rewardable r \<noteq> 0" "status = TransferValid" by blast
  then show ?case
  proof cases
    case 1
    then show ?thesis using Cons.prems Cons.IH [of "Suc n" t] by (auto split: if_splits prod.splits)
  next
    case 2
    then show ?thesis using Cons.prems Cons.IH [of "Suc n" "t\<lparr>tt_events := events\<rparr>"] v by (auto split: if_splits prod.splits)
  next
    case 3
    then obtain ss where ss: "upsert_session ts r (tt_sessions t) = Some ss" using Cons.prems(1) v by (auto split: if_splits option.splits)
    then have run: "accumulate_sessions gateway authorized write_ok db_ok (Suc n) ts rs (t\<lparr>tt_events := events, tt_sessions := ss\<rparr>) = (Some t', out)"
      using Cons.prems(1) v 3 by (auto split: if_splits)
    have "session_bytes k (tt_sessions t') = session_bytes k ss + report_bytes k (accepted_reports gateway authorized events rs) \<and> distinct (map key_of (tt_sessions t'))"
      using Cons.IH [OF run] upsert_session_keys [OF ss Cons.prems(2)] by simp
    then show ?thesis using upsert_session_bytes [OF ss, of k] v 3 by (simp add: report_bytes_def)
  qed
qed

section \<open>The service\<close>

text \<open>The tables, the burns of the chain, what was written, and for the statement the reports that were accepted and the sessions
  that were removed.\<close>

record transfer_world =
  tw_tables :: transfer_tables
  tw_chain :: "(pubkey \<times> u64) list"
  tw_written :: "session_output list"
  tw_accepted :: "transfer_report list"
  tw_settled :: "transfer_session list"

definition burn_step :: "bool \<Rightarrow> (pubkey \<Rightarrow> payer_answers) \<Rightarrow> ((pubkey \<times> payer_totals) list \<Rightarrow> (pubkey \<times> payer_totals) list) \<Rightarrow> transfer_world \<Rightarrow>
    (mobile_burn_error + unit) \<times> transfer_world" where
  "burn_step read_ok ans order w =
     (case mobile_burn read_ok ans order \<lparr>bw_sessions = tt_sessions (tw_tables w), bw_chain = tw_chain w, bw_written = tw_written w\<rparr> of
        (res, b) \<Rightarrow> (res, w\<lparr>tw_tables := (tw_tables w)\<lparr>tt_sessions := bw_sessions b\<rparr>, tw_chain := bw_chain b, tw_written := bw_written b,
          tw_settled := tw_settled w @ filter (\<lambda>s. s \<notin> set (bw_sessions b)) (tt_sessions (tw_tables w))\<rparr>))"

text \<open>The answer of the chain is true, and the sessions of a burn can be deleted.\<close>

definition answers_true :: "(pubkey \<Rightarrow> payer_answers) \<Rightarrow> bool" where
  "answers_true ans \<longleftrightarrow> (\<forall>p. pa_executed (ans p) = pa_submitted (ans p) \<and> pa_delete (ans p))"

definition reorders :: "((pubkey \<times> payer_totals) list \<Rightarrow> (pubkey \<times> payer_totals) list) \<Rightarrow> bool" where
  "reorders order \<longleftrightarrow> (\<forall>m. distinct (map fst m) \<longrightarrow> distinct (map fst (order m)) \<and> set (order m) = set m)"

inductive transfer_step ::
  "(pubkey \<Rightarrow> 'e + 'g option) \<Rightarrow> (pubkey \<Rightarrow> 'e + bool) \<Rightarrow> ((pubkey \<Rightarrow> payer_answers) \<Rightarrow> bool) \<Rightarrow> transfer_world \<Rightarrow> transfer_world \<Rightarrow> bool"
  for gateway authorized allowed where
  transfers_ingested: "accumulate_sessions gateway authorized write_ok db_ok 0 ts rs (tw_tables w) = (Some t, out) \<Longrightarrow>
    transfer_step gateway authorized allowed w
      (w\<lparr>tw_tables := t, tw_accepted := tw_accepted w @ accepted_reports gateway authorized (tt_events (tw_tables w)) rs\<rparr>)"
| transfers_burned: "allowed ans \<Longrightarrow> reorders order \<Longrightarrow> burn_step read_ok ans order w = (res, w') \<Longrightarrow> transfer_step gateway authorized allowed w w'"
| events_purged: "transfer_step gateway authorized allowed w
    (w\<lparr>tw_tables := (tw_tables w)\<lparr>tt_events := purge_events now max_age (tt_events (tw_tables w))\<rparr>\<rparr>)"

inductive transfer_reachable ::
  "(pubkey \<Rightarrow> 'e + 'g option) \<Rightarrow> (pubkey \<Rightarrow> 'e + bool) \<Rightarrow> ((pubkey \<Rightarrow> payer_answers) \<Rightarrow> bool) \<Rightarrow> transfer_world \<Rightarrow> bool"
  for gateway authorized allowed where
  transfer_start: "transfer_reachable gateway authorized allowed
    \<lparr>tw_tables = \<lparr>tt_sessions = [], tt_events = []\<rparr>, tw_chain = [], tw_written = [], tw_accepted = [], tw_settled = []\<rparr>"
| transfer_next: "transfer_reachable gateway authorized allowed w \<Longrightarrow> transfer_step gateway authorized allowed w w' \<Longrightarrow>
    transfer_reachable gateway authorized allowed w'"

definition chain_dc :: "pubkey \<Rightarrow> (pubkey \<times> u64) list \<Rightarrow> u64" where
  "chain_dc p chain = sum_list (map snd (filter (\<lambda>b. fst b = p) chain))"

definition sessions_dc :: "pubkey \<Rightarrow> transfer_session list \<Rightarrow> u64" where
  "sessions_dc p ss = sum_list (map (\<lambda>s. bytes_to_dc (ts_rewardable s)) (filter (\<lambda>s. ts_payer s = p) ss))"

lemma chain_dc_append [simp]: "chain_dc p (xs @ ys) = chain_dc p xs + chain_dc p ys"
  by (simp add: chain_dc_def)

text \<open>One payer of the loop, when the answers are true: the loop ends or goes on with nothing changed, or the payer is burned and its
  sessions are removed.\<close>

lemma burn_payers_cases:
  assumes "burn_payers ans ((payer, g) # ps) w = (res, w')" "answers_true ans"
  obtains (ends) "w' = w" | (skips) "burn_payers ans ps w = (res, w')"
  | (burns) w2 where "bw_chain w2 = bw_chain w @ [(payer, pt_total_dcs g)]" "bw_sessions w2 = filter (\<lambda>s. ts_payer s \<noteq> payer) (bw_sessions w)"
      "w' = w2 \<or> burn_payers ans ps w2 = (res, w')"
proof (cases "pa_balance (ans payer)")
  case None
  then show thesis using assms(1) ends by simp
next
  case (Some balance)
  have true: "pa_executed (ans payer) = pa_submitted (ans payer)" "pa_delete (ans payer)" using assms(2) by (simp_all add: answers_true_def)
  show thesis
  proof (cases "balance < pt_total_dcs g \<or> \<not> pa_make (ans payer) \<or> \<not> pa_submitted (ans payer)")
    case True
    then have "burn_payers ans ps w = (res, w')" using assms(1) Some true by (auto simp: burn_data_credits_def split: if_splits)
    then show thesis by (rule skips)
  next
    case False
    obtain ok out where wr: "write_sessions (pa_write_session (ans payer)) 0 (pt_sessions g) = (ok, out)" by fastforce
    define w2 where "w2 = w\<lparr>bw_chain := bw_chain w @ [(payer, pt_total_dcs g)], bw_sessions := filter (\<lambda>s. ts_payer s \<noteq> payer) (bw_sessions w),
      bw_written := bw_written w @ out\<rparr>"
    have "w' = w2 \<or> burn_payers ans ps w2 = (res, w')"
      using assms(1) Some False true wr by (cases ok) (simp_all add: burn_data_credits_def w2_def Let_def)
    then show thesis by (intro burns [of w2]) (simp_all add: w2_def)
  qed
qed

definition groups_of :: "transfer_session list \<Rightarrow> (pubkey \<times> payer_totals) list \<Rightarrow> bool" where
  "groups_of ss ps \<longleftrightarrow> distinct (map fst ps) \<and> (\<forall>(p, g) \<in> set ps. pt_total_dcs g = sessions_dc p ss)"

lemma sessions_dc_filter: "sessions_dc p (filter (\<lambda>s. ts_payer s \<noteq> payer) ss) = (if p = payer then 0 else sessions_dc p ss)"
  by (induction ss) (auto simp: sessions_dc_def)

lemma groups_of_rest:
  assumes "groups_of ss ((payer, g) # ps)"
  shows "groups_of ss ps" "groups_of (filter (\<lambda>s. ts_payer s \<noteq> payer) ss) ps" "pt_total_dcs g = sessions_dc payer ss"
  using assms by (force simp: groups_of_def sessions_dc_filter)+

text \<open>The payers burned are those removed, each burned for what its sessions cost.\<close>

definition settles :: "pubkey set \<Rightarrow> burn_world \<Rightarrow> burn_world \<Rightarrow> bool" where
  "settles B w w' \<longleftrightarrow> bw_sessions w' = filter (\<lambda>s. ts_payer s \<notin> B) (bw_sessions w) \<and>
     (\<forall>p. chain_dc p (bw_chain w') = chain_dc p (bw_chain w) + (if p \<in> B then sessions_dc p (bw_sessions w) else 0))"

lemma settles_empty: "settles {} w w"
  by (simp add: settles_def)

lemma settles_payer:
  "bw_chain w2 = bw_chain w @ [(payer, sessions_dc payer (bw_sessions w))] \<Longrightarrow> bw_sessions w2 = filter (\<lambda>s. ts_payer s \<noteq> payer) (bw_sessions w) \<Longrightarrow>
   settles B w2 w' \<Longrightarrow> payer \<notin> B \<Longrightarrow> settles (insert payer B) w w'"
  unfolding settles_def by (auto simp: sessions_dc_filter chain_dc_def conj_commute)

lemma burn_payers_settles:
  "burn_payers ans ps w = (res, w') \<Longrightarrow> answers_true ans \<Longrightarrow> groups_of (bw_sessions w) ps \<Longrightarrow> \<exists>B \<subseteq> fst ` set ps. settles B w w'"
proof (induction ps arbitrary: w)
  case Nil
  then show ?case using settles_empty by auto
next
  case (Cons x ps)
  obtain payer g where x: "x = (payer, g)" by fastforce
  note rest = groups_of_rest [OF Cons.prems(3) [unfolded x]]
  from Cons.prems(1,2) [unfolded x] show ?case
  proof (cases rule: burn_payers_cases)
    case ends
    then show ?thesis using settles_empty by blast
  next
    case skips
    then show ?thesis using Cons.IH [OF skips Cons.prems(2) rest(1)] by auto
  next
    case (burns w2)
    have fresh: "payer \<notin> fst ` set ps" using Cons.prems(3) x by (simp add: groups_of_def)
    have "\<exists>B \<subseteq> fst ` set ps. settles B w2 w'"
      using burns(3) Cons.IH [of w2] Cons.prems(2) rest(2) burns(2) settles_empty by fastforce
    then obtain B where B: "B \<subseteq> fst ` set ps" "settles B w2 w'" by blast
    have "settles (insert payer B) w w'"
      using settles_payer [OF _ burns(2) B(2)] burns(1) rest(3) B(1) fresh by auto
    then show ?thesis using B(1) x by (intro exI [of _ "insert payer B"]) auto
  qed
qed

lemma group_by_payer_groups: "groups_of ss (group_by_payer ss)"
proof -
  have "pt_total_dcs g = sessions_dc p ss" if "(p, g) \<in> set (group_by_payer ss)" for p g
    using that map_of_is_SomeI [OF group_by_payer_distinct that] by (auto simp: group_by_payer_get sessions_dc_def Let_def split: if_splits)
  then show ?thesis using group_by_payer_distinct by (auto simp: groups_of_def)
qed

lemma mobile_burn_settles:
  assumes "mobile_burn read_ok ans order w = (res, w')" "answers_true ans" "reorders order"
  shows "\<exists>B. settles B w w'"
proof (cases read_ok)
  case False
  then show ?thesis using assms(1) settles_empty by (auto simp: mobile_burn_def)
next
  case True
  have "groups_of (bw_sessions w) (order (group_by_payer (bw_sessions w)))"
    using group_by_payer_groups [of "bw_sessions w"] assms(3) by (simp add: groups_of_def reorders_def)
  then show ?thesis using burn_payers_settles assms(1,2) True by (fastforce simp: mobile_burn_def)
qed

section \<open>Every accepted byte\<close>

definition transfers_settled :: "transfer_world \<Rightarrow> bool" where
  "transfers_settled w \<longleftrightarrow> distinct (map key_of (tt_sessions (tw_tables w))) \<and>
     (\<forall>k. report_bytes k (tw_accepted w) = session_bytes k (tt_sessions (tw_tables w)) + session_bytes k (tw_settled w)) \<and>
     (\<forall>p. chain_dc p (tw_chain w) = sessions_dc p (tw_settled w))"

lemma removed_by_payer:
  "filter (\<lambda>s. s \<notin> set (filter (\<lambda>s. ts_payer s \<notin> B) ss)) ss = filter (\<lambda>s. ts_payer s \<in> B) ss"
  by (rule filter_cong) auto

lemma session_bytes_append [simp]: "session_bytes k (xs @ ys) = session_bytes k xs + session_bytes k ys"
  by (simp add: session_bytes_def)

lemma report_bytes_append [simp]: "report_bytes k (xs @ ys) = report_bytes k xs + report_bytes k ys"
  by (simp add: report_bytes_def)

lemma sessions_dc_append [simp]: "sessions_dc p (xs @ ys) = sessions_dc p xs + sessions_dc p ys"
  by (simp add: sessions_dc_def)

lemma session_bytes_split:
  "session_bytes k (filter (\<lambda>s. ts_payer s \<notin> B) ss) + session_bytes k (filter (\<lambda>s. ts_payer s \<in> B) ss) = session_bytes k ss"
  by (induction ss) (auto simp: session_bytes_def)

lemma sessions_dc_in: "sessions_dc p (filter (\<lambda>s. ts_payer s \<in> B) ss) = (if p \<in> B then sessions_dc p ss else 0)"
  by (induction ss) (auto simp: sessions_dc_def)

lemma burn_step_settled:
  assumes "burn_step read_ok ans order w = (res, w')" "answers_true ans" "reorders order" "transfers_settled w"
  shows "transfers_settled w'"
proof -
  define b where "b = \<lparr>bw_sessions = tt_sessions (tw_tables w), bw_chain = tw_chain w, bw_written = tw_written w\<rparr>"
  obtain b' where b': "mobile_burn read_ok ans order b = (res, b')" "w' = w\<lparr>tw_tables := (tw_tables w)\<lparr>tt_sessions := bw_sessions b'\<rparr>,
      tw_chain := bw_chain b', tw_written := bw_written b', tw_settled := tw_settled w @ filter (\<lambda>s. s \<notin> set (bw_sessions b')) (tt_sessions (tw_tables w))\<rparr>"
    using assms(1) by (auto simp: burn_step_def b_def split: prod.splits)
  obtain B where "settles B b b'" using mobile_burn_settles [OF b'(1) assms(2,3)] by blast
  then have B: "bw_sessions b' = filter (\<lambda>s. ts_payer s \<notin> B) (tt_sessions (tw_tables w))"
    "\<forall>p. chain_dc p (bw_chain b') = chain_dc p (tw_chain w) + (if p \<in> B then sessions_dc p (tt_sessions (tw_tables w)) else 0)"
    by (simp_all add: settles_def b_def)
  have "session_bytes k (tt_sessions (tw_tables w)) = session_bytes k (bw_sessions b') + session_bytes k (filter (\<lambda>s. ts_payer s \<in> B) (tt_sessions (tw_tables w)))" for k
    using session_bytes_split [of k B "tt_sessions (tw_tables w)"] B(1) by simp
  moreover have "filter (\<lambda>s. s \<notin> set (bw_sessions b')) (tt_sessions (tw_tables w)) = filter (\<lambda>s. ts_payer s \<in> B) (tt_sessions (tw_tables w))"
    unfolding B(1) by (rule removed_by_payer)
  moreover have "distinct (map key_of (bw_sessions b'))" using assms(4) by (simp add: B(1) transfers_settled_def distinct_map_filter)
  ultimately show ?thesis using assms(4) B(2) unfolding transfers_settled_def b'(2) by (simp add: sessions_dc_in)
qed

lemma transfer_step_settled:
  "transfer_step gateway authorized answers_true w w' \<Longrightarrow> transfers_settled w \<Longrightarrow> transfers_settled w'"
proof (induction rule: transfer_step.induct)
  case (transfers_ingested write_ok db_ok ts rs w t out)
  then show ?case using accumulate_sessions_accepted [OF transfers_ingested.hyps] by (simp add: transfers_settled_def)
next
  case (transfers_burned ans order read_ok w res w')
  then show ?case using burn_step_settled by blast
next
  case (events_purged w now max_age)
  then show ?case by (simp add: transfers_settled_def)
qed

text \<open>C99: In every state the mobile packet verifier reaches, when the chain's answers are true and the sessions of a burn can be deleted,
  the bytes of the accepted reports of a hotspot and a payer are the bytes of the session table and of the sessions removed from it, and
  what the chain burned of a payer is what its removed sessions cost.\<close>

theorem transfers_burned_once:
  assumes "transfer_reachable gateway authorized answers_true w"
  shows "transfers_settled w"
  using assms
proof (induction rule: transfer_reachable.induct)
  case transfer_start
  show ?case by (simp add: transfers_settled_def report_bytes_def session_bytes_def chain_dc_def sessions_dc_def)
next
  case (transfer_next w w')
  then show ?case using transfer_step_settled by blast
qed

section \<open>Examples and errors\<close>

definition sample_transfer :: transfer_report where
  "sample_transfer = \<lparr>dr_event_id = ''e1'', dr_pub_key = ''h1'', dr_payer = ''p1'', dr_upload = 25000, dr_download = 50000, dr_rewardable = 75000,
     dr_router = ''r1'', dr_received = 0\<rparr>"

definition sample_session :: transfer_session where
  "sample_session = \<lparr>ts_pub_key = ''h1'', ts_payer = ''p1'', ts_uploaded = 25000, ts_downloaded = 50000, ts_rewardable = 75000, ts_first = 0, ts_last = 0\<rparr>"

definition no_world :: transfer_world where
  "no_world = \<lparr>tw_tables = \<lparr>tt_sessions = [], tt_events = []\<rparr>, tw_chain = [], tw_written = [], tw_accepted = [], tw_settled = []\<rparr>"

definition sample_ingested :: transfer_world where
  "sample_ingested = no_world\<lparr>tw_tables := \<lparr>tt_sessions = [sample_session], tt_events = [(''e1'', 0)]\<rparr>, tw_accepted := [sample_transfer]\<rparr>"

definition good_answers :: payer_answers where
  "good_answers = \<lparr>pa_balance = Some 100, pa_make = True, pa_executed = True, pa_submitted = True, pa_delete = True, pa_write_session = (\<lambda>_. True)\<rparr>"

lemma sample_ingested_reachable:
  "transfer_reachable (\<lambda>_. Inr (Some ()) :: unit + unit option) (\<lambda>_. Inr True :: unit + bool) answers_true sample_ingested"
proof -
  have "accumulate_sessions (\<lambda>_. Inr (Some ()) :: unit + unit option) (\<lambda>_. Inr True :: unit + bool) (\<lambda>_. True) (\<lambda>_. True) 0 0
      [sample_transfer, sample_transfer] (tw_tables no_world) = (Some (tw_tables sample_ingested), [(sample_transfer, TransferDuplicate)])"
    by (simp add: no_world_def sample_ingested_def sample_transfer_def sample_session_def verify_transfer_report_def is_duplicate_def)
  from transfers_ingested [OF this] have "transfer_step (\<lambda>_. Inr (Some ()) :: unit + unit option) (\<lambda>_. Inr True :: unit + bool) answers_true no_world sample_ingested"
    by (simp add: no_world_def sample_ingested_def sample_transfer_def verify_transfer_report_def is_duplicate_def)
  then show ?thesis by (rule transfer_next [OF transfer_start, folded no_world_def])
qed

definition sample_burned :: transfer_world where
  "sample_burned = snd (burn_step True (\<lambda>_. good_answers) (\<lambda>m. m) sample_ingested)"

lemma sample_burned_chain: "tw_chain sample_burned = [(''p1'', 4)]" "tt_sessions (tw_tables sample_burned) = []"
  by code_simp+

lemma sample_burned_reachable:
  "transfer_reachable (\<lambda>_. Inr (Some ()) :: unit + unit option) (\<lambda>_. Inr True :: unit + bool) answers_true sample_burned"
proof (rule transfer_next [OF sample_ingested_reachable], rule transfers_burned)
  show "answers_true (\<lambda>_. good_answers)" by (simp add: answers_true_def good_answers_def)
  show "reorders (\<lambda>m. m)" by (simp add: reorders_def)
  show "burn_step True (\<lambda>_. good_answers) (\<lambda>m. m) sample_ingested = (fst (burn_step True (\<lambda>_. good_answers) (\<lambda>m. m) sample_ingested), sample_burned)"
    by (simp add: sample_burned_def)
qed

theorem transfers_burned_once_witness:
  "tw_chain sample_burned = [(''p1'', 4)] \<and> transfers_settled sample_burned"
  using transfers_burned_once [OF sample_burned_reachable] sample_burned_chain(1) by simp

text \<open>C99: A file counts an event at most once, and never one the table of events has.\<close>

theorem transfers_counted_once:
  "distinct (map dr_event_id (accepted_reports gateway authorized events rs)) \<and>
   dr_event_id ` set (accepted_reports gateway authorized events rs) \<inter> fst ` set events = {}"
proof (induction rs arbitrary: events)
  case Nil
  show ?case by simp
next
  case (Cons r rs)
  show ?case
  proof (cases "dr_rewardable r = 0 \<or> dr_event_id r \<in> fst ` set events")
    case True
    then show ?thesis using Cons.IH [of events] by (auto simp: verify_transfer_report_def is_duplicate_def)
  next
    case False
    then show ?thesis using Cons.IH [of "events @ [(dr_event_id r, dr_received r)]"]
      by (auto simp: verify_transfer_report_def is_duplicate_def split: prod.splits)
  qed
qed

text \<open>A map of one payer has one order.\<close>

lemma one_entry: "set m = {x} \<Longrightarrow> distinct (map fst m) \<Longrightarrow> m = [x]"
proof (cases m)
  case (Cons y ys)
  assume m: "set m = {x}" "distinct (map fst m)"
  have "z = y" if "z \<in> set ys" for z using m(1) Cons that by (metis insertCI list.simps(15) singletonD)
  moreover have "y \<notin> set ys" using m(2) Cons by auto
  ultimately have "ys = []" by (cases ys) auto
  then show ?thesis using m(1) Cons by simp
qed simp

lemma reorders_one: "reorders order \<Longrightarrow> order [x] = [x]"
  by (rule one_entry) (simp_all add: reorders_def)

lemma group_one_payer:
  assumes "ss \<noteq> []" "\<forall>s \<in> set ss. ts_payer s = p"
  shows "group_by_payer ss = [(p, \<lparr>pt_total_dcs = sessions_dc p ss, pt_sessions = ss\<rparr>)]"
proof -
  have all: "filter (\<lambda>s. ts_payer s = p) ss = ss" using assms(2) by simp
  have get: "map_of (group_by_payer ss) q = (if q = p then Some \<lparr>pt_total_dcs = sessions_dc p ss, pt_sessions = ss\<rparr> else None)" for q
    using assms by (auto simp: group_by_payer_get all sessions_dc_def Let_def filter_empty_conv)
  then have "set (group_by_payer ss) = {(p, \<lparr>pt_total_dcs = sessions_dc p ss, pt_sessions = ss\<rparr>)}"
    using map_of_eq_Some_iff [OF group_by_payer_distinct [of ss], symmetric] get by (simp add: set_eq_iff split: if_splits) metis
  then show ?thesis using group_by_payer_distinct [of ss] by (rule one_entry)
qed

text \<open>C99: When the sessions of a burn cannot be deleted the service keeps nothing of the burn, and the next burn takes the data credits of
  the same sessions from the payer again.\<close>

theorem transfers_burned_twice:
  assumes "tt_sessions (tw_tables w) = ss" "ss \<noteq> []" "\<forall>s \<in> set ss. ts_payer s = p" "reorders order"
    and "pa_balance (ans p) = Some b" "sessions_dc p ss \<le> b" "pa_make (ans p)" "pa_executed (ans p)" "pa_submitted (ans p)" "\<not> pa_delete (ans p)"
    and "pa_balance (ans' p) = Some b'" "sessions_dc p ss \<le> b'" "pa_make (ans' p)" "pa_executed (ans' p)" "pa_submitted (ans' p)" "pa_delete (ans' p)"
    and "burn_step True ans order w = (res, w1)" "burn_step True ans' order w1 = (res', w2)"
  shows "res = Inl MobileSqlError \<and> tw_settled w2 = tw_settled w @ ss \<and> chain_dc p (tw_chain w2) = chain_dc p (tw_chain w) + 2 * sessions_dc p ss"
proof -
  have groups: "order (group_by_payer ss) = [(p, \<lparr>pt_total_dcs = sessions_dc p ss, pt_sessions = ss\<rparr>)]"
    using group_one_payer [OF assms(2,3)] reorders_one [OF assms(4)] by simp
  have gone: "filter (\<lambda>s. ts_payer s \<noteq> p) ss = []" using assms(3) by (simp add: filter_empty_conv)
  have first: "res = Inl MobileSqlError" "tw_chain w1 = tw_chain w @ [(p, sessions_dc p ss)]" "tt_sessions (tw_tables w1) = ss" "tw_settled w1 = tw_settled w"
    using assms(17) by (auto simp: burn_step_def mobile_burn_def assms(1) groups assms(5,7-10) assms(6) [folded linorder_not_less] burn_data_credits_def)
  have "tw_chain w2 = tw_chain w1 @ [(p, sessions_dc p ss)] \<and> tw_settled w2 = tw_settled w1 @ ss"
    using assms(18) by (auto simp: burn_step_def mobile_burn_def first(3) groups gone assms(11,13-16) assms(12) [folded linorder_not_less] burn_data_credits_def Let_def
      split: prod.splits if_splits)
  then show ?thesis using first by (simp add: chain_dc_def)
qed

theorem transfers_burned_twice_witness:
  "\<exists>w1 w2 res'. burn_step True (\<lambda>_. good_answers\<lparr>pa_delete := False\<rparr>) (\<lambda>m. m) sample_ingested = (Inl MobileSqlError, w1) \<and>
     burn_step True (\<lambda>_. good_answers) (\<lambda>m. m) w1 = (res', w2) \<and> tw_settled w2 = [sample_session] \<and> chain_dc ''p1'' (tw_chain w2) = 8"
proof -
  obtain res w1 where r1: "burn_step True (\<lambda>_. good_answers\<lparr>pa_delete := False\<rparr>) (\<lambda>m. m) sample_ingested = (res, w1)" by fastforce
  obtain res' w2 where r2: "burn_step True (\<lambda>_. good_answers) (\<lambda>m. m) w1 = (res', w2)" by fastforce
  have dc: "sessions_dc ''p1'' [sample_session] = 4" by code_simp
  have payer: "ts_payer sample_session = ''p1''" by (simp add: sample_session_def)
  have start: "tt_sessions (tw_tables sample_ingested) = [sample_session]" "tw_settled sample_ingested = []" "chain_dc ''p1'' (tw_chain sample_ingested) = 0"
    by (simp_all add: sample_ingested_def no_world_def chain_dc_def)
  have "res = Inl MobileSqlError \<and> tw_settled w2 = tw_settled sample_ingested @ [sample_session] \<and>
      chain_dc ''p1'' (tw_chain w2) = chain_dc ''p1'' (tw_chain sample_ingested) + 2 * sessions_dc ''p1'' [sample_session]"
    by (rule transfers_burned_twice [OF start(1) _ _ _ _ _ _ _ _ _ _ _ _ _ _ _ r1 r2, where b = 100 and b' = 100])
      (simp_all add: dc good_answers_def reorders_def payer)
  then show ?thesis using r1 r2 by (auto simp: start dc)
qed

end
