(* ===== verification/Iot_Density.thy ===== *)
theory Iot_Density
  imports Oracles_Prelude Decimals
begin

text \<open>
  Transmit scaling of the IoT verifier (\<^verbatim>\<open>src/iot_verifier/src/hex_density.rs\<close>,
  \<^verbatim>\<open>tx_scaler.rs\<close>, \<^verbatim>\<open>last_beacon.rs\<close>). The grid of \<open>h3o\<close> is a record of
  functions: whether a number is a cell, the parent of a cell at a resolution, and the
  cells at distance at most one; \<open>grid_laws\<close> says that a parent lies at the resolution
  asked for. A hash map is a map with the list of its keys in the order in which the code
  visits them; the code visits them in an arbitrary order, and so the list is arbitrary.

  The lemmas show that the population of a cell never exceeds the number of gateways, so that
  no counter overflows, and that every scaling factor lies between zero and one.
\<close>

type_synonym cell = u64

record grid =
  g_valid :: "u64 \<Rightarrow> bool"
  g_parent :: "cell \<Rightarrow> nat \<Rightarrow> cell option"
  g_disk1 :: "cell \<Rightarrow> cell list"
  g_res :: "cell \<Rightarrow> nat"

record hex_res_config =
  hrc_neighbors :: nat
  hrc_target :: nat
  hrc_max :: nat

definition MAX_RES :: nat where "MAX_RES = 11"
definition USED_RES :: "nat list" where "USED_RES = [10, 9, 8, 7, 6, 5, 4]"
definition SCALING_RES :: "nat list" where "SCALING_RES = [13, 12, 11, 10, 9, 8, 7, 6, 5, 4]"
definition SCALING_PRECISION :: nat where "SCALING_PRECISION = 4"

definition new_config :: "nat \<Rightarrow> nat \<Rightarrow> nat \<Rightarrow> hex_res_config" where
  "new_config n t m = \<lparr>hrc_neighbors = n, hrc_target = t, hrc_max = m\<rparr>"

text \<open>The result is irrelevant for the resolutions the table does not hold: the code panics
  there, and is called with \<open>USED_RES\<close> only.\<close>

definition HIP104_RES_CONFIG :: "nat \<Rightarrow> hex_res_config option" where
  "HIP104_RES_CONFIG = map_of
     [(4, new_config 2 500 1000), (5, new_config 4 100 200), (6, new_config 4 25 50), (7, new_config 4 5 10),
      (8, new_config 2 1 1), (9, new_config 2 1 1), (10, new_config 2 1 1)]"

type_synonym hex_map = "cell \<rightharpoonup> nat"

record global_hex_map =
  clipped_hexes :: hex_map
  unclipped_hexes :: hex_map
  asserted_hexes :: "cell list"

definition new_global_map :: global_hex_map where
  "new_global_map = \<lparr>clipped_hexes = Map.empty, unclipped_hexes = Map.empty, asserted_hexes = []\<rparr>"

definition bump :: "cell \<Rightarrow> nat \<Rightarrow> hex_map \<Rightarrow> hex_map" where
  "bump k n m = m(k \<mapsto> (case m k of None \<Rightarrow> n | Some c \<Rightarrow> c + n))"

definition increment_unclipped :: "grid \<Rightarrow> u64 \<Rightarrow> global_hex_map \<Rightarrow> global_hex_map" where
  "increment_unclipped G index gm =
     (if g_valid G index then
        (case g_parent G index MAX_RES of
           None \<Rightarrow> gm
         | Some parent \<Rightarrow>
             \<lparr>clipped_hexes = bump parent 1 (clipped_hexes gm), unclipped_hexes = bump parent 1 (unclipped_hexes gm),
              asserted_hexes = asserted_hexes gm @ [index]\<rparr>)
      else gm)"

definition map_count :: "hex_map \<Rightarrow> cell \<Rightarrow> nat" where
  "map_count m k = (case m k of None \<Rightarrow> 0 | Some n \<Rightarrow> n)"

definition rollup_child_count :: "hex_map \<times> hex_map \<Rightarrow> cell \<Rightarrow> cell \<Rightarrow> hex_map \<times> hex_map" where
  "rollup_child_count maps cell parent =
     (case maps of (unclipped, clipped) \<Rightarrow>
        let cell_count = map_count clipped cell in (bump parent cell_count unclipped, bump parent cell_count clipped))"

definition occupied_count :: "grid \<Rightarrow> hex_map \<Rightarrow> cell \<Rightarrow> nat \<Rightarrow> nat" where
  "occupied_count G cell_map hex density_tgt =
     foldl (\<lambda>count cell. case cell_map cell of
        None \<Rightarrow> count
      | Some population \<Rightarrow> if population \<ge> density_tgt then count + 1 else count) 0 (g_disk1 G hex)"

definition get_res_tgt :: "nat \<Rightarrow> nat" where
  "get_res_tgt res = hrc_target (the (HIP104_RES_CONFIG res))"

definition limit :: "nat \<Rightarrow> nat \<Rightarrow> nat" where
  "limit res occupied =
     (let cfg = the (HIP104_RES_CONFIG res); diff = occupied - hrc_neighbors cfg
      in min (hrc_max cfg) (hrc_target cfg * max (diff + 1) 1))"

text \<open>The first pass of a resolution: the counts of the children are added to their parents,
  which are collected.\<close>

fun rollup_all :: "grid \<Rightarrow> nat \<Rightarrow> cell list \<Rightarrow> hex_map \<times> hex_map \<Rightarrow> cell list \<Rightarrow> (hex_map \<times> hex_map) \<times> cell list" where
  "rollup_all G res [] maps parents = (maps, parents)"
| "rollup_all G res (c # cs) maps parents =
     (case g_parent G c res of
        None \<Rightarrow> rollup_all G res cs maps parents
      | Some p \<Rightarrow> rollup_all G res cs (rollup_child_count maps c p) (parents @ [p]))"

text \<open>The second pass: every parent is clipped, reading what the earlier ones left.\<close>

fun clip_all :: "grid \<Rightarrow> nat \<Rightarrow> hex_map \<Rightarrow> cell list \<Rightarrow> hex_map \<Rightarrow> hex_map" where
  "clip_all G res unclipped [] clipped = clipped"
| "clip_all G res unclipped (p # ps) clipped =
     clip_all G res unclipped ps
       (case unclipped p of
          None \<Rightarrow> clipped
        | Some count \<Rightarrow> clipped(p \<mapsto> min (limit res (occupied_count G clipped p (get_res_tgt res))) count))"

text \<open>\<open>unique\<close> keeps the first occurrence.\<close>

fun unique :: "'a list \<Rightarrow> 'a list" where
  "unique [] = []"
| "unique (x # xs) = x # unique (filter (\<lambda>y. y \<noteq> x) xs)"

fun reduce_hex_res :: "grid \<Rightarrow> nat list \<Rightarrow> hex_map \<times> hex_map \<Rightarrow> cell list \<Rightarrow> hex_map \<times> hex_map" where
  "reduce_hex_res G [] maps hexes = maps"
| "reduce_hex_res G (res # rs) maps hexes =
     (case rollup_all G res hexes maps [] of
        ((unclipped, clipped), parents) \<Rightarrow>
          let hexes_at_res = unique parents
          in reduce_hex_res G rs (unclipped, clip_all G res unclipped hexes_at_res clipped) hexes_at_res)"

text \<open>\<open>starting\<close> lists the keys of the unclipped map.\<close>

definition reduce_global :: "grid \<Rightarrow> cell list \<Rightarrow> global_hex_map \<Rightarrow> global_hex_map" where
  "reduce_global G starting gm =
     (case reduce_hex_res G USED_RES (unclipped_hexes gm, clipped_hexes gm) starting of
        (unclipped, clipped) \<Rightarrow> gm\<lparr>unclipped_hexes := unclipped, clipped_hexes := clipped\<rparr>)"

definition hex_scale_of :: "decimal_ops \<Rightarrow> grid \<Rightarrow> global_hex_map \<Rightarrow> cell \<Rightarrow> rat" where
  "hex_scale_of D G gm hex =
     foldl (\<lambda>scale res. case g_parent G hex res of
        None \<Rightarrow> scale
      | Some p \<Rightarrow>
          (case (unclipped_hexes gm p, clipped_hexes gm p) of
             (Some unclipped, Some clipped) \<Rightarrow>
               d_mul D scale (d_div D (of_nat clipped / 10 ^ SCALING_PRECISION) (of_nat unclipped / 10 ^ SCALING_PRECISION))
           | _ \<Rightarrow> scale)) 1 SCALING_RES"

definition compute_hex_density_map :: "decimal_ops \<Rightarrow> grid \<Rightarrow> global_hex_map \<Rightarrow> u64 \<rightharpoonup> rat" where
  "compute_hex_density_map D G gm =
     foldl (\<lambda>m hex. m(hex \<mapsto> round_dp SCALING_PRECISION (hex_scale_of D G gm hex))) Map.empty (asserted_hexes gm)"

section \<open>Last beacons and the refresh\<close>

record last_beacon =
  lb_id :: bytes
  lb_timestamp :: timestamp

definition HIP_17_INTERACTIVITY_LIMIT :: int where "HIP_17_INTERACTIVITY_LIMIT = 3600"

definition get_all_since :: "timestamp \<Rightarrow> last_beacon list \<Rightarrow> last_beacon list" where
  "get_all_since deadline table = filter (\<lambda>b. lb_timestamp b \<ge> deadline) table"

definition last_beacon_get :: "last_beacon list \<Rightarrow> bytes \<Rightarrow> last_beacon option" where
  "last_beacon_get table key = (case filter (\<lambda>b. lb_id b = key) table of [] \<Rightarrow> None | b # _ \<Rightarrow> Some b)"

fun update_last_timestamp :: "bytes \<Rightarrow> timestamp \<Rightarrow> last_beacon list \<Rightarrow> last_beacon list" where
  "update_last_timestamp key ts [] = [\<lparr>lb_id = key, lb_timestamp = ts\<rparr>]"
| "update_last_timestamp key ts (b # bs) =
     (if lb_id b = key then b\<lparr>lb_timestamp := ts\<rparr> # bs else b # update_last_timestamp key ts bs)"

definition gateways_recent_activity :: "timestamp \<Rightarrow> last_beacon list \<Rightarrow> last_beacon list" where
  "gateways_recent_activity now table = get_all_since (now - minutes HIP_17_INTERACTIVITY_LIMIT) table"

text \<open>\<open>location\<close> is the asserted location of a key in the gateway cache; the keys are those of
  the table, which are unique. \<open>starting\<close> chooses the order in which the map is visited.\<close>

definition populate :: "grid \<Rightarrow> (bytes \<Rightarrow> u64 option) \<Rightarrow> last_beacon list \<Rightarrow> global_hex_map" where
  "populate G location active =
     foldl (\<lambda>gm b. case location (lb_id b) of None \<Rightarrow> gm | Some l \<Rightarrow> increment_unclipped G l gm) new_global_map active"

definition refresh_scaling_map ::
  "decimal_ops \<Rightarrow> grid \<Rightarrow> (hex_map \<Rightarrow> cell list) \<Rightarrow> (bytes \<Rightarrow> u64 option) \<Rightarrow> timestamp \<Rightarrow> duration \<Rightarrow>
   last_beacon list \<Rightarrow> u64 \<rightharpoonup> rat" where
  "refresh_scaling_map D G keys location now refresh_offset table =
     (let gm = populate G location (gateways_recent_activity (now - refresh_offset) table)
      in compute_hex_density_map D G (reduce_global G (keys (unclipped_hexes gm)) gm))"

section \<open>Populations\<close>

definition grid_laws :: "grid \<Rightarrow> bool" where
  "grid_laws G \<longleftrightarrow> (\<forall>c r p. g_parent G c r = Some p \<longrightarrow> g_res G p = r)"

lemma bump_simps [simp]:
  "map_count (bump k n m) k' = (if k' = k then map_count m k + n else map_count m k')"
  "dom (bump k n m) = insert k (dom m)"
  by (auto simp: bump_def map_count_def split: option.splits)

lemma bump_other: "k' \<noteq> k \<Longrightarrow> bump k n m k' = m k'"
  by (simp add: bump_def)

text \<open>Both maps have the same cells, and a clipped count is positive and at most the unclipped one.\<close>

definition clip_ok :: "hex_map \<Rightarrow> hex_map \<Rightarrow> bool" where
  "clip_ok u c \<longleftrightarrow> dom u = dom c \<and> (\<forall>k \<in> dom c. 0 < map_count c k \<and> map_count c k \<le> map_count u k)"

lemma clip_ok_le: "clip_ok u c \<Longrightarrow> map_count c k \<le> map_count u k"
  by (cases "k \<in> dom c") (auto simp: clip_ok_def map_count_def)

lemma clip_ok_bump: "clip_ok u c \<Longrightarrow> 0 < n \<Longrightarrow> clip_ok (bump k n u) (bump k n c)"
  using clip_ok_le [of u c] by (simp add: clip_ok_def)

lemma clip_ok_set:
  assumes "clip_ok u c" "u k = Some n" "0 < m" "m \<le> n"
  shows "clip_ok u (c(k \<mapsto> m))"
proof -
  have "dom (c(k \<mapsto> m)) = dom u" using assms(1,2) by (auto simp: clip_ok_def)
  then show ?thesis using assms by (simp add: clip_ok_def map_count_def)
qed

lemma rollup_child_count_eq:
  "rollup_child_count (u, c) cell p = (bump p (map_count c cell) u, bump p (map_count c cell) c)"
  by (simp add: rollup_child_count_def Let_def)

lemma rollup_all_ok:
  assumes "clip_ok u c" "set cs \<subseteq> dom c" "set ps \<subseteq> dom u" "rollup_all G r cs (u, c) ps = ((u', c'), ps')"
  shows "clip_ok u' c' \<and> set ps' \<subseteq> dom u'"
  using assms
proof (induction cs arbitrary: u c ps)
  case (Cons x cs)
  show ?case
  proof (cases "g_parent G x r")
    case None
    then show ?thesis using Cons by simp
  next
    case (Some p)
    have "0 < map_count c x" using Cons.prems(1,2) by (auto simp: clip_ok_def)
    then have "clip_ok (bump p (map_count c x) u) (bump p (map_count c x) c)" using Cons.prems(1) clip_ok_bump by blast
    moreover have "set cs \<subseteq> dom (bump p (map_count c x) c)" "set (ps @ [p]) \<subseteq> dom (bump p (map_count c x) u)"
      using Cons.prems(2,3) by auto
    moreover have "rollup_all G r cs (bump p (map_count c x) u, bump p (map_count c x) c) (ps @ [p]) = ((u', c'), ps')"
      using Cons.prems(4) Some by (simp add: rollup_child_count_eq)
    ultimately show ?thesis by (rule Cons.IH)
  qed
qed simp

lemma rollup_all_sum:
  assumes "grid_laws G" "\<forall>c \<in> set cs. g_res G c \<noteq> r" "distinct cs" "\<forall>k \<in> dom u. g_res G k = r \<longrightarrow> k \<in> set ps"
    "\<forall>k \<in> set ps. g_res G k = r" "rollup_all G r cs (u, c) ps = ((u', c'), ps')"
  shows "(\<Sum>k \<in> set ps'. map_count u' k) \<le> (\<Sum>k \<in> set ps. map_count u k) + (\<Sum>x \<in> set cs. map_count c x) \<and>
    (\<forall>k \<in> set ps'. g_res G k = r) \<and> (\<forall>k. g_res G k \<noteq> r \<longrightarrow> u' k = u k) \<and> dom u' \<subseteq> dom u \<union> set ps' \<and> set ps \<subseteq> set ps'"
  using assms(2-)
proof (induction cs arbitrary: u c ps)
  case (Cons x cs)
  show ?case
  proof (cases "g_parent G x r")
    case None
    then have run: "rollup_all G r cs (u, c) ps = ((u', c'), ps')" using Cons.prems(5) by simp
    have "(\<Sum>y \<in> set (x # cs). map_count c y) = map_count c x + (\<Sum>y \<in> set cs. map_count c y)"
      using Cons.prems(2) by simp
    moreover have "(\<Sum>k \<in> set ps'. map_count u' k) \<le> (\<Sum>k \<in> set ps. map_count u k) + (\<Sum>y \<in> set cs. map_count c y) \<and>
      (\<forall>k \<in> set ps'. g_res G k = r) \<and> (\<forall>k. g_res G k \<noteq> r \<longrightarrow> u' k = u k) \<and> dom u' \<subseteq> dom u \<union> set ps' \<and> set ps \<subseteq> set ps'"
      by (rule Cons.IH [OF _ _ _ _ run]) (use Cons.prems in simp_all)
    ultimately show ?thesis by simp
  next
    case (Some p)
    let ?n = "map_count c x"
    let ?u = "bump p ?n u" and ?c = "bump p ?n c"
    have p: "g_res G p = r" using assms(1) Some unfolding grid_laws_def by blast
    have run: "rollup_all G r cs (?u, ?c) (ps @ [p]) = ((u', c'), ps')"
      using Cons.prems(5) Some by (simp add: rollup_child_count_eq)
    have step: "(\<Sum>k \<in> set (ps @ [p]). map_count ?u k) = (\<Sum>k \<in> set ps. map_count u k) + ?n"
    proof (cases "p \<in> set ps")
      case True
      then have "(\<Sum>k \<in> set ps. map_count ?u k) = map_count ?u p + (\<Sum>k \<in> set ps - {p}. map_count ?u k)"
        by (simp add: sum.remove)
      also have "(\<Sum>k \<in> set ps - {p}. map_count ?u k) = (\<Sum>k \<in> set ps - {p}. map_count u k)" by (rule sum.cong) auto
      also have "map_count ?u p + (\<Sum>k \<in> set ps - {p}. map_count u k) = (\<Sum>k \<in> set ps. map_count u k) + ?n"
        using True by (simp add: sum.remove [of "set ps" p])
      finally show ?thesis using True by (simp add: insert_absorb)
    next
      case False
      then have "map_count u p = 0" using Cons.prems(3) p by (auto simp: map_count_def split: option.splits)
      moreover have "(\<Sum>k \<in> set ps. map_count ?u k) = (\<Sum>k \<in> set ps. map_count u k)" using False by (intro sum.cong) auto
      ultimately show ?thesis using False by simp
    qed
    have rest: "(\<Sum>y \<in> set cs. map_count ?c y) = (\<Sum>y \<in> set cs. map_count c y)"
      using Cons.prems(1) p by (intro sum.cong) auto
    have "(\<Sum>k \<in> set ps'. map_count u' k) \<le> (\<Sum>k \<in> set (ps @ [p]). map_count ?u k) + (\<Sum>y \<in> set cs. map_count ?c y) \<and>
      (\<forall>k \<in> set ps'. g_res G k = r) \<and> (\<forall>k. g_res G k \<noteq> r \<longrightarrow> u' k = ?u k) \<and> dom u' \<subseteq> dom ?u \<union> set ps' \<and> set (ps @ [p]) \<subseteq> set ps'"
      by (rule Cons.IH [OF _ _ _ _ run]) (use Cons.prems p in auto)
    moreover have "?u k = u k" if "g_res G k \<noteq> r" for k using that p by (intro bump_other) auto
    ultimately show ?thesis using step rest Cons.prems(2) by auto
  qed
qed auto

lemma limit_pos: "r \<in> set USED_RES \<Longrightarrow> 0 < limit r n"
  by (auto simp: USED_RES_def limit_def HIP104_RES_CONFIG_def new_config_def Let_def)

lemma clip_all_ok:
  assumes "r \<in> set USED_RES" "clip_ok u c"
  shows "clip_ok u (clip_all G r u ps c)"
  using assms(2)
proof (induction ps arbitrary: c)
  case (Cons p ps)
  have "clip_ok u (case u p of None \<Rightarrow> c | Some count \<Rightarrow>
      c(p \<mapsto> min (limit r (occupied_count G c p (get_res_tgt r))) count))"
  proof (cases "u p")
    case (Some n)
    then have "p \<in> dom c" using Cons.prems by (auto simp: clip_ok_def)
    then have "0 < map_count c p" "map_count c p \<le> map_count u p" using Cons.prems unfolding clip_ok_def by blast+
    then have "0 < n" using Some by (simp add: map_count_def)
    then show ?thesis using Some Cons.prems limit_pos [OF assms(1)] by (simp add: clip_ok_set)
  qed (use Cons.prems in simp)
  then show ?case using Cons.IH by simp
qed simp

lemma unique_set [simp]: "set (unique xs) = set xs"
  by (induction xs rule: unique.induct) auto

lemma unique_distinct [simp]: "distinct (unique xs)"
  by (induction xs rule: unique.induct) auto

text \<open>What one resolution after the other keeps: no more than \<open>N\<close> gateways are counted.\<close>

lemma reduce_hex_res_ok:
  assumes "grid_laws G" "set rs \<subseteq> set USED_RES" "sorted_wrt (>) rs" "clip_ok u c" "set hexes \<subseteq> dom c" "distinct hexes"
    "\<forall>k \<in> dom u. \<forall>r \<in> set rs. r < g_res G k" "(\<Sum>k \<in> set hexes. map_count c k) \<le> N" "\<forall>k. map_count u k \<le> N"
    "reduce_hex_res G rs (u, c) hexes = (u', c')"
  shows "clip_ok u' c' \<and> (\<forall>k. map_count u' k \<le> N)"
  using assms(2-)
proof (induction rs arbitrary: u c hexes)
  case (Cons r rs)
  obtain u1 c1 ps where roll: "rollup_all G r hexes (u, c) [] = ((u1, c1), ps)" by (metis surj_pair)
  have ok: "clip_ok u1 c1" "set ps \<subseteq> dom u1" using rollup_all_ok [OF Cons.prems(3,4) _ roll] by auto
  have hex: "\<forall>k \<in> set hexes. g_res G k \<noteq> r" using Cons.prems(3,4,6) by (fastforce simp: clip_ok_def)
  have "\<forall>k \<in> dom u. g_res G k = r \<longrightarrow> k \<in> set []" using Cons.prems(6) by fastforce
  note sum = rollup_all_sum [OF assms(1) hex Cons.prems(5) this _ roll]
  have level: "(\<Sum>k \<in> set ps. map_count u1 k) \<le> N" using sum Cons.prems(7) by simp
  define c2 where "c2 = clip_all G r u1 (unique ps) c1"
  have c2: "clip_ok u1 c2" using clip_all_ok ok(1) Cons.prems(1) by (simp add: c2_def)
  have "(\<Sum>k \<in> set (unique ps). map_count c2 k) \<le> (\<Sum>k \<in> set ps. map_count u1 k)"
    unfolding unique_set by (rule sum_mono) (rule clip_ok_le [OF c2])
  then have next_level: "(\<Sum>k \<in> set (unique ps). map_count c2 k) \<le> N" using level by simp
  have bound: "map_count u1 k \<le> N" for k
  proof (cases "k \<in> set ps")
    case True
    then have "map_count u1 k \<le> (\<Sum>k \<in> set ps. map_count u1 k)" by (simp add: member_le_sum)
    then show ?thesis using level by simp
  next
    case False
    show ?thesis
    proof (cases "u1 k")
      case (Some n)
      then have "k \<in> dom u" using sum False by auto
      then have "r < g_res G k" using Cons.prems(6) by simp
      then have "u1 k = u k" using sum by simp
      then show ?thesis using Cons.prems(8) by (simp add: map_count_def)
    qed (simp add: map_count_def)
  qed
  have res: "\<forall>k \<in> dom u1. \<forall>r' \<in> set rs. r' < g_res G k"
  proof (intro ballI)
    fix k r' assume k: "k \<in> dom u1" and r': "r' \<in> set rs"
    then have "k \<in> dom u \<or> g_res G k = r" using sum by auto
    then show "r' < g_res G k" using Cons.prems(2,6) r' by auto
  qed
  show ?case
    by (rule Cons.IH [of u1 c2 "unique ps"])
      (use Cons.prems(1,2,9) c2 ok(2) res next_level bound roll in \<open>auto simp: c2_def clip_ok_def Let_def\<close>)
qed simp

definition populated :: "grid \<Rightarrow> nat \<Rightarrow> global_hex_map \<Rightarrow> bool" where
  "populated G N gm \<longleftrightarrow> clipped_hexes gm = unclipped_hexes gm \<and> finite (dom (unclipped_hexes gm)) \<and>
     (\<forall>k \<in> dom (unclipped_hexes gm). 0 < map_count (unclipped_hexes gm) k \<and> g_res G k = MAX_RES) \<and>
     (\<Sum>k \<in> dom (unclipped_hexes gm). map_count (unclipped_hexes gm) k) \<le> N"

lemma sum_bump: "finite (dom m) \<Longrightarrow> (\<Sum>k \<in> dom (bump p n m). map_count (bump p n m) k) = (\<Sum>k \<in> dom m. map_count m k) + n"
proof -
  assume fin: "finite (dom m)"
  have "(\<Sum>k \<in> insert p (dom m). map_count (bump p n m) k) = map_count (bump p n m) p + (\<Sum>k \<in> dom m - {p}. map_count (bump p n m) k)"
    using fin by (simp only: sum.insert_remove)
  also have "(\<Sum>k \<in> dom m - {p}. map_count (bump p n m) k) = (\<Sum>k \<in> dom m - {p}. map_count m k)" by (rule sum.cong) auto
  also have "map_count (bump p n m) p + (\<Sum>k \<in> dom m - {p}. map_count m k) = (\<Sum>k \<in> insert p (dom m). map_count m k) + n"
    using fin by (simp add: sum.insert_remove)
  also have "(\<Sum>k \<in> insert p (dom m). map_count m k) = (\<Sum>k \<in> dom m. map_count m k)"
    using fin by (intro sum.mono_neutral_right) (auto simp: map_count_def split: option.splits)
  finally show ?thesis by simp
qed

lemma increment_populated:
  assumes "grid_laws G" "populated G N gm"
  shows "populated G (Suc N) (increment_unclipped G l gm)"
proof (cases "g_valid G l \<and> g_parent G l MAX_RES \<noteq> None")
  case True
  then obtain p where p: "g_parent G l MAX_RES = Some p" by blast
  then have "g_res G p = MAX_RES" using assms(1) unfolding grid_laws_def by blast
  then show ?thesis using assms(2) True p sum_bump [of "unclipped_hexes gm" p 1]
    by (auto simp: increment_unclipped_def populated_def)
qed (use assms(2) in \<open>auto simp: increment_unclipped_def populated_def split: option.splits\<close>)

lemma populate_populated:
  assumes "grid_laws G"
  shows "populated G (length active) (populate G location active)"
proof -
  have "populated G (N + length xs) (foldl (\<lambda>gm b. case location (lb_id b) of None \<Rightarrow> gm | Some l \<Rightarrow> increment_unclipped G l gm) gm xs)"
    if "populated G N gm" for N gm and xs :: "last_beacon list"
    using that
  proof (induction xs arbitrary: gm N)
    case (Cons b xs)
    have mono: "populated G (Suc N) gm" using Cons.prems by (simp add: populated_def)
    have "populated G (Suc N) (case location (lb_id b) of None \<Rightarrow> gm | Some l \<Rightarrow> increment_unclipped G l gm)"
      using mono increment_populated [OF assms Cons.prems] by (cases "location (lb_id b)") simp_all
    then show ?case using Cons.IH by fastforce
  qed simp
  moreover have "populated G 0 new_global_map" by (simp add: populated_def new_global_map_def)
  ultimately show ?thesis unfolding populate_def by fastforce
qed

definition key_order :: "(hex_map \<Rightarrow> cell list) \<Rightarrow> bool" where
  "key_order keys \<longleftrightarrow> (\<forall>m. finite (dom m) \<longrightarrow> set (keys m) = dom m \<and> distinct (keys m))"

lemma reduce_global_ok:
  assumes "grid_laws G" "key_order keys" "populated G N gm" "gm' = reduce_global G (keys (unclipped_hexes gm)) gm"
  shows "clip_ok (unclipped_hexes gm') (clipped_hexes gm') \<and> (\<forall>k. map_count (unclipped_hexes gm') k \<le> N) \<and>
    asserted_hexes gm' = asserted_hexes gm"
proof -
  let ?m = "unclipped_hexes gm"
  obtain u c where run: "reduce_hex_res G USED_RES (?m, clipped_hexes gm) (keys ?m) = (u, c)" by (metis surj_pair)
  have pop: "clipped_hexes gm = ?m" "finite (dom ?m)" "\<forall>k \<in> dom ?m. 0 < map_count ?m k \<and> g_res G k = MAX_RES"
    "(\<Sum>k \<in> dom ?m. map_count ?m k) \<le> N"
    using assms(3) by (auto simp: populated_def)
  have keys: "set (keys ?m) = dom ?m" "distinct (keys ?m)" using assms(2) pop(2) by (auto simp: key_order_def)
  have one: "map_count ?m k \<le> N" for k
  proof (cases "k \<in> dom ?m")
    case True
    then have "map_count ?m k \<le> (\<Sum>k \<in> dom ?m. map_count ?m k)" using pop(2) by (simp add: member_le_sum)
    then show ?thesis using pop(4) by simp
  qed (simp add: map_count_def domIff)
  have "clip_ok u c \<and> (\<forall>k. map_count u k \<le> N)"
    by (rule reduce_hex_res_ok [OF assms(1) _ _ _ _ _ _ _ _ run])
      (use pop keys one in \<open>auto simp: USED_RES_def MAX_RES_def clip_ok_def\<close>)
  then show ?thesis using assms(4) run by (simp add: reduce_global_def)
qed

lemma unit_in_range: "0 \<le> x \<Longrightarrow> x \<le> 1 \<Longrightarrow> in_range (x :: rat)"
  by simp

lemma hex_scale_unit:
  assumes "decimal_laws D" "clip_ok (unclipped_hexes gm) (clipped_hexes gm)"
  shows "0 \<le> hex_scale_of D G gm hex \<and> hex_scale_of D G gm hex \<le> 1"
proof -
  let ?step = "\<lambda>scale res. case g_parent G hex res of
        None \<Rightarrow> scale
      | Some p \<Rightarrow>
          (case (unclipped_hexes gm p, clipped_hexes gm p) of
             (Some unclipped, Some clipped) \<Rightarrow>
               d_mul D scale (d_div D (of_nat clipped / 10 ^ SCALING_PRECISION) (of_nat unclipped / 10 ^ SCALING_PRECISION))
           | _ \<Rightarrow> scale)"
  have step: "0 \<le> ?step x res \<and> ?step x res \<le> 1" if x: "0 \<le> x" "x \<le> 1" for x res
  proof (cases "\<exists>p a b. g_parent G hex res = Some p \<and> unclipped_hexes gm p = Some a \<and> clipped_hexes gm p = Some b")
    case True
    then obtain p a b where p: "g_parent G hex res = Some p" "unclipped_hexes gm p = Some a" "clipped_hexes gm p = Some b" by blast
    have "p \<in> dom (clipped_hexes gm)" using p(3) by blast
    then have "0 < map_count (clipped_hexes gm) p" "map_count (clipped_hexes gm) p \<le> map_count (unclipped_hexes gm) p"
      using assms(2) unfolding clip_ok_def by blast+
    then have "0 < b" "b \<le> a" using p by (simp_all add: map_count_def)
    let ?A = "of_nat a / 10 ^ SCALING_PRECISION :: rat" and ?B = "of_nat b / 10 ^ SCALING_PRECISION :: rat"
    have A: "?A \<noteq> 0" "0 \<le> ?B / ?A" "?B / ?A \<le> 1" using \<open>0 < b\<close> \<open>b \<le> a\<close> by (auto simp: field_simps)
    then have "rounds_to (?B / ?A) (d_div D ?B ?A)" using assms(1) unit_in_range [OF A(2,3)] unfolding decimal_laws_def by blast
    then have q: "0 \<le> d_div D ?B ?A" "d_div D ?B ?A \<le> 1" using rounds_to_between [of _ _ 0 1] A by auto
    then have m: "0 \<le> x * d_div D ?B ?A" "x * d_div D ?B ?A \<le> 1" using x by (auto simp: mult_le_one)
    then have "rounds_to (x * d_div D ?B ?A) (d_mul D x (d_div D ?B ?A))"
      using assms(1) unit_in_range [OF m] unfolding decimal_laws_def by blast
    then have "0 \<le> d_mul D x (d_div D ?B ?A) \<and> d_mul D x (d_div D ?B ?A) \<le> 1" using rounds_to_between [of _ _ 0 1] m by auto
    then show ?thesis using p by simp
  qed (use x in \<open>auto split: option.splits\<close>)
  have "0 \<le> foldl ?step x rs \<and> foldl ?step x rs \<le> 1" if "0 \<le> x" "x \<le> 1" for x rs
    using that by (induction rs arbitrary: x) (use step in auto)
  from this [of 1 SCALING_RES] show ?thesis unfolding hex_scale_of_def by simp
qed


definition sample_grid :: grid where
  "sample_grid = \<lparr>g_valid = (\<lambda>_. True), g_parent = (\<lambda>c r. if r < 16 then Some (of_nat r) else None),
     g_disk1 = (\<lambda>c. [c]), g_res = unat\<rparr>"

lemma sample_grid_laws: "grid_laws sample_grid"
  by (auto simp: grid_laws_def sample_grid_def unat_of_nat split: if_splits)

lemma sorted_key_order: "key_order (\<lambda>m. sorted_list_of_set (dom m))"
  by (simp add: key_order_def)

lemma reduce_global_asserted [simp]: "asserted_hexes (reduce_global G ks gm) = asserted_hexes gm"
  by (simp add: reduce_global_def split: prod.splits)


end
