(* ===== verification/Iot_Poc.thy ===== *)
theory Iot_Poc
  imports Iot_Density
begin

text \<open>
  Verification of proofs of coverage (\<^verbatim>\<open>src/iot_verifier/src/poc.rs\<close>), with the deny list
  (\<^verbatim>\<open>src/denylist/src/denylist.rs\<close>) and the caches of gateways and regions. A gateway key
  is its bytes. The geometry of \<open>h3o\<close>, the construction of beacons by the crate
  \<open>beacon\<close>, truncation of instants and \<open>f64::log10\<close> are fields of an environment;
  other arithmetic on \<open>f64\<close> is exact. A check that fails is \<open>Rejected\<close> with its
  reason; \<open>PocPanic\<close> is the panic on an interval that cannot be used.

  The lemmas show that every witness report is accounted for, that no gateway counts twice and
  what holds of a valid witness, and that the frequency check lets some distant frequencies
  through.
\<close>

section \<open>Reports and gateways\<close>

type_synonym iot_key = bytes
type_synonym region = nat

record beacon_report =
  br_pub_key :: iot_key
  br_local_entropy :: bytes
  br_remote_entropy :: bytes
  br_data :: bytes
  br_frequency :: u64
  br_channel :: i32
  br_datarate :: nat
  br_tx_power :: i32
  br_timestamp :: timestamp
  br_signature :: bytes
  br_tmst :: u32

record beacon_ingest =
  bi_received :: timestamp
  bi_report :: beacon_report

record witness_report =
  wr_pub_key :: iot_key
  wr_data :: bytes
  wr_timestamp :: timestamp
  wr_tmst :: u32
  wr_signal :: i32
  wr_snr :: i32
  wr_frequency :: u64
  wr_datarate :: nat
  wr_signature :: bytes

record witness_ingest =
  wi_received :: timestamp
  wi_report :: witness_report

record gateway_metadata =
  gm_location :: u64
  gm_elevation :: i32
  gm_gain :: i32
  gm_region :: region

record gateway_info =
  gi_address :: iot_key
  gi_metadata :: "gateway_metadata option"
  gi_full_hotspot :: bool

datatype invalid_reason =
  ReasonNone | ReasonGatewayNotFound | NotAsserted | Denied | DeniedEdge | EntropyExpired
| InvalidCapability | IrregularInterval | InvalidPacket | SelfWitness | TooLate | InvalidFrequency
| InvalidRegion | BelowMinDistance | MaxDistanceExceeded | BadRssi | Duplicate | Stale

datatype participant_side = SideNone | WitnessSide | BeaconerSide

datatype verification_status = StatusValid | StatusInvalid

text \<open>The details of a rejection are the tag of the deny list.\<close>

datatype poc_stop = PocPanic | Rejected invalid_reason "u64 option"

type_synonym verify_result = "poc_stop + unit"

section \<open>The deny list\<close>

record deny_filter =
  df_contains :: "iot_key \<Rightarrow> bool"
  df_contains_edge :: "iot_key \<Rightarrow> iot_key \<Rightarrow> bool"

record deny_list =
  dl_tag :: u64
  dl_filter :: "deny_filter option"

definition contains_key :: "deny_list \<Rightarrow> iot_key \<Rightarrow> bool" where
  "contains_key dl key = (case dl_filter dl of Some f \<Rightarrow> df_contains f key | None \<Rightarrow> True)"

definition contains_edge :: "deny_list \<Rightarrow> iot_key \<Rightarrow> iot_key \<Rightarrow> bool" where
  "contains_edge dl b w = (case dl_filter dl of Some f \<Rightarrow> df_contains_edge f b w | None \<Rightarrow> True)"

text \<open>The download of the newest list: the tag and the bytes of the first asset named
  \<open>filter.bin\<close>; \<open>from_bin\<close> parses a filter whose signature one of the keys verifies.\<close>

definition filter_from_bin ::
  "(bytes \<Rightarrow> deny_filter option) \<Rightarrow> (deny_filter \<Rightarrow> 'k \<Rightarrow> bool) \<Rightarrow> bytes \<Rightarrow> 'k list \<Rightarrow> deny_filter option" where
  "filter_from_bin from_bytes verifies bin sign_keys =
     (case from_bytes bin of
        None \<Rightarrow> None
      | Some f \<Rightarrow> if list_ex (verifies f) sign_keys then Some f else None)"

definition update_to_latest ::
  "(bytes \<Rightarrow> deny_filter option) \<Rightarrow> (deny_filter \<Rightarrow> 'k \<Rightarrow> bool) \<Rightarrow> 'k list \<Rightarrow>
   'e + u64 \<Rightarrow> (string \<times> ('e + bytes)) list \<Rightarrow> deny_list \<Rightarrow> deny_list \<times> ('e + unit)" where
  "update_to_latest from_bytes verifies sign_keys new_tag assets dl =
     (case new_tag of
        Inl e \<Rightarrow> (dl, Inl e)
      | Inr tag \<Rightarrow>
          if tag > dl_tag dl then
            (case filter (\<lambda>a. fst a = ''filter.bin'') assets of
               [] \<Rightarrow> (dl, Inr ())
             | a # _ \<Rightarrow>
                 (case snd a of
                    Inl e \<Rightarrow> (dl, Inl e)
                  | Inr bin \<Rightarrow>
                      (case filter_from_bin from_bytes verifies bin sign_keys of
                         None \<Rightarrow> (dl, Inr ())
                       | Some f \<Rightarrow> (dl\<lparr>dl_filter := Some f, dl_tag := tag\<rparr>, Inr ()))))
          else (dl, Inr ()))"

section \<open>The environment\<close>

record ('b, 'p) poc_env =
  pe_valid_cell :: "u64 \<Rightarrow> bool"
  pe_distance_m :: "u64 \<Rightarrow> u64 \<Rightarrow> rat"
  pe_parent :: "u64 \<Rightarrow> nat \<Rightarrow> u64 option"
  pe_grid_distance :: "u64 \<Rightarrow> u64 \<Rightarrow> i32 option"
  pe_log10 :: "rat \<Rightarrow> rat"
  pe_trunc :: "duration \<Rightarrow> timestamp \<Rightarrow> timestamp option"
  pe_new_beacon :: "region \<Rightarrow> 'p \<Rightarrow> rat \<Rightarrow> int \<Rightarrow> u32 \<Rightarrow> bytes \<Rightarrow> bytes \<Rightarrow> 'b option"
  pe_to_beacon :: "beacon_report \<Rightarrow> int \<Rightarrow> u32 \<Rightarrow> 'b"
  pe_beacon_verify :: "'b \<Rightarrow> 'b \<Rightarrow> bool"

definition POC_DISTANCE_LIMIT :: u32 where "POC_DISTANCE_LIMIT = 100"
definition POC_CELL_DISTANCE_MINIMUM :: u32 where "POC_CELL_DISTANCE_MINIMUM = 8"
definition POC_CELL_PARENT_RES :: nat where "POC_CELL_PARENT_RES = 11"
definition DEFAULT_TX_SCALE :: rat where "DEFAULT_TX_SCALE = 2000 / 10 ^ 4"
definition MAX_WITNESS_LAG :: duration where "MAX_WITNESS_LAG = milliseconds 1500"
definition MAX_BEACON_TO_WITNESS_LAG :: duration where "MAX_BEACON_TO_WITNESS_LAG = milliseconds 4000"
definition ENTROPY_LIFESPAN :: int where "ENTROPY_LIFESPAN = 180"

text \<open>The speed of light, and the double nearest to \<open>\<pi>\<close>.\<close>

definition LIGHT :: rat where "LIGHT = 299800000"
definition PI_F64 :: rat where "PI_F64 = 884279719003555 / 281474976710656"

section \<open>Checks\<close>

definition verify_denylist :: "iot_key \<Rightarrow> deny_list \<Rightarrow> verify_result" where
  "verify_denylist key dl = (if contains_key dl key then Inl (Rejected Denied (Some (dl_tag dl))) else Inr ())"

definition verify_edge_denylist :: "iot_key \<Rightarrow> iot_key \<Rightarrow> deny_list \<Rightarrow> verify_result" where
  "verify_edge_denylist b w dl = (if contains_edge dl b w then Inl (Rejected DeniedEdge (Some (dl_tag dl))) else Inr ())"

text \<open>\<open>timestamp()\<close> is the number of whole seconds.\<close>

definition secs :: "timestamp \<Rightarrow> int" where
  "secs t = t div nanos_per_sec"

definition verify_entropy :: "timestamp \<Rightarrow> timestamp \<Rightarrow> timestamp \<Rightarrow> verify_result" where
  "verify_entropy e_start e_end received =
     (if secs received < secs e_start \<or> secs received > secs e_end then Inl (Rejected EntropyExpired None) else Inr ())"

definition verify_gw_capability :: "bool \<Rightarrow> verify_result" where
  "verify_gw_capability full = (if \<not> full then Inl (Rejected InvalidCapability None) else Inr ())"

definition verify_beacon_schedule ::
  "('b, 'p, 'z) poc_env_scheme \<Rightarrow> last_beacon option \<Rightarrow> timestamp \<Rightarrow> duration \<Rightarrow> verify_result" where
  "verify_beacon_schedule env lastb received interval =
     (case lastb of
        None \<Rightarrow> Inr ()
      | Some b \<Rightarrow>
          (case pe_trunc env interval (lb_timestamp b) of
             None \<Rightarrow> Inl PocPanic
           | Some last_bucket \<Rightarrow>
               (case pe_trunc env interval received of
                  None \<Rightarrow> Inl PocPanic
                | Some cur_bucket \<Rightarrow>
                    if cur_bucket \<le> last_bucket then Inl (Rejected IrregularInterval None) else Inr ())))"

definition verify_beacon_payload ::
  "('b, 'p, 'z) poc_env_scheme \<Rightarrow> beacon_report \<Rightarrow> region \<Rightarrow> 'p \<Rightarrow> i32 \<Rightarrow> timestamp \<Rightarrow> u32 \<Rightarrow> verify_result" where
  "verify_beacon_payload env r reg params gain e_start version =
     (case pe_new_beacon env reg params (of_int (sint gain) / 10) (secs e_start) version
             (br_local_entropy r) (br_remote_entropy r) of
        None \<Rightarrow> Inl (Rejected InvalidPacket None)
      | Some generated \<Rightarrow>
          if \<not> pe_beacon_verify env generated (pe_to_beacon env r (secs e_start) version)
          then Inl (Rejected InvalidPacket None) else Inr ())"

definition verify_witness_lag :: "timestamp \<Rightarrow> timestamp \<Rightarrow> timestamp \<Rightarrow> verify_result" where
  "verify_witness_lag beacon_received first_witness received =
     (let (first_event, permitted) =
            (if beacon_received \<le> first_witness then (beacon_received, MAX_BEACON_TO_WITNESS_LAG)
             else (first_witness, MAX_WITNESS_LAG))
      in if received - first_event > permitted then Inl (Rejected TooLate None) else Inr ())"

definition verify_self_witness :: "iot_key \<Rightarrow> iot_key \<Rightarrow> verify_result" where
  "verify_self_witness b w = (if w = b then Inl (Rejected SelfWitness None) else Inr ())"

text \<open>The cast to \<open>i32\<close> keeps the lower 32 bits.\<close>

definition verify_witness_freq :: "u64 \<Rightarrow> u64 \<Rightarrow> verify_result" where
  "verify_witness_freq bfreq wfreq =
     (if sint (ucast (abs_diff bfreq wfreq) :: i32) > 1000 * 100 then Inl (Rejected InvalidFrequency None) else Inr ())"

definition verify_witness_region :: "region \<Rightarrow> region \<Rightarrow> verify_result" where
  "verify_witness_region b w = (if b \<noteq> w then Inl (Rejected InvalidRegion None) else Inr ())"

definition round_u32 :: "rat \<Rightarrow> u32" where
  "round_u32 x = word_of_int (max 0 (min (2 ^ 32 - 1) (if x \<ge> 0 then \<lfloor>x + 1 / 2\<rfloor> else \<lceil>x - 1 / 2\<rceil>)))"

definition calc_distance :: "('b, 'p, 'z) poc_env_scheme \<Rightarrow> u64 \<Rightarrow> u64 \<Rightarrow> u32 option" where
  "calc_distance env p1 p2 =
     (if pe_valid_cell env p1 \<and> pe_valid_cell env p2 then Some (round_u32 (pe_distance_m env p1 p2)) else None)"

definition calc_cell_distance :: "('b, 'p, 'z) poc_env_scheme \<Rightarrow> u64 \<Rightarrow> u64 \<Rightarrow> u32 option" where
  "calc_cell_distance env p1 p2 =
     (if pe_valid_cell env p1 \<and> pe_valid_cell env p2 then
        (case (pe_parent env p1 POC_CELL_PARENT_RES, pe_parent env p2 POC_CELL_PARENT_RES) of
           (Some a, Some b) \<Rightarrow> pe_grid_distance env a b
         | _ \<Rightarrow> None)
      else None)"

definition verify_witness_distance :: "('b, 'p, 'z) poc_env_scheme \<Rightarrow> u64 \<Rightarrow> u64 \<Rightarrow> verify_result" where
  "verify_witness_distance env b w =
     (case calc_distance env b w of
        None \<Rightarrow> Inl (Rejected MaxDistanceExceeded None)
      | Some d \<Rightarrow> if d div 1000 > POC_DISTANCE_LIMIT then Inl (Rejected MaxDistanceExceeded None) else Inr ())"

definition verify_witness_cell_distance :: "('b, 'p, 'z) poc_env_scheme \<Rightarrow> u64 \<Rightarrow> u64 \<Rightarrow> verify_result" where
  "verify_witness_cell_distance env b w =
     (case calc_cell_distance env b w of
        None \<Rightarrow> Inl (Rejected BelowMinDistance None)
      | Some d \<Rightarrow> if d < POC_CELL_DISTANCE_MINIMUM then Inl (Rejected BelowMinDistance None) else Inr ())"

text \<open>The free space path loss; \<open>None\<close> is the infinite negative loss at distance zero.\<close>

definition calc_fpsl :: "('b, 'p, 'z) poc_env_scheme \<Rightarrow> u64 \<Rightarrow> u32 \<Rightarrow> rat option" where
  "calc_fpsl env freq d =
     (let x = 4 * PI_F64 * of_nat (unat d) * of_nat (unat freq) / LIGHT
      in if x = 0 then None else Some (20 * pe_log10 env x))"

text \<open>Division of an \<open>i32\<close> by ten truncates towards zero.\<close>

definition gain_db :: "i32 \<Rightarrow> int" where
  "gain_db g = (if sint g \<ge> 0 then sint g div 10 else - (- sint g div 10))"

definition calc_expected_rssi :: "('b, 'p, 'z) poc_env_scheme \<Rightarrow> i32 \<Rightarrow> u64 \<Rightarrow> u32 \<Rightarrow> i32 \<Rightarrow> i32 \<Rightarrow> rat option" where
  "calc_expected_rssi env tx_power freq d beacon_gain witness_gain =
     map_option (\<lambda>loss. of_int (sint tx_power) + of_int (gain_db beacon_gain) - loss + of_int (gain_db witness_gain))
       (calc_fpsl env freq d)"

definition verify_witness_rssi ::
  "('b, 'p, 'z) poc_env_scheme \<Rightarrow> i32 \<Rightarrow> u64 \<Rightarrow> i32 \<Rightarrow> i32 \<Rightarrow> i32 \<Rightarrow> u64 \<Rightarrow> u64 \<Rightarrow> verify_result" where
  "verify_witness_rssi env signal freq tx_power beacon_gain witness_gain b w =
     (case calc_distance env b w of
        None \<Rightarrow> Inl (Rejected BadRssi None)
      | Some d \<Rightarrow>
          (case calc_expected_rssi env tx_power freq d beacon_gain witness_gain of
             None \<Rightarrow> Inr ()
           | Some min_rcv \<Rightarrow>
               if of_int (sint signal) / 10 > min_rcv then Inl (Rejected BadRssi None) else Inr ()))"

definition verify_witness_data :: "bytes \<Rightarrow> bytes \<Rightarrow> verify_result" where
  "verify_witness_data b w = (if w \<noteq> b then Inl (Rejected InvalidPacket None) else Inr ())"

text \<open>The operator \<open>?\<close>.\<close>

abbreviation and_then :: "verify_result \<Rightarrow> verify_result \<Rightarrow> verify_result" where
  "and_then a b \<equiv> res_bind a (\<lambda>_. b)"

definition do_beacon_verifications ::
  "('b, 'p, 'z) poc_env_scheme \<Rightarrow> deny_list \<Rightarrow> timestamp \<Rightarrow> timestamp \<Rightarrow> i32 \<Rightarrow> last_beacon option \<Rightarrow>
   beacon_ingest \<Rightarrow> gateway_info \<Rightarrow> 'p \<Rightarrow> duration \<Rightarrow> verify_result" where
  "do_beacon_verifications env dl e_start e_end version lastb b info params interval =
     (case gi_metadata info of
        None \<Rightarrow> Inl (Rejected NotAsserted None)
      | Some md \<Rightarrow>
          and_then (verify_denylist (br_pub_key (bi_report b)) dl)
          (and_then (verify_entropy e_start e_end (bi_received b))
          (and_then (verify_gw_capability (gi_full_hotspot info))
          (and_then (verify_beacon_schedule env lastb (bi_received b) interval)
          (verify_beacon_payload env (bi_report b) (gm_region md) params (gm_gain md) e_start version)))))"

definition do_witness_verifications ::
  "('b, 'p, 'z) poc_env_scheme \<Rightarrow> deny_list \<Rightarrow> timestamp \<Rightarrow> timestamp \<Rightarrow> witness_ingest \<Rightarrow> gateway_info \<Rightarrow>
   beacon_ingest \<Rightarrow> gateway_metadata \<Rightarrow> timestamp \<Rightarrow> verify_result" where
  "do_witness_verifications env dl e_start e_end w info b bmd first_ts =
     (let wr = wi_report w; br = bi_report b in
      case gi_metadata info of
        None \<Rightarrow> Inl (Rejected NotAsserted None)
      | Some md \<Rightarrow>
          and_then (verify_denylist (wr_pub_key wr) dl)
          (and_then (verify_edge_denylist (br_pub_key br) (wr_pub_key wr) dl)
          (and_then (verify_self_witness (br_pub_key br) (wr_pub_key wr))
          (and_then (verify_entropy e_start e_end (wi_received w))
          (and_then (verify_witness_lag (bi_received b) first_ts (wi_received w))
          (and_then (verify_witness_data (br_data br) (wr_data wr))
          (and_then (verify_gw_capability (gi_full_hotspot info))
          (and_then (verify_witness_freq (br_frequency br) (wr_frequency wr))
          (and_then (verify_witness_region (gm_region bmd) (gm_region md))
          (and_then (verify_witness_cell_distance env (gm_location bmd) (gm_location md))
          (and_then (verify_witness_distance env (gm_location bmd) (gm_location md))
          (verify_witness_rssi env (wr_signal wr) (wr_frequency wr) (br_tx_power br) (gm_gain bmd) (gm_gain md)
             (gm_location bmd) (gm_location md)))))))))))))"

section \<open>A proof of coverage\<close>

record poc =
  p_beacon :: beacon_ingest
  p_witnesses :: "witness_ingest list"
  p_entropy_start :: timestamp
  p_entropy_end :: timestamp
  p_entropy_version :: i32

definition new_poc :: "beacon_ingest \<Rightarrow> witness_ingest list \<Rightarrow> timestamp \<Rightarrow> i32 \<Rightarrow> poc" where
  "new_poc b ws e_start version =
     \<lparr>p_beacon = b, p_witnesses = ws, p_entropy_start = e_start, p_entropy_end = e_start + seconds ENTROPY_LIFESPAN,
      p_entropy_version = version\<rparr>"

record verify_beacon_result =
  vb_result :: verification_status
  vb_reason :: invalid_reason
  vb_details :: "u64 option"
  vb_info :: "gateway_info option"
  vb_hex_scale :: "rat option"

definition beacon_valid :: "gateway_info \<Rightarrow> rat \<Rightarrow> verify_beacon_result" where
  "beacon_valid info scale = \<lparr>vb_result = StatusValid, vb_reason = ReasonNone, vb_details = None, vb_info = Some info,
     vb_hex_scale = Some scale\<rparr>"

definition beacon_invalid :: "invalid_reason \<Rightarrow> u64 option \<Rightarrow> gateway_info \<Rightarrow> verify_beacon_result" where
  "beacon_invalid reason details info = \<lparr>vb_result = StatusInvalid, vb_reason = reason, vb_details = details,
     vb_info = Some info, vb_hex_scale = None\<rparr>"

definition beacon_gateway_not_found :: verify_beacon_result where
  "beacon_gateway_not_found = \<lparr>vb_result = StatusInvalid, vb_reason = ReasonGatewayNotFound, vb_details = None,
     vb_info = None, vb_hex_scale = None\<rparr>"

record verified_witness =
  vw_received :: timestamp
  vw_status :: verification_status
  vw_report :: witness_report
  vw_location :: "u64 option"
  vw_gain :: i32
  vw_elevation :: i32
  vw_hex_scale :: rat
  vw_reward_unit :: rat
  vw_reason :: invalid_reason
  vw_side :: participant_side
  vw_details :: "u64 option"

definition witness_valid :: "witness_report \<Rightarrow> timestamp \<Rightarrow> u64 option \<Rightarrow> i32 \<Rightarrow> i32 \<Rightarrow> rat \<Rightarrow> verified_witness" where
  "witness_valid r received location gain elevation scale =
     \<lparr>vw_received = received, vw_status = StatusValid, vw_report = r, vw_location = location, vw_gain = gain,
      vw_elevation = elevation, vw_hex_scale = scale, vw_reward_unit = 0, vw_reason = ReasonNone,
      vw_side = SideNone, vw_details = None\<rparr>"

definition witness_invalid ::
  "invalid_reason \<Rightarrow> u64 option \<Rightarrow> witness_report \<Rightarrow> timestamp \<Rightarrow> u64 option \<Rightarrow> i32 \<Rightarrow> i32 \<Rightarrow> participant_side \<Rightarrow>
   verified_witness" where
  "witness_invalid reason details r received location gain elevation side =
     \<lparr>vw_received = received, vw_status = StatusInvalid, vw_report = r, vw_location = location, vw_gain = gain,
      vw_elevation = elevation, vw_hex_scale = 0, vw_reward_unit = 0, vw_reason = reason,
      vw_side = side, vw_details = details\<rparr>"

text \<open>The gateway cache is the map last received; the region cache asks the service for a region
  it does not hold, and \<open>last_beacon\<close> reads the table. \<open>Inl\<close> of the results below is an error of a service; a panic is
  \<open>None\<close>.\<close>

definition resolve_region_info ::
  "(region \<rightharpoonup> 'p) \<Rightarrow> (region \<Rightarrow> 'e + 'p) \<Rightarrow> region \<Rightarrow> (region \<rightharpoonup> 'p) \<times> ('e + 'p)" where
  "resolve_region_info cache service reg =
     (case cache reg of
        Some p \<Rightarrow> (cache, Inr p)
      | None \<Rightarrow>
          (case service reg of
             Inr p \<Rightarrow> (cache(reg \<mapsto> p), Inr p)
           | Inl e \<Rightarrow> (cache, Inl e)))"

definition read_last_beacon :: "last_beacon list \<Rightarrow> iot_key \<Rightarrow> 'e + last_beacon option" where
  "read_last_beacon table key = Inr (last_beacon_get table key)"

definition verify_beacon ::
  "('b, 'p, 'z) poc_env_scheme \<Rightarrow> (u64 \<rightharpoonup> rat) \<Rightarrow> (iot_key \<rightharpoonup> gateway_info) \<Rightarrow> (region \<rightharpoonup> 'p) \<Rightarrow> (region \<Rightarrow> 'e + 'p) \<Rightarrow>
   (iot_key \<Rightarrow> 'e + last_beacon option) \<Rightarrow> duration \<Rightarrow> deny_list \<Rightarrow> poc \<Rightarrow> ((region \<rightharpoonup> 'p) \<times> ('e + verify_beacon_result)) option" where
  "verify_beacon env density gateways cache service last_beacon interval dl p =
     (let key = br_pub_key (bi_report (p_beacon p)) in
      case gateways key of
        None \<Rightarrow> Some (cache, Inr beacon_gateway_not_found)
      | Some info \<Rightarrow>
          (case gi_metadata info of
             None \<Rightarrow> Some (cache, Inr (beacon_invalid NotAsserted None info))
           | Some md \<Rightarrow>
               (case resolve_region_info cache service (gm_region md) of
                  (cache, Inl e) \<Rightarrow> Some (cache, Inl e)
                | (cache, Inr params) \<Rightarrow>
                    (case last_beacon key of
                       Inl e \<Rightarrow> Some (cache, Inl e)
                     | Inr lb \<Rightarrow>
                         (case do_beacon_verifications env dl (p_entropy_start p) (p_entropy_end p) (p_entropy_version p)
                                 lb (p_beacon p) info params interval of
                            Inr () \<Rightarrow>
                              Some (cache, Inr (beacon_valid info
                                (case density (gm_location md) of Some s \<Rightarrow> s | None \<Rightarrow> DEFAULT_TX_SCALE)))
                          | Inl (Rejected reason details) \<Rightarrow> Some (cache, Inr (beacon_invalid reason details info))
                          | Inl PocPanic \<Rightarrow> None)))))"

text \<open>The only error of the gateway cache is that a gateway is not found, so that a witness is
  always verified; the checks of a witness do not panic.\<close>

definition verify_witness ::
  "('b, 'p, 'z) poc_env_scheme \<Rightarrow> (u64 \<rightharpoonup> rat) \<Rightarrow> (iot_key \<rightharpoonup> gateway_info) \<Rightarrow> deny_list \<Rightarrow> poc \<Rightarrow> gateway_info \<Rightarrow>
   timestamp \<Rightarrow> witness_ingest \<Rightarrow> verified_witness" where
  "verify_witness env density gateways dl p beacon_info first_ts w =
     (case gateways (wr_pub_key (wi_report w)) of
        None \<Rightarrow> witness_invalid ReasonGatewayNotFound None (wi_report w) (wi_received w) None 0 0 WitnessSide
      | Some info \<Rightarrow>
          (case gi_metadata info of
             None \<Rightarrow> witness_invalid NotAsserted None (wi_report w) (wi_received w) None 0 0 WitnessSide
           | Some md \<Rightarrow>
               (case gi_metadata beacon_info of
                  None \<Rightarrow> witness_invalid NotAsserted None (wi_report w) (wi_received w) None 0 0 BeaconerSide
                | Some bmd \<Rightarrow>
                    (case do_witness_verifications env dl (p_entropy_start p) (p_entropy_end p) w info (p_beacon p) bmd first_ts of
                       Inr () \<Rightarrow>
                         witness_valid (wi_report w) (wi_received w) (Some (gm_location md)) (gm_gain md) (gm_elevation md)
                           (case density (gm_location bmd) of Some s \<Rightarrow> s | None \<Rightarrow> DEFAULT_TX_SCALE)
                     | Inl (Rejected reason details) \<Rightarrow>
                         witness_invalid reason details (wi_report w) (wi_received w) (Some (gm_location md))
                           (gm_gain md) (gm_elevation md) WitnessSide
                     | Inl PocPanic \<Rightarrow>
                         witness_invalid ReasonNone None (wi_report w) (wi_received w) None 0 0 WitnessSide))))"

fun verify_witness_loop ::
  "(witness_ingest \<Rightarrow> verified_witness) \<Rightarrow> witness_ingest list \<Rightarrow> iot_key list \<Rightarrow> verified_witness list" where
  "verify_witness_loop verify [] existing = []"
| "verify_witness_loop verify (w # ws) existing =
     (if wr_pub_key (wi_report w) \<notin> set existing then
        let v = verify w in v # verify_witness_loop verify ws (existing @ [wr_pub_key (vw_report v)])
      else
        witness_invalid Duplicate None (wi_report w) (wi_received w) None 0 0 WitnessSide
          # verify_witness_loop verify ws existing)"

definition verify_witnesses ::
  "('b, 'p, 'z) poc_env_scheme \<Rightarrow> (u64 \<rightharpoonup> rat) \<Rightarrow> (iot_key \<rightharpoonup> gateway_info) \<Rightarrow> deny_list \<Rightarrow> poc \<Rightarrow> gateway_info \<Rightarrow>
   verified_witness list" where
  "verify_witnesses env density gateways dl p beacon_info =
     (case p_witnesses p of
        [] \<Rightarrow> []
      | w # _ \<Rightarrow>
          verify_witness_loop (verify_witness env density gateways dl p beacon_info (wi_received w)) (p_witnesses p) [])"

section \<open>Accepted witnesses\<close>

lemmas check_defs = verify_denylist_def verify_edge_denylist_def verify_self_witness_def verify_entropy_def
  verify_witness_lag_def verify_witness_data_def verify_gw_capability_def verify_witness_freq_def
  verify_witness_region_def verify_witness_cell_distance_def verify_witness_distance_def verify_witness_rssi_def

lemma witness_simps [simp]:
  "vw_report (witness_valid r t l g e s) = r" "vw_received (witness_valid r t l g e s) = t"
  "vw_status (witness_valid r t l g e s) = StatusValid" "vw_reward_unit (witness_valid r t l g e s) = 0"
  "vw_hex_scale (witness_valid r t l g e s) = s" "vw_reason (witness_valid r t l g e s) = ReasonNone"
  "vw_report (witness_invalid rs d r t l g e sd) = r" "vw_received (witness_invalid rs d r t l g e sd) = t"
  "vw_status (witness_invalid rs d r t l g e sd) = StatusInvalid" "vw_reason (witness_invalid rs d r t l g e sd) = rs"
  by (simp_all add: witness_valid_def witness_invalid_def)

lemma verify_witness_report [simp]:
  "vw_report (verify_witness env density gateways dl p info ts w) = wi_report w"
  "vw_received (verify_witness env density gateways dl p info ts w) = wi_received w"
  by (simp_all add: verify_witness_def split: option.splits sum.splits poc_stop.splits unit.splits)

lemma no_panic: "do_witness_verifications env dl es ee w info b bmd ts \<noteq> Inl PocPanic"
  by (auto simp: do_witness_verifications_def Let_def check_defs result_simps split: option.splits if_splits prod.splits)

text \<open>What the network asks of a witness report, as a predicate.\<close>

definition witness_in_time :: "poc \<Rightarrow> timestamp \<Rightarrow> witness_ingest \<Rightarrow> bool" where
  "witness_in_time p first_ts w \<longleftrightarrow>
     secs (p_entropy_start p) \<le> secs (wi_received w) \<and> secs (wi_received w) \<le> secs (p_entropy_end p) \<and>
     (if bi_received (p_beacon p) \<le> first_ts then wi_received w \<le> bi_received (p_beacon p) + milliseconds 4000
      else wi_received w \<le> first_ts + milliseconds 1500)"

definition good_witness ::
  "('b, 'p, 'z) poc_env_scheme \<Rightarrow> (iot_key \<rightharpoonup> gateway_info) \<Rightarrow> deny_list \<Rightarrow> poc \<Rightarrow> gateway_info \<Rightarrow> timestamp \<Rightarrow>
   witness_ingest \<Rightarrow> bool" where
  "good_witness env gateways dl p beacon_info first_ts w \<longleftrightarrow>
     (\<exists>info md bmd d c. gateways (wr_pub_key (wi_report w)) = Some info \<and> gi_metadata info = Some md \<and>
        gi_metadata beacon_info = Some bmd \<and> gi_full_hotspot info \<and> gm_region md = gm_region bmd \<and>
        calc_distance env (gm_location bmd) (gm_location md) = Some d \<and> unat d div 1000 \<le> 100 \<and>
        calc_cell_distance env (gm_location bmd) (gm_location md) = Some c \<and> 8 \<le> unat c) \<and>
     wr_pub_key (wi_report w) \<noteq> br_pub_key (bi_report (p_beacon p)) \<and>
     wr_data (wi_report w) = br_data (bi_report (p_beacon p)) \<and>
     \<not> contains_key dl (wr_pub_key (wi_report w)) \<and>
     \<not> contains_edge dl (br_pub_key (bi_report (p_beacon p))) (wr_pub_key (wi_report w)) \<and>
     witness_in_time p first_ts w"

lemma checks_passed:
  assumes "do_witness_verifications env dl (p_entropy_start p) (p_entropy_end p) w info (p_beacon p) bmd ts = Inr ()"
  shows "\<exists>md d c. gi_metadata info = Some md \<and> gi_full_hotspot info \<and> gm_region md = gm_region bmd \<and>
     calc_distance env (gm_location bmd) (gm_location md) = Some d \<and> unat d div 1000 \<le> 100 \<and>
     calc_cell_distance env (gm_location bmd) (gm_location md) = Some c \<and> 8 \<le> unat c \<and>
     wr_pub_key (wi_report w) \<noteq> br_pub_key (bi_report (p_beacon p)) \<and>
     wr_data (wi_report w) = br_data (bi_report (p_beacon p)) \<and>
     \<not> contains_key dl (wr_pub_key (wi_report w)) \<and>
     \<not> contains_edge dl (br_pub_key (bi_report (p_beacon p))) (wr_pub_key (wi_report w)) \<and>
     witness_in_time p ts w"
  using assms
  by (auto simp: do_witness_verifications_def Let_def check_defs result_simps witness_in_time_def
      MAX_BEACON_TO_WITNESS_LAG_def MAX_WITNESS_LAG_def POC_DISTANCE_LIMIT_def POC_CELL_DISTANCE_MINIMUM_def
      word_le_nat_alt word_less_nat_alt unat_div not_less
      split: option.splits if_splits prod.splits)

lemma verify_witness_valid:
  assumes "vw_status (verify_witness env density gateways dl p beacon_info ts w) = StatusValid"
  shows "good_witness env gateways dl p beacon_info ts w"
proof -
  obtain info md bmd where g: "gateways (wr_pub_key (wi_report w)) = Some info" "gi_metadata info = Some md"
    "gi_metadata beacon_info = Some bmd"
    "do_witness_verifications env dl (p_entropy_start p) (p_entropy_end p) w info (p_beacon p) bmd ts = Inr ()"
    using assms by (auto simp: verify_witness_def split: option.splits sum.splits poc_stop.splits unit.splits)
  from checks_passed [OF g(4)] show ?thesis using g(1,2,3) unfolding good_witness_def by blast
qed

lemma verify_loop_accounts:
  assumes "\<And>w. vw_report (verify w) = wi_report w" "\<And>w. vw_received (verify w) = wi_received w"
  shows "map (\<lambda>v. (vw_received v, vw_report v)) (verify_witness_loop verify ws existing) =
     map (\<lambda>w. (wi_received w, wi_report w)) ws"
  by (induction ws arbitrary: existing) (simp_all add: Let_def assms)

lemma verify_loop_valid:
  assumes "\<And>w. vw_report (verify w) = wi_report w" "v \<in> set (verify_witness_loop verify ws existing)" "vw_status v = StatusValid"
  shows "wr_pub_key (vw_report v) \<notin> set existing \<and> (\<exists>w \<in> set ws. v = verify w)"
  using assms(2)
proof (induction ws arbitrary: existing)
  case (Cons w ws)
  show ?case
  proof (cases "wr_pub_key (wi_report w) \<in> set existing")
    case True
    then have "v \<in> set (verify_witness_loop verify ws existing)" using Cons.prems assms(3) by auto
    then show ?thesis using Cons.IH by auto
  next
    case False
    then have "v = verify w \<or> v \<in> set (verify_witness_loop verify ws (existing @ [wr_pub_key (wi_report w)]))"
      using Cons.prems by (simp add: Let_def assms(1))
    then show ?thesis using Cons.IH [of "existing @ [wr_pub_key (wi_report w)]"] False assms(1) by auto
  qed
qed simp

lemma verify_loop_distinct:
  assumes "\<And>w. vw_report (verify w) = wi_report w"
  shows "distinct (map (\<lambda>v. wr_pub_key (vw_report v)) (filter (\<lambda>v. vw_status v = StatusValid) (verify_witness_loop verify ws existing)))"
proof (induction ws arbitrary: existing)
  case (Cons w ws)
  show ?case
  proof (cases "wr_pub_key (wi_report w) \<in> set existing")
    case True
    then show ?thesis using Cons.IH by simp
  next
    case False
    let ?ex = "existing @ [wr_pub_key (wi_report w)]"
    have "wr_pub_key (vw_report v) \<noteq> wr_pub_key (wi_report w)"
      if "v \<in> set (verify_witness_loop verify ws ?ex)" "vw_status v = StatusValid" for v
      using verify_loop_valid [OF assms that] by auto
    then have "wr_pub_key (wi_report w) \<notin> (\<lambda>v. wr_pub_key (vw_report v)) `
        set (filter (\<lambda>v. vw_status v = StatusValid) (verify_witness_loop verify ws ?ex))" by fastforce
    then show ?thesis using False Cons.IH [of ?ex] by (simp add: Let_def assms)
  qed
qed simp


section \<open>The frequency check\<close>

lemma abs_diff_int: "unat (abs_diff a b) = nat \<bar>int (unat a) - int (unat b)\<bar>"
  by (auto simp: unat_abs_diff simp del: of_nat_unat)

text \<open>The frequency check accepts a witness exactly when the distance of the two frequencies,
  reduced to 32 bits, is at most 100 kHz or at least two to the power 31: frequencies that far
  apart, or a multiple of four gigahertz apart, pass as equal.\<close>

theorem frequency_check_truncates:
  "verify_witness_freq b w = Inr () \<longleftrightarrow>
     (let d = nat \<bar>int (unat b) - int (unat w)\<bar> mod 2 ^ 32 in d \<le> 100000 \<or> 2 ^ 31 \<le> d)"
proof -
  let ?t = "ucast (abs_diff b w) :: i32"
  have t: "unat ?t = nat \<bar>int (unat b) - int (unat w)\<bar> mod 2 ^ 32"
    by (simp add: unsigned_ucast_eq take_bit_eq_mod abs_diff_int del: of_nat_unat)
  have "unat ?t < 2 ^ 32" using unsigned_less [of ?t, where ?'a = nat] by simp
  then show ?thesis
    unfolding verify_witness_freq_def Let_def t [symmetric] by (auto simp: sint_cases simp del: of_nat_unat)
qed

section \<open>One beacon per interval\<close>

lemma last_beacon_get_update [simp]:
  "last_beacon_get (update_last_timestamp key t table) key = Some \<lparr>lb_id = key, lb_timestamp = t\<rparr>"
  by (induction table) (auto simp: last_beacon_get_def)

lemma last_beacon_get_other:
  "k \<noteq> key \<Longrightarrow> last_beacon_get (update_last_timestamp key t table) k = last_beacon_get table k"
  by (induction table) (auto simp: last_beacon_get_def)

lemma beacon_status_simps [simp]:
  "vb_result (beacon_valid info s) = StatusValid" "vb_result (beacon_invalid r d info) = StatusInvalid"
  "vb_result beacon_gateway_not_found = StatusInvalid"
  by (simp_all add: beacon_valid_def beacon_invalid_def beacon_gateway_not_found_def)

text \<open>Once a beacon of a gateway received at some time has been recorded, no beacon of the
  same gateway that falls into the same or an earlier interval is found valid, while the beacons
  of every other gateway are judged as before.\<close>

theorem one_beacon_per_interval:
  assumes "pe_trunc env interval t = Some bucket" "pe_trunc env interval (bi_received (p_beacon p)) = Some bucket'"
  shows "(br_pub_key (bi_report (p_beacon p)) = key \<longrightarrow> bucket' \<le> bucket \<longrightarrow>
      (\<forall>cache' r. verify_beacon env density gateways cache service (read_last_beacon (update_last_timestamp key t table)) interval dl p
         = Some (cache', Inr r) \<longrightarrow> vb_result r = StatusInvalid)) \<and>
    (br_pub_key (bi_report (p_beacon p)) \<noteq> key \<longrightarrow>
       verify_beacon env density gateways cache service (read_last_beacon (update_last_timestamp key t table)) interval dl p =
       verify_beacon env density gateways cache service (read_last_beacon table) interval dl p)"
proof (intro conjI impI allI)
  fix cache' r
  assume key: "br_pub_key (bi_report (p_beacon p)) = key" and le: "bucket' \<le> bucket"
    and run: "verify_beacon env density gateways cache service (read_last_beacon (update_last_timestamp key t table)) interval dl p = Some (cache', Inr r)"
  have "do_beacon_verifications env dl es ee v (Some \<lparr>lb_id = key, lb_timestamp = t\<rparr>) (p_beacon p) info params interval \<noteq> Inr ()"
    for es ee v info params
    using assms le by (auto simp: do_beacon_verifications_def verify_beacon_schedule_def result_simps split: option.splits)
  then show "vb_result r = StatusInvalid"
    using run key by (auto simp: verify_beacon_def read_last_beacon_def Let_def split: option.splits prod.splits sum.splits poc_stop.splits unit.splits)
next
  assume "br_pub_key (bi_report (p_beacon p)) \<noteq> key"
  note same = last_beacon_get_other [OF this]
  show "verify_beacon env density gateways cache service (read_last_beacon (update_last_timestamp key t table)) interval dl p =
       verify_beacon env density gateways cache service (read_last_beacon table) interval dl p"
    unfolding verify_beacon_def Let_def read_last_beacon_def same ..
qed

section \<open>A concrete proof of coverage\<close>

definition sample_poc_env :: "(nat, nat) poc_env" where
  "sample_poc_env = \<lparr>pe_valid_cell = (\<lambda>_. True), pe_distance_m = (\<lambda>_ _. 5000), pe_parent = (\<lambda>c _. Some c),
     pe_grid_distance = (\<lambda>_ _. Some 20), pe_log10 = (\<lambda>_. 1), pe_trunc = (\<lambda>d t. if d = 0 then None else Some (t - t mod d)),
     pe_new_beacon = (\<lambda>_ _ _ _ _ _ _. Some 0), pe_to_beacon = (\<lambda>_ _ _. 0), pe_beacon_verify = (\<lambda>_ _. True)\<rparr>"

definition sample_gateway :: "iot_key \<Rightarrow> gateway_info" where
  "sample_gateway k = \<lparr>gi_address = k, gi_metadata = Some \<lparr>gm_location = 5, gm_elevation = 0, gm_gain = 0, gm_region = 1\<rparr>,
     gi_full_hotspot = True\<rparr>"

definition sample_deny_list :: deny_list where
  "sample_deny_list = \<lparr>dl_tag = 1, dl_filter = Some \<lparr>df_contains = (\<lambda>_. False), df_contains_edge = (\<lambda>_ _. False)\<rparr>\<rparr>"

definition sample_beacon :: beacon_ingest where
  "sample_beacon = \<lparr>bi_received = seconds 10, bi_report = \<lparr>br_pub_key = [1], br_local_entropy = [], br_remote_entropy = [],
     br_data = [7], br_frequency = 900, br_channel = 0, br_datarate = 0, br_tx_power = 27, br_timestamp = 0,
     br_signature = [], br_tmst = 0\<rparr>\<rparr>"

definition sample_witness :: "iot_key \<Rightarrow> witness_ingest" where
  "sample_witness k = \<lparr>wi_received = seconds 11, wi_report = \<lparr>wr_pub_key = k, wr_data = [7], wr_timestamp = 0, wr_tmst = 0,
     wr_signal = 0, wr_snr = 0, wr_frequency = 900, wr_datarate = 0, wr_signature = []\<rparr>\<rparr>"

definition sample_poc :: poc where
  "sample_poc = new_poc sample_beacon [sample_witness [2], sample_witness [2], sample_witness [1]] (seconds 5) 1"

definition sample_metadata :: gateway_metadata where
  "sample_metadata = \<lparr>gm_location = 5, gm_elevation = 0, gm_gain = 0, gm_region = 1\<rparr>"

lemma sample_checks:
  "do_witness_verifications sample_poc_env sample_deny_list (seconds 5) (seconds 185) (sample_witness [2])
     (sample_gateway k) sample_beacon sample_metadata (seconds 11) = Inr ()"
proof -
  have "\<lfloor>10001 / 2 :: rat\<rfloor> = 5000" by (rule floor_unique) simp_all
  then have "calc_distance sample_poc_env 5 5 = Some 5000" by (simp add: calc_distance_def sample_poc_env_def round_u32_def)
  moreover have "calc_cell_distance sample_poc_env 5 5 = Some 20" by (simp add: calc_cell_distance_def sample_poc_env_def)
  moreover have "calc_expected_rssi sample_poc_env 27 900 5000 0 0 = Some 7"
    by (simp add: calc_expected_rssi_def calc_fpsl_def sample_poc_env_def PI_F64_def LIGHT_def gain_db_def Let_def)
  ultimately show ?thesis
    by (simp add: do_witness_verifications_def check_defs sample_deny_list_def contains_key_def contains_edge_def
      sample_beacon_def sample_witness_def sample_gateway_def sample_metadata_def secs_def MAX_BEACON_TO_WITNESS_LAG_def
      abs_diff_def POC_CELL_DISTANCE_MINIMUM_def POC_DISTANCE_LIMIT_def)
qed

lemma sample_verdicts:
  "map vw_status (verify_witnesses sample_poc_env Map.empty (\<lambda>k. Some (sample_gateway k)) sample_deny_list sample_poc (sample_gateway [1]))
     = [StatusValid, StatusInvalid, StatusInvalid]"
proof -
  let ?v = "verify_witness sample_poc_env Map.empty (\<lambda>k. Some (sample_gateway k)) sample_deny_list sample_poc (sample_gateway [1]) (seconds 11)"
  have md: "gi_metadata (sample_gateway k) = Some sample_metadata" for k by (simp add: sample_gateway_def sample_metadata_def)
  have poc: "p_entropy_start sample_poc = seconds 5" "p_entropy_end sample_poc = seconds 185" "p_beacon sample_poc = sample_beacon"
    "p_witnesses sample_poc = [sample_witness [2], sample_witness [2], sample_witness [1]]"
    by (simp_all add: sample_poc_def new_poc_def ENTROPY_LIFESPAN_def)
  have valid: "vw_status (?v (sample_witness [2])) = StatusValid"
    by (simp only: verify_witness_def md poc sample_checks option.case sum.case unit.case witness_simps)
  have "\<not> good_witness env gw dl sample_poc info ts (sample_witness [1])" for env gw dl info ts
    by (simp add: good_witness_def poc sample_beacon_def sample_witness_def)
  then have "vw_status (?v (sample_witness [1])) = StatusInvalid"
    using verify_witness_valid verification_status.exhaust by blast
  then show ?thesis using valid
    by (simp add: verify_witnesses_def poc Let_def sample_witness_def)
qed


lemma one_beacon_per_interval_witness:
  "\<exists>cache' r. verify_beacon sample_poc_env Map.empty (\<lambda>k. Some (sample_gateway k)) Map.empty (\<lambda>_. Inr 0 :: string + nat)
      (read_last_beacon (update_last_timestamp [1] (seconds 9) [])) (seconds 100) sample_deny_list sample_poc = Some (cache', Inr r) \<and>
      vb_result r = StatusInvalid"
proof -
  let ?run = "verify_beacon sample_poc_env Map.empty (\<lambda>k. Some (sample_gateway k)) Map.empty (\<lambda>_. Inr 0 :: string + nat)
      (read_last_beacon (update_last_timestamp [1] (seconds 9) [])) (seconds 100) sample_deny_list sample_poc"
  have "pe_trunc sample_poc_env (seconds 100) (seconds 9) = Some 0"
    "pe_trunc sample_poc_env (seconds 100) (bi_received (p_beacon sample_poc)) = Some 0" "br_pub_key (bi_report (p_beacon sample_poc)) = [1]"
    by (simp_all add: sample_poc_env_def sample_poc_def new_poc_def sample_beacon_def)
  from one_beacon_per_interval [OF this(1,2), of "[1]"] this(3)
  have bad: "?run = Some (cache', Inr r) \<Longrightarrow> vb_result r = StatusInvalid" for cache' r by blast
  have "\<exists>cache' r. ?run = Some (cache', Inr r)"
    by (simp add: verify_beacon_def read_last_beacon_def last_beacon_get_def resolve_region_info_def sample_gateway_def sample_poc_def
      new_poc_def sample_beacon_def do_beacon_verifications_def verify_denylist_def sample_deny_list_def contains_key_def
      verify_entropy_def secs_def ENTROPY_LIFESPAN_def verify_gw_capability_def verify_beacon_schedule_def sample_poc_env_def)
  then show ?thesis using bad by blast
qed

end
