(* ===== verification/Iot_Rewards.thy ===== *)
theory Iot_Rewards
  imports Iot_Poc Reward_Epochs
begin

text \<open>
  Reward shares of the IoT verifier (\<^verbatim>\<open>src/iot_verifier/src/reward_share.rs\<close>). The tables
  \<open>gateway_shares\<close> and \<open>gateway_dc_shares\<close> are lists of rows with the primary
  keys of the migrations. Decimal arithmetic is the record of \<open>Decimals\<close>. The map from
  hotspots to their shares is an association list.

  The lemmas show that the amounts paid for a kind of reward exceed its pool by no more than the
  rounding of the rate.
\<close>

section \<open>Shares\<close>

datatype report_type = WitnessReport | BeaconReport

record poc_share =
  ps_hotspot :: iot_key
  ps_type :: report_type
  ps_timestamp :: timestamp
  ps_hex_scale :: rat
  ps_reward_unit :: rat
  ps_poc_id :: bytes

record dc_share =
  ds_hotspot :: iot_key
  ds_timestamp :: timestamp
  ds_num_dcs :: rat
  ds_id :: bytes

record valid_beacon =
  bv_received :: timestamp
  bv_location :: "u64 option"
  bv_gain :: i32
  bv_elevation :: i32
  bv_hex_scale :: rat
  bv_report :: beacon_report
  bv_reward_unit :: rat

record iot_poc =
  ip_id :: bytes
  ip_beacon :: valid_beacon
  ip_selected :: "verified_witness list"
  ip_unselected :: "verified_witness list"

text \<open>The row inserted, or the row of the same key replaced; the flag says whether it was inserted.\<close>

fun save_poc_share :: "poc_share \<Rightarrow> poc_share list \<Rightarrow> poc_share list \<times> bool" where
  "save_poc_share s [] = ([s], True)"
| "save_poc_share s (r # rs) =
     (if ps_hotspot r = ps_hotspot s \<and> ps_poc_id r = ps_poc_id s then
        (r\<lparr>ps_type := ps_type s, ps_timestamp := ps_timestamp s, ps_hex_scale := ps_hex_scale s,
           ps_reward_unit := ps_reward_unit s\<rparr> # rs, False)
      else let (rs', ins) = save_poc_share s rs in (r # rs', ins))"

fun save_dc_share :: "dc_share \<Rightarrow> dc_share list \<Rightarrow> dc_share list \<times> bool" where
  "save_dc_share s [] = ([s], True)"
| "save_dc_share s (r # rs) =
     (if ds_id r = ds_id s then
        (r\<lparr>ds_timestamp := ds_timestamp s, ds_num_dcs := ds_num_dcs s\<rparr> # rs, False)
      else let (rs', ins) = save_dc_share s rs in (r # rs', ins))"

definition witness_share :: "bytes \<Rightarrow> verified_witness \<Rightarrow> poc_share list" where
  "witness_share pid w =
     (if vw_status w = StatusValid \<and> vw_hex_scale w > 0 \<and> vw_reward_unit w > 0 then
        [\<lparr>ps_hotspot = wr_pub_key (vw_report w), ps_type = WitnessReport, ps_timestamp = vw_received w,
          ps_hex_scale = vw_hex_scale w, ps_reward_unit = vw_reward_unit w, ps_poc_id = pid\<rparr>]
      else [])"

definition shares_from_poc :: "iot_poc \<Rightarrow> poc_share list" where
  "shares_from_poc p =
     (let b = ip_beacon p in
      if bv_hex_scale b > 0 \<and> bv_reward_unit b > 0 then
        [\<lparr>ps_hotspot = br_pub_key (bv_report b), ps_type = BeaconReport, ps_timestamp = bv_received b,
          ps_hex_scale = bv_hex_scale b, ps_reward_unit = bv_reward_unit b, ps_poc_id = ip_id p\<rparr>]
      else []) @ concat (map (witness_share (ip_id p)) (ip_selected p))"

record valid_packet =
  vp_gateway :: iot_key
  vp_timestamp :: timestamp
  vp_num_dcs :: u32
  vp_packet_id :: bytes

definition share_from_packet :: "valid_packet \<Rightarrow> dc_share" where
  "share_from_packet p = \<lparr>ds_hotspot = vp_gateway p, ds_timestamp = vp_timestamp p,
     ds_num_dcs = of_nat (unat (vp_num_dcs p)), ds_id = vp_packet_id p\<rparr>"

text \<open>The packets of a file: a packet of a known gateway is saved, the others are reported.\<close>

fun handle_packet_file ::
  "(iot_key \<rightharpoonup> gateway_info) \<Rightarrow> valid_packet list \<Rightarrow> dc_share list \<times> valid_packet list \<Rightarrow> dc_share list \<times> valid_packet list" where
  "handle_packet_file gateways [] st = st"
| "handle_packet_file gateways (p # ps) (table, unrewardable) =
     handle_packet_file gateways ps
       (if gateways (vp_gateway p) \<noteq> None then (fst (save_dc_share (share_from_packet p) table), unrewardable)
        else (table, unrewardable @ [p]))"

record reward_shares =
  rs_beacon :: rat
  rs_witness :: rat
  rs_dc :: rat

definition default_shares :: reward_shares where
  "default_shares = \<lparr>rs_beacon = 0, rs_witness = 0, rs_dc = 0\<rparr>"

definition add_poc_reward :: "decimal_ops \<Rightarrow> poc_share \<Rightarrow> reward_shares \<Rightarrow> reward_shares" where
  "add_poc_reward D s rs =
     (let rewards = d_mul D (ps_hex_scale s) (ps_reward_unit s) in
      case ps_type s of
        BeaconReport \<Rightarrow> rs\<lparr>rs_beacon := d_add D (rs_beacon rs) rewards\<rparr>
      | WitnessReport \<Rightarrow> rs\<lparr>rs_witness := d_add D (rs_witness rs) rewards\<rparr>)"

definition add_dc_reward :: "decimal_ops \<Rightarrow> dc_share \<Rightarrow> reward_shares \<Rightarrow> reward_shares" where
  "add_dc_reward D s rs = rs\<lparr>rs_dc := d_add D (rs_dc rs) (ds_num_dcs s)\<rparr>"

type_synonym gateway_shares = "(iot_key \<times> reward_shares) list"

fun with_entry :: "'k \<Rightarrow> 'v \<Rightarrow> ('v \<Rightarrow> 'v) \<Rightarrow> ('k \<times> 'v) list \<Rightarrow> ('k \<times> 'v) list" where
  "with_entry k d f [] = [(k, f d)]"
| "with_entry k d f ((k', v) # xs) = (if k' = k then (k', f v) # xs else (k', v) # with_entry k d f xs)"

definition in_period :: "timestamp \<times> timestamp \<Rightarrow> timestamp \<Rightarrow> bool" where
  "in_period period t \<longleftrightarrow> fst period < t \<and> t \<le> snd period"

definition aggregate_poc_shares ::
  "decimal_ops \<Rightarrow> poc_share list \<Rightarrow> timestamp \<times> timestamp \<Rightarrow> gateway_shares \<Rightarrow> gateway_shares" where
  "aggregate_poc_shares D table period shares =
     foldl (\<lambda>m s. with_entry (ps_hotspot s) default_shares (add_poc_reward D s) m) shares
       (filter (\<lambda>s. in_period period (ps_timestamp s)) table)"

definition aggregate_dc_shares ::
  "decimal_ops \<Rightarrow> dc_share list \<Rightarrow> timestamp \<times> timestamp \<Rightarrow> gateway_shares \<Rightarrow> gateway_shares" where
  "aggregate_dc_shares D table period shares =
     foldl (\<lambda>m s. with_entry (ds_hotspot s) default_shares (add_dc_reward D s) m) shares
       (filter (\<lambda>s. in_period period (ds_timestamp s)) table)"

definition aggregate_reward_shares ::
  "decimal_ops \<Rightarrow> poc_share list \<Rightarrow> dc_share list \<Rightarrow> timestamp \<times> timestamp \<Rightarrow> gateway_shares" where
  "aggregate_reward_shares D pocs dcs period =
     aggregate_dc_shares D dcs period (aggregate_poc_shares D pocs period [])"

definition clear_rewarded_shares :: "timestamp \<Rightarrow> poc_share list \<times> dc_share list \<Rightarrow> poc_share list \<times> dc_share list" where
  "clear_rewarded_shares period_end tables =
     (filter (\<lambda>s. \<not> ps_timestamp s \<le> period_end) (fst tables), filter (\<lambda>s. \<not> ds_timestamp s \<le> period_end) (snd tables))"

section \<open>Emissions\<close>

definition DEFAULT_PREC :: nat where "DEFAULT_PREC = 15"

definition REWARDS_PER_DAY :: "decimal_ops \<Rightarrow> rat" where
  "REWARDS_PER_DAY D = d_mul D (d_div D 32500000000 366) 1000000"

definition BEACON_REWARDS_PER_DAY_PERCENT :: rat where "BEACON_REWARDS_PER_DAY_PERCENT = 6 / 100"
definition WITNESS_REWARDS_PER_DAY_PERCENT :: rat where "WITNESS_REWARDS_PER_DAY_PERCENT = 24 / 100"
definition DATA_TRANSFER_REWARDS_PER_DAY_PERCENT :: rat where "DATA_TRANSFER_REWARDS_PER_DAY_PERCENT = 50 / 100"
definition OPERATIONS_REWARDS_PER_DAY_PERCENT :: rat where "OPERATIONS_REWARDS_PER_DAY_PERCENT = 7 / 100"
definition ORACLES_REWARDS_PER_DAY_PERCENT :: rat where "ORACLES_REWARDS_PER_DAY_PERCENT = 7 / 100"
definition WITNESS_DC_REMAINER_PERCENT :: rat where "WITNESS_DC_REMAINER_PERCENT = 80 / 100"
definition BEACON_DC_REMAINER_PERCENT :: rat where "BEACON_DC_REMAINER_PERCENT = 20 / 100"
definition DC_USD_PRICE :: rat where "DC_USD_PRICE = 1 / 100000"

definition get_tokens_by_duration :: "decimal_ops \<Rightarrow> rat \<Rightarrow> duration \<Rightarrow> rat" where
  "get_tokens_by_duration D tokens d =
     round_dp DEFAULT_PREC (d_mul D (d_div D tokens (num_seconds (hours 24))) (num_seconds d))"

definition get_scheduled_poc_tokens :: "decimal_ops \<Rightarrow> duration \<Rightarrow> rat \<Rightarrow> rat \<times> rat" where
  "get_scheduled_poc_tokens D d dc_remainder =
     (d_add D (get_tokens_by_duration D (d_mul D (REWARDS_PER_DAY D) BEACON_REWARDS_PER_DAY_PERCENT) d)
        (d_mul D dc_remainder BEACON_DC_REMAINER_PERCENT),
      d_add D (get_tokens_by_duration D (d_mul D (REWARDS_PER_DAY D) WITNESS_REWARDS_PER_DAY_PERCENT) d)
        (d_mul D dc_remainder WITNESS_DC_REMAINER_PERCENT))"

definition get_scheduled_dc_tokens :: "decimal_ops \<Rightarrow> duration \<Rightarrow> rat" where
  "get_scheduled_dc_tokens D d =
     get_tokens_by_duration D (d_mul D (REWARDS_PER_DAY D) DATA_TRANSFER_REWARDS_PER_DAY_PERCENT) d"

definition get_scheduled_ops_fund_tokens :: "decimal_ops \<Rightarrow> duration \<Rightarrow> rat" where
  "get_scheduled_ops_fund_tokens D d =
     get_tokens_by_duration D (d_mul D (REWARDS_PER_DAY D) OPERATIONS_REWARDS_PER_DAY_PERCENT) d"

definition get_scheduled_oracle_tokens :: "decimal_ops \<Rightarrow> duration \<Rightarrow> rat" where
  "get_scheduled_oracle_tokens D d =
     get_tokens_by_duration D (d_mul D (REWARDS_PER_DAY D) ORACLES_REWARDS_PER_DAY_PERCENT) d"

definition iot_price_to_bones :: "decimal_ops \<Rightarrow> rat \<Rightarrow> rat" where
  "iot_price_to_bones D price = d_div D (d_div D price 1000000) 1000000"

definition dc_to_iot_bones :: "decimal_ops \<Rightarrow> rat \<Rightarrow> rat \<Rightarrow> rat" where
  "dc_to_iot_bones D dc price =
     round_dp_up DEFAULT_PREC (d_div D (d_mul D dc DC_USD_PRICE) (iot_price_to_bones D price))"

definition iot_bones_to_dc :: "decimal_ops \<Rightarrow> rat \<Rightarrow> rat \<Rightarrow> rat" where
  "iot_bones_to_dc D bones price =
     round_dp_down 0 (d_div D (d_mul D bones (iot_price_to_bones D price)) DC_USD_PRICE)"

definition normalize_dc_transfer_rewards :: "decimal_ops \<Rightarrow> rat \<Rightarrow> rat \<Rightarrow> rat \<times> rat" where
  "normalize_dc_transfer_rewards D used available =
     (if used \<le> available then (d_sub D available used, used) else (0, available))"

definition rewards_per_share :: "decimal_ops \<Rightarrow> rat \<Rightarrow> rat \<Rightarrow> rat" where
  "rewards_per_share D total_rewards total_shares =
     (if total_shares > 0 then round_dp DEFAULT_PREC (d_div D total_rewards total_shares) else 0)"

definition compute_rewards :: "decimal_ops \<Rightarrow> rat \<Rightarrow> rat \<Rightarrow> nat" where
  "compute_rewards D rate shares = to_u64_or_0 (trunc_int (d_mul D rate shares))"

definition total_shares :: "decimal_ops \<Rightarrow> gateway_shares \<Rightarrow> rat \<times> rat \<times> rat" where
  "total_shares D shares =
     foldl (\<lambda>(b, w, d) (_, rs). (d_add D b (rs_beacon rs), d_add D w (rs_witness rs), d_add D d (rs_dc rs))) (0, 0, 0) shares"

definition calculate_rewards_per_share ::
  "decimal_ops \<Rightarrow> gateway_shares \<Rightarrow> timestamp \<times> timestamp \<Rightarrow> rat \<Rightarrow> rat \<times> rat \<times> rat" where
  "calculate_rewards_per_share D shares period price =
     (let (tb, tw, td) = total_shares D shares;
          d = snd period - fst period;
          total_dc = get_scheduled_dc_tokens D d;
          used = dc_to_iot_bones D td price;
          (unused, capped) = normalize_dc_transfer_rewards D used total_dc;
          (beacon_rewards, witness_rewards) = get_scheduled_poc_tokens D d unused
      in (rewards_per_share D beacon_rewards tb, rewards_per_share D witness_rewards tw, rewards_per_share D capped td))"

record gateway_reward =
  gr_hotspot :: iot_key
  gr_beacon :: nat
  gr_witness :: nat
  gr_dc :: nat

definition into_iot_reward_shares ::
  "decimal_ops \<Rightarrow> gateway_shares \<Rightarrow> rat \<Rightarrow> rat \<Rightarrow> rat \<Rightarrow> (u64 \<times> gateway_reward) list" where
  "into_iot_reward_shares D shares beacon_rate witness_rate dc_rate =
     map (\<lambda>r. (of_nat (gr_dc r) + of_nat (gr_beacon r) + of_nat (gr_witness r), r))
       (filter (\<lambda>r. gr_beacon r > 0 \<or> gr_witness r > 0 \<or> gr_dc r > 0)
         (map (\<lambda>(k, rs). \<lparr>gr_hotspot = k, gr_beacon = compute_rewards D beacon_rate (rs_beacon rs),
                gr_witness = compute_rewards D witness_rate (rs_witness rs),
                gr_dc = compute_rewards D dc_rate (rs_dc rs)\<rparr>) shares))"

section \<open>Paying the shares of an epoch\<close>

lemma total_shares_sums:
  "total_shares D shares =
    (foldl (d_add D) 0 (map (\<lambda>p. rs_beacon (snd p)) shares), foldl (d_add D) 0 (map (\<lambda>p. rs_witness (snd p)) shares),
     foldl (d_add D) 0 (map (\<lambda>p. rs_dc (snd p)) shares))"
proof -
  have "foldl (\<lambda>(b, w, d) (_, rs). (d_add D b (rs_beacon rs), d_add D w (rs_witness rs), d_add D d (rs_dc rs))) (b, w, d) shares =
    (foldl (d_add D) b (map (\<lambda>p. rs_beacon (snd p)) shares), foldl (d_add D) w (map (\<lambda>p. rs_witness (snd p)) shares),
     foldl (d_add D) d (map (\<lambda>p. rs_dc (snd p)) shares))" for b w d
    by (induction shares arbitrary: b w d) (simp_all add: split_beta)
  then show ?thesis unfolding total_shares_def .
qed

text \<open>The shares of gateways have at most eight decimal places, and the numbers stay well within
  the range of decimals.\<close>

definition share_ok :: "rat \<Rightarrow> bool" where
  "share_ok x \<longleftrightarrow> 0 \<le> x \<and> places 8 x"

definition pool_in_range :: "rat \<Rightarrow> rat \<Rightarrow> bool" where
  "pool_in_range P S \<longleftrightarrow> 0 \<le> P \<and> S * 10 ^ 8 < 2 ^ 96 \<and> P * 10 ^ 9 + 2 * S + 1 < 2 ^ 96 \<and> (0 < S \<longrightarrow> P / S * 10 ^ 9 + 1 < 2 ^ 96)"

lemma rate_bounds:
  assumes "decimal_laws D" "pool_in_range P S" "0 < S"
  shows "0 \<le> rewards_per_share D P S \<and> rewards_per_share D P S * S \<le> P + 2 * S / 10 ^ 9"
  using rounded_rate_bounds [OF assms(1) _ assms(3)] assms(2,3)
  unfolding pool_in_range_def rewards_per_share_def DEFAULT_PREC_def by simp

lemma pool_payout:
  assumes "decimal_laws D" "\<forall>x \<in> set xs. share_ok x" "pool_in_range P (sum_list xs)"
    "rate = rewards_per_share D P (foldl (d_add D) 0 xs)"
  shows "of_nat (sum_list (map (compute_rewards D rate) xs)) \<le> P + (2 * sum_list xs + of_nat (length xs)) / 10 ^ 9"
proof -
  let ?S = "sum_list xs"
  have S: "0 \<le> ?S" using assms(2) by (auto simp: share_ok_def intro: sum_list_nonneg)
  have sum: "foldl (d_add D) 0 xs = ?S"
    using sum_exact [OF assms(1), of 8 xs 0] assms(2,3) by (simp add: share_ok_def pool_in_range_def)
  have bound: "0 \<le> rate \<and> rate * ?S \<le> P + 2 * ?S / 10 ^ 9"
  proof (cases "0 < ?S")
    case True
    then show ?thesis using rate_bounds [OF assms(1,3)] assms(4) sum by simp
  next
    case False
    then show ?thesis using assms(3,4) S sum by (simp add: rewards_per_share_def pool_in_range_def)
  qed
  then have "rate * ?S * 10 ^ 9 \<le> (P + 2 * ?S / 10 ^ 9) * 10 ^ 9" by (simp add: mult_right_mono)
  also have "\<dots> = P * 10 ^ 9 + 2 * ?S" by (simp add: algebra_simps)
  finally have "rate * ?S * 10 ^ 9 + 1 < 2 ^ 96" using assms(3) unfolding pool_in_range_def by linarith
  then have "of_nat (sum_list (map (compute_rewards D rate) xs)) \<le> rate * ?S + of_nat (length xs) / 10 ^ 9"
    using payout_bound [OF assms(1), of rate 9 xs] bound assms(2) unfolding compute_rewards_def share_ok_def by simp
  then show ?thesis using bound by (simp add: add_divide_distrib)
qed

lemma paid_sums:
  "sum_list (map (\<lambda>r. gr_beacon (snd r)) (into_iot_reward_shares D shares b w d)) = sum_list (map (\<lambda>p. compute_rewards D b (rs_beacon (snd p))) shares)"
  "sum_list (map (\<lambda>r. gr_witness (snd r)) (into_iot_reward_shares D shares b w d)) = sum_list (map (\<lambda>p. compute_rewards D w (rs_witness (snd p))) shares)"
  "sum_list (map (\<lambda>r. gr_dc (snd r)) (into_iot_reward_shares D shares b w d)) = sum_list (map (\<lambda>p. compute_rewards D d (rs_dc (snd p))) shares)"
  unfolding into_iot_reward_shares_def by (induction shares) auto


lemma sample_tokens:
  assumes "0 \<le> x" "x \<le> 10 ^ 14"
  shows "0 \<le> get_tokens_by_duration exact_decimal x (hours 24) \<and> get_tokens_by_duration exact_decimal x (hours 24) \<le> 10 ^ 14"
proof -
  have "d_mul exact_decimal (d_div exact_decimal x (num_seconds (hours 24))) (num_seconds (hours 24)) = x"
    by (simp add: exact_decimal_def num_seconds_def)
  then show ?thesis using round_dp_bounds [of 0 x "10 ^ 14" 15] assms
    by (simp add: get_tokens_by_duration_def DEFAULT_PREC_def)
qed

lemma sample_per_day: "0 \<le> REWARDS_PER_DAY exact_decimal" "REWARDS_PER_DAY exact_decimal \<le> 10 ^ 14"
  by (simp_all add: REWARDS_PER_DAY_def exact_decimal_def)

lemma round_dp_up_nonneg: "0 \<le> x \<Longrightarrow> 0 \<le> round_dp_up dp x"
proof -
  assume "0 \<le> x"
  then have "0 \<le> \<lceil>x * 10 ^ dp\<rceil>" using ceiling_mono [of 0 "x * 10 ^ dp"] by simp
  then show ?thesis by (simp add: round_dp_up_def)
qed

definition sample_shares :: gateway_shares where
  "sample_shares = [([1], \<lparr>rs_beacon = 1, rs_witness = 2, rs_dc = 3\<rparr>)]"

lemma sample_shares_ok: "share_ok 1" "share_ok 2" "share_ok 3"
proof -
  have ok: "share_ok (of_nat n)" for n
    unfolding share_ok_def places_def by (simp add: exI [of _ "int n * 10 ^ 8"])
  show "share_ok 1" "share_ok 2" "share_ok 3" using ok [of 1] ok [of 2] ok [of 3] by simp_all
qed


text \<open>The products of the scaling factor and the reward unit of a saved share have eight places.\<close>

lemma add_poc_reward_share_ok:
  assumes "decimal_laws D" "places 4 (ps_hex_scale s)" "places 4 (ps_reward_unit s)" "0 \<le> ps_hex_scale s" "0 \<le> ps_reward_unit s"
    "share_ok (rs_beacon rs)" "share_ok (rs_witness rs)" "share_ok (rs_dc rs)"
    "(rs_beacon rs + rs_witness rs + ps_hex_scale s * ps_reward_unit s) * 10 ^ 8 < 2 ^ 96"
  shows "share_ok (rs_beacon (add_poc_reward D s rs)) \<and> share_ok (rs_witness (add_poc_reward D s rs)) \<and> share_ok (rs_dc (add_poc_reward D s rs))"
proof -
  let ?p = "ps_hex_scale s * ps_reward_unit s"
  have p: "0 \<le> ?p" "places 8 ?p" using assms(4,5) places_mult [OF assms(2,3)] by simp_all
  have nonneg: "0 \<le> rs_beacon rs" "0 \<le> rs_witness rs" using assms(6,7) by (simp_all add: share_ok_def)
  have small: "?p * 10 ^ 8 < 2 ^ 96" "(rs_beacon rs + ?p) * 10 ^ 8 < 2 ^ 96" "(rs_witness rs + ?p) * 10 ^ 8 < 2 ^ 96"
    using assms(9) p(1) nonneg by (simp_all add: distrib_right)
  have mul: "d_mul D (ps_hex_scale s) (ps_reward_unit s) = ?p"
    using d_mul_exact [OF assms(1-3)] small(1) p(1) by (simp del: distrib_right_numeral)
  have add: "d_add D x ?p = x + ?p" if "share_ok x" "(x + ?p) * 10 ^ 8 < 2 ^ 96" for x
    using d_add_exact [OF assms(1), of 8 x ?p] that p by (simp add: share_ok_def)
  show ?thesis using assms(6,7,8) add small(2,3) p mul
    by (cases "ps_type s") (simp_all add: add_poc_reward_def Let_def share_ok_def places_add)
qed

end
