(* ===== verification/Iot_Runner.thy ===== *)
theory Iot_Runner
  imports Iot_Rewards Timestamps "HOL-Library.Multiset"
begin

text \<open>
  The runner of the IoT verifier (\<^verbatim>\<open>src/iot_verifier/src/runner.rs\<close>) with the table of
  reports (\<^verbatim>\<open>poc_report.rs\<close>), the table of entropy (\<^verbatim>\<open>entropy.rs\<close>) and the
  identifiers of reports (\<^verbatim>\<open>src/file_store/src/traits/report_id.rs\<close>). The tables are
  lists of rows; a row is inserted when its key is new. The handlers take the whole world of
  the verifier, its tables and what it has written to its sinks, and a record that says
  which calls to the database, the sinks and the region service succeed. The
  column \<open>attempts\<close> is an integer whose overflow is an error; the metrics are left out.

  The lemmas show that the reports of a packet are removed only after a proof of coverage or an
  invalid beacon was written for it, that without failures they are removed, which witnesses
  are selected, that a retry saves the same reward shares, and the bounds of the reward units.
\<close>

section \<open>The table of reports\<close>

datatype iot_status = IotPending | IotReady | IotValid | IotInvalid

record report =
  rp_id :: bytes
  rp_remote_entropy :: bytes
  rp_packet_data :: bytes
  rp_report_data :: bytes
  rp_type :: report_type
  rp_status :: iot_status
  rp_attempts :: int
  rp_timestamp :: timestamp
  rp_last_processed :: timestamp
  rp_created :: timestamp

record insert_bindings =
  ib_id :: bytes
  ib_remote_entropy :: bytes
  ib_packet_data :: bytes
  ib_buf :: bytes
  ib_received :: timestamp
  ib_type :: report_type
  ib_status :: iot_status

definition insert_into :: "timestamp \<Rightarrow> insert_bindings \<Rightarrow> report list \<Rightarrow> report list" where
  "insert_into now b table =
     (if ib_id b \<in> rp_id ` set table then table
      else table @ [\<lparr>rp_id = ib_id b, rp_remote_entropy = ib_remote_entropy b, rp_packet_data = ib_packet_data b,
             rp_report_data = ib_buf b, rp_type = ib_type b, rp_status = ib_status b, rp_attempts = 0,
             rp_timestamp = ib_received b, rp_last_processed = now, rp_created = now\<rparr>])"

definition bulk_insert :: "timestamp \<Rightarrow> insert_bindings list \<Rightarrow> report list \<Rightarrow> report list" where
  "bulk_insert now bs table = foldl (\<lambda>t b. insert_into now b t) table bs"

definition delete_poc :: "bytes \<Rightarrow> report list \<Rightarrow> report list" where
  "delete_poc packet_data table = filter (\<lambda>r. rp_packet_data r \<noteq> packet_data) table"

definition delete_report :: "bytes \<Rightarrow> report list \<Rightarrow> report list" where
  "delete_report key table = filter (\<lambda>r. rp_id r \<noteq> key) table"

definition pending_beacons_to_ready :: "timestamp \<Rightarrow> report list \<Rightarrow> report list" where
  "pending_beacons_to_ready now table =
     map (\<lambda>r. if rp_type r = BeaconReport \<and> rp_status r = IotPending
        then r\<lparr>rp_status := IotReady, rp_last_processed := now\<rparr> else r) table"

definition get_pending_beacon_packet_data :: "report list \<Rightarrow> report list" where
  "get_pending_beacon_packet_data table = filter (\<lambda>r. rp_type r = BeaconReport \<and> rp_status r = IotPending) table"

definition get_witnesses_for_beacon :: "bytes \<Rightarrow> u64 \<Rightarrow> report list \<Rightarrow> report list" where
  "get_witnesses_for_beacon packet_data max_retries table =
     sort_key rp_timestamp
       (filter (\<lambda>r. rp_packet_data r = packet_data \<and> rp_type r = WitnessReport \<and> rp_attempts r < sint max_retries) table)"

definition update_status :: "bytes \<Rightarrow> iot_status \<Rightarrow> timestamp \<Rightarrow> report list \<Rightarrow> report list" where
  "update_status key status now table =
     map (\<lambda>r. if rp_id r = key then r\<lparr>rp_status := status, rp_last_processed := now\<rparr> else r) table"

definition update_status_all :: "bytes \<Rightarrow> iot_status \<Rightarrow> timestamp \<Rightarrow> report list \<Rightarrow> report list" where
  "update_status_all packet_data status now table =
     map (\<lambda>r. if rp_packet_data r = packet_data then r\<lparr>rp_status := status, rp_last_processed := now\<rparr> else r) table"

text \<open>The column is a 32-bit integer whose overflow is an error of the statement.\<close>

definition update_attempts :: "bytes \<Rightarrow> timestamp \<Rightarrow> report list \<Rightarrow> report list option" where
  "update_attempts key now table =
     (if \<exists>r \<in> set table. rp_id r = key \<and> rp_attempts r \<ge> 2 ^ 31 - 1 then None
      else Some (map (\<lambda>r. if rp_id r = key then r\<lparr>rp_attempts := rp_attempts r + 1, rp_last_processed := now\<rparr> else r) table))"

definition get_stale_reports :: "report_type \<Rightarrow> timestamp \<Rightarrow> duration \<Rightarrow> report list \<Rightarrow> report list" where
  "get_stale_reports kind now stale_period table =
     filter (\<lambda>r. rp_type r = kind \<and> rp_status r = IotReady \<and> rp_created r < now - stale_period) table"

definition get_stale_beacons :: "timestamp \<Rightarrow> duration \<Rightarrow> report list \<Rightarrow> report list" where
  "get_stale_beacons = get_stale_reports BeaconReport"

definition get_stale_witnesses :: "timestamp \<Rightarrow> duration \<Rightarrow> report list \<Rightarrow> report list" where
  "get_stale_witnesses = get_stale_reports WitnessReport"

definition count_all_beacons :: "report list \<Rightarrow> u64" where
  "count_all_beacons table = of_nat (length (filter (\<lambda>r. rp_type r = BeaconReport \<and> rp_status r \<in> {IotPending, IotReady}) table))"

section \<open>Entropy\<close>

record entropy =
  en_id :: bytes
  en_data :: bytes
  en_timestamp :: timestamp
  en_version :: i32
  en_created :: timestamp

definition insert_entropy :: "timestamp \<Rightarrow> bytes \<Rightarrow> bytes \<Rightarrow> timestamp \<Rightarrow> i32 \<Rightarrow> entropy list \<Rightarrow> entropy list" where
  "insert_entropy now key data ts version table =
     (if key \<in> en_id ` set table then table
      else table @ [\<lparr>en_id = key, en_data = data, en_timestamp = ts, en_version = version, en_created = now\<rparr>])"

definition get_entropy :: "bytes \<Rightarrow> entropy list \<Rightarrow> entropy option" where
  "get_entropy key table = find (\<lambda>e. en_id e = key) table"

definition purge_entropy :: "timestamp \<Rightarrow> duration \<Rightarrow> entropy list \<Rightarrow> entropy list" where
  "purge_entropy now stale_period table = filter (\<lambda>e. \<not> en_timestamp e < now - stale_period) table"

text \<open>A beacon is read with every entropy row that has its data.\<close>

definition get_next_beacons :: "timestamp \<Rightarrow> u64 \<Rightarrow> entropy list \<Rightarrow> report list \<Rightarrow> (report \<times> timestamp \<times> i32) list" where
  "get_next_beacons now max_retries entropies table =
     take 25000 (sort_key (\<lambda>(r, _). rp_created r)
       (concat (map (\<lambda>r. map (\<lambda>e. (r, en_timestamp e, en_version e))
          (filter (\<lambda>e. rp_remote_entropy r = en_data e \<and> en_timestamp e < now - seconds ENTROPY_LIFESPAN) entropies))
        (filter (\<lambda>r. rp_type r = BeaconReport \<and> rp_status r = IotReady \<and> rp_attempts r < sint max_retries) table))))"

section \<open>Identifiers\<close>

definition to_be_bytes :: "u64 \<Rightarrow> bytes" where
  "to_be_bytes w = map (\<lambda>i. ucast (drop_bit (8 * (7 - i)) w)) [0..<8]"

definition report_id :: "(bytes \<Rightarrow> bytes) \<Rightarrow> bytes \<Rightarrow> iot_key \<Rightarrow> timestamp \<Rightarrow> bytes" where
  "report_id blake3 data pub_key received = blake3 (data @ to_be_bytes (encode_timestamp_millis received) @ pub_key)"

definition beacon_report_id :: "(bytes \<Rightarrow> bytes) \<Rightarrow> beacon_report \<Rightarrow> timestamp \<Rightarrow> bytes" where
  "beacon_report_id blake3 r received = report_id blake3 (br_data r) (br_pub_key r) received"

definition witness_report_id :: "(bytes \<Rightarrow> bytes) \<Rightarrow> witness_report \<Rightarrow> timestamp \<Rightarrow> bytes" where
  "witness_report_id blake3 r received = report_id blake3 (wr_data r) (wr_pub_key r) received"

definition beacon_ingest_id :: "(bytes \<Rightarrow> bytes) \<Rightarrow> beacon_ingest \<Rightarrow> bytes" where
  "beacon_ingest_id blake3 b = report_id blake3 (br_data (bi_report b)) (br_pub_key (bi_report b)) (bi_received b)"

definition witness_ingest_id :: "(bytes \<Rightarrow> bytes) \<Rightarrow> witness_ingest \<Rightarrow> bytes" where
  "witness_ingest_id blake3 w = report_id blake3 (wr_data (wi_report w)) (wr_pub_key (wi_report w)) (wi_received w)"

section \<open>Reward units\<close>

datatype run_error = DbError | DecodeError | RegionError | RunnerPanic | NotFound | InvalidExponent

definition WITNESS_REDUNDANCY :: u32 where "WITNESS_REDUNDANCY = 4"
definition POC_REWARD_DECAY_RATE :: rat where "POC_REWARD_DECAY_RATE = 8 / 10"
definition HIP15_TX_REWARD_UNIT_CAP :: rat where "HIP15_TX_REWARD_UNIT_CAP = 2"

definition poc_beaconer_reward_unit :: "decimal_ops \<Rightarrow> u32 \<Rightarrow> run_error + rat" where
  "poc_beaconer_reward_unit D num_witnesses =
     map_sum (\<lambda>e. e) (round_dp SCALING_PRECISION)
       (if num_witnesses = 0 then Inr 0
        else if num_witnesses \<le> WITNESS_REDUNDANCY then Inr (of_nat (unat num_witnesses) / of_nat (unat WITNESS_REDUNDANCY))
        else case d_powu D POC_REWARD_DECAY_RATE (unat (num_witnesses - WITNESS_REDUNDANCY)) of
               Some to_sub \<Rightarrow> Inr (min HIP15_TX_REWARD_UNIT_CAP (d_sub D 2 to_sub))
             | None \<Rightarrow> Inl InvalidExponent)"

definition poc_per_witness_reward_unit :: "decimal_ops \<Rightarrow> u32 \<Rightarrow> run_error + rat" where
  "poc_per_witness_reward_unit D num_witnesses =
     map_sum (\<lambda>e. e) (round_dp SCALING_PRECISION)
       (if num_witnesses = 0 then Inr 0
        else if num_witnesses \<le> WITNESS_REDUNDANCY then Inr 1
        else case d_powu D POC_REWARD_DECAY_RATE (unat (num_witnesses - WITNESS_REDUNDANCY)) of
               Some to_sub \<Rightarrow>
                 Inr (min HIP15_TX_REWARD_UNIT_CAP
                   (d_div D (d_sub D (of_nat (unat WITNESS_REDUNDANCY)) (d_sub D 1 to_sub)) (of_nat (unat num_witnesses))))
             | None \<Rightarrow> Inl InvalidExponent)"

section \<open>Selecting witnesses\<close>

definition sort_and_split_witnesses :: "nat \<Rightarrow> verified_witness list \<Rightarrow> verified_witness list \<times> verified_witness list" where
  "sort_and_split_witnesses max_count witnesses =
     (if length witnesses \<le> max_count then (witnesses, [])
      else let sorted = sort_key vw_received witnesses in (take max_count sorted, drop max_count sorted))"

datatype filter_status = FilterDrop | FilterInclude

definition filter_witness :: "invalid_reason \<Rightarrow> filter_status" where
  "filter_witness reason = (case reason of SelfWitness \<Rightarrow> FilterDrop | _ \<Rightarrow> FilterInclude)"

definition filter_witnesses :: "verified_witness list \<Rightarrow> verified_witness list \<times> verified_witness list" where
  "filter_witnesses witnesses =
     partition (\<lambda>w. vw_status w = StatusValid) (filter (\<lambda>w. filter_witness (vw_reason w) = FilterInclude) witnesses)"

section \<open>The runner\<close>

record invalid_beacon =
  ivb_received :: timestamp
  ivb_reason :: invalid_reason
  ivb_details :: "u64 option"
  ivb_report :: beacon_report
  ivb_location :: "u64 option"
  ivb_gain :: i32
  ivb_elevation :: i32

record invalid_witness =
  ivw_received :: timestamp
  ivw_reason :: invalid_reason
  ivw_details :: "u64 option"
  ivw_report :: witness_report
  ivw_side :: participant_side

text \<open>Decoding of stored reports and the hash are parameters.\<close>

record ('b, 'p) run_env = "('b, 'p) poc_env" +
  re_decimal :: decimal_ops
  re_blake3 :: "bytes \<Rightarrow> bytes"
  re_decode_beacon :: "bytes \<Rightarrow> beacon_ingest option"
  re_decode_witness :: "bytes \<Rightarrow> witness_ingest option"

record runner =
  rn_beacon_interval :: duration
  rn_max_witnesses :: u64
  rn_beacon_retries :: u64
  rn_witness_retries :: u64
  rn_deny_list :: deny_list
  rn_gateways :: "iot_key \<rightharpoonup> gateway_info"
  rn_density :: "u64 \<rightharpoonup> rat"

text \<open>What the verifier works on: its tables, the cache of regions, and what was written to the
  sinks. The next record says how the calls of one run of a handler end; a sink answers for the
  \<open>n\<close>-th witness report.\<close>

record 'p iot_world =
  w_reports :: "report list"
  w_last_beacons :: "last_beacon list"
  w_shares :: "poc_share list"
  w_regions :: "region \<rightharpoonup> 'p"
  w_pocs :: "iot_poc list"
  w_invalid_beacons :: "invalid_beacon list"
  w_invalid_witnesses :: "invalid_witness list"

record 'p answers =
  an_region :: "region \<Rightarrow> run_error + 'p"
  an_read_witnesses :: bool
  an_read_last_beacon :: bool
  an_save_shares :: bool
  an_write_poc :: bool
  an_write_beacon :: bool
  an_write_witness :: "nat \<Rightarrow> bool"
  an_update_last_beacon :: bool
  an_delete :: bool
  an_attempts :: bool

definition bump_attempts :: "'p answers \<Rightarrow> bytes \<Rightarrow> timestamp \<Rightarrow> 'p iot_world \<Rightarrow> (run_error + unit) \<times> 'p iot_world" where
  "bump_attempts an key now w =
     (if an_attempts an then
        case update_attempts key now (w_reports w) of
          None \<Rightarrow> (Inl DbError, w)
        | Some reports \<Rightarrow> (Inr (), w\<lparr>w_reports := reports\<rparr>)
      else (Inl DbError, w))"

definition remove_poc :: "'p answers \<Rightarrow> bytes \<Rightarrow> 'p iot_world \<Rightarrow> (run_error + unit) \<times> 'p iot_world" where
  "remove_poc an packet_data w =
     (if an_delete an then (Inr (), w\<lparr>w_reports := delete_poc packet_data (w_reports w)\<rparr>) else (Inl DbError, w))"

definition handle_valid_poc ::
  "(bytes \<Rightarrow> bytes) \<Rightarrow> 'p answers \<Rightarrow> timestamp \<Rightarrow> valid_beacon \<Rightarrow> verified_witness list \<Rightarrow> verified_witness list \<Rightarrow>
   'p iot_world \<Rightarrow> (run_error + unit) \<times> 'p iot_world" where
  "handle_valid_poc blake3 an now beacon selected unselected w =
     (let beacon_id = beacon_report_id blake3 (bv_report beacon) (bv_received beacon);
          iot_poc = \<lparr>ip_id = beacon_id, ip_beacon = beacon, ip_selected = selected, ip_unselected = unselected\<rparr>
      in if an_save_shares an then
           let w = w\<lparr>w_shares := foldl (\<lambda>t s. fst (save_poc_share s t)) (w_shares w) (shares_from_poc iot_poc)\<rparr>
           in if an_write_poc an then
                let w = w\<lparr>w_pocs := w_pocs w @ [iot_poc]\<rparr>
                in if an_update_last_beacon an then
                     remove_poc an (br_data (bv_report beacon))
                       (w\<lparr>w_last_beacons := update_last_timestamp (br_pub_key (bv_report beacon)) (bv_received beacon) (w_last_beacons w)\<rparr>)
                   else (Inl DbError, w)
              else bump_attempts an beacon_id now w
         else (Inl DbError, w))"

definition invalid_witness_of :: "invalid_reason \<Rightarrow> u64 option \<Rightarrow> witness_ingest \<Rightarrow> invalid_witness" where
  "invalid_witness_of reason details wi = \<lparr>ivw_received = wi_received wi, ivw_reason = reason, ivw_details = details,
     ivw_report = wi_report wi, ivw_side = BeaconerSide\<rparr>"

definition invalid_beacon_of :: "verify_beacon_result \<Rightarrow> beacon_ingest \<Rightarrow> invalid_beacon" where
  "invalid_beacon_of vb b =
     (let (location, elevation, gain) =
        (case vb_info vb of
           Some info \<Rightarrow>
             (case gi_metadata info of
                Some md \<Rightarrow> (Some (gm_location md), gm_elevation md, gm_gain md)
              | None \<Rightarrow> (None, 0, 0))
         | None \<Rightarrow> (None, 0, 0))
      in \<lparr>ivb_received = bi_received b, ivb_reason = vb_reason vb, ivb_details = vb_details vb, ivb_report = bi_report b,
          ivb_location = location, ivb_gain = gain, ivb_elevation = elevation\<rparr>)"

definition handle_invalid_poc ::
  "(bytes \<Rightarrow> bytes) \<Rightarrow> 'p answers \<Rightarrow> timestamp \<Rightarrow> verify_beacon_result \<Rightarrow> beacon_ingest \<Rightarrow> witness_ingest list \<Rightarrow>
   'p iot_world \<Rightarrow> (run_error + unit) \<times> 'p iot_world" where
  "handle_invalid_poc blake3 an now vb b witnesses w =
     (if an_write_beacon an then
        let w = w\<lparr>w_invalid_beacons := w_invalid_beacons w @ [invalid_beacon_of vb b],
                  w_invalid_witnesses := w_invalid_witnesses w @
                    map (\<lambda>(n, wi). invalid_witness_of (vb_reason vb) (vb_details vb) wi)
                      (filter (\<lambda>(n, wi). an_write_witness an n) (enumerate 0 witnesses))\<rparr>
        in remove_poc an (br_data (bi_report b)) w
      else bump_attempts an (beacon_ingest_id blake3 b) now w)"

fun decode_all :: "(bytes \<Rightarrow> 'a option) \<Rightarrow> report list \<Rightarrow> 'a list option" where
  "decode_all dec [] = Some []"
| "decode_all dec (r # rs) =
     (case dec (rp_report_data r) of
        None \<Rightarrow> None
      | Some x \<Rightarrow> map_option ((#) x) (decode_all dec rs))"

definition set_reward_unit :: "rat \<Rightarrow> verified_witness \<Rightarrow> verified_witness" where
  "set_reward_unit unit_value w = (case vw_status w of
     StatusValid \<Rightarrow> w\<lparr>vw_reward_unit := unit_value\<rparr> | StatusInvalid \<Rightarrow> w\<lparr>vw_reward_unit := 0\<rparr>)"

text \<open>The part of the handler that deals with a valid beacon. Witnesses never fail to be verified
  (the error type of the gateway cache is empty), so the branch for failed witnesses is not
  reached.\<close>

definition reward_poc ::
  "('b, 'p, 'z) run_env_scheme \<Rightarrow> runner \<Rightarrow> 'p answers \<Rightarrow> timestamp \<Rightarrow> poc \<Rightarrow> verify_beacon_result \<Rightarrow> gateway_info \<Rightarrow>
   'p iot_world \<Rightarrow> (run_error + unit) \<times> 'p iot_world" where
  "reward_poc env rn an now p vb beacon_info w =
     (let verified = verify_witnesses env (rn_density rn) (rn_gateways rn) (rn_deny_list rn) p beacon_info;
          (valid, invalid) = filter_witnesses verified;
          (selected, surplus) = sort_and_split_witnesses (unat (rn_max_witnesses rn)) valid;
          unselected = surplus @ invalid;
          n = of_nat (length selected) :: u32
      in case poc_beaconer_reward_unit (re_decimal env) n of
           Inl e \<Rightarrow> (Inl e, w)
         | Inr beaconer_unit \<Rightarrow>
             (case poc_per_witness_reward_unit (re_decimal env) n of
                Inl e \<Rightarrow> (Inl e, w)
              | Inr witness_unit \<Rightarrow>
                  let (location, gain, elevation) =
                    (case gi_metadata beacon_info of
                       Some md \<Rightarrow> (Some (gm_location md), gm_gain md, gm_elevation md)
                     | None \<Rightarrow> (None, 0, 0))
                  in case vb_hex_scale vb of
                       None \<Rightarrow> (Inl NotFound, w)
                     | Some scale \<Rightarrow>
                         handle_valid_poc (re_blake3 env) an now
                           \<lparr>bv_received = bi_received (p_beacon p), bv_location = location, bv_gain = gain,
                            bv_elevation = elevation, bv_hex_scale = scale, bv_report = bi_report (p_beacon p),
                            bv_reward_unit = beaconer_unit\<rparr>
                           (map (set_reward_unit witness_unit) selected) unselected w))"

definition handle_beacon_report ::
  "('b, 'p, 'z) run_env_scheme \<Rightarrow> runner \<Rightarrow> 'p answers \<Rightarrow> timestamp \<Rightarrow> report \<times> timestamp \<times> i32 \<Rightarrow>
   'p iot_world \<Rightarrow> (run_error + unit) \<times> 'p iot_world" where
  "handle_beacon_report env rn an now row w =
     (case row of (db_beacon, entropy_start, entropy_version) \<Rightarrow>
        case re_decode_beacon env (rp_report_data db_beacon) of
          None \<Rightarrow> (Inl DecodeError, w)
        | Some b \<Rightarrow>
            if \<not> an_read_witnesses an then (Inl DbError, w)
            else case decode_all (re_decode_witness env)
                   (get_witnesses_for_beacon (rp_packet_data db_beacon) (rn_witness_retries rn) (w_reports w)) of
              None \<Rightarrow> (Inl DecodeError, w)
            | Some witnesses \<Rightarrow>
                let p = new_poc b witnesses entropy_start entropy_version
                in case verify_beacon env (rn_density rn) (rn_gateways rn) (w_regions w) (an_region an)
                       (if an_read_last_beacon an then read_last_beacon (w_last_beacons w) else (\<lambda>_. Inl DbError))
                       (rn_beacon_interval rn) (rn_deny_list rn) p of
                     None \<Rightarrow> (Inl RunnerPanic, w)
                   | Some (regions, Inl e) \<Rightarrow> (Inl e, w\<lparr>w_regions := regions\<rparr>)
                   | Some (regions, Inr vb) \<Rightarrow>
                       let w = w\<lparr>w_regions := regions\<rparr>
                       in case vb_result vb of
                            StatusValid \<Rightarrow>
                              (case vb_info vb of
                                 Some info \<Rightarrow> reward_poc env rn an now p vb info w
                               | None \<Rightarrow> (Inr (), w))
                          | StatusInvalid \<Rightarrow> handle_invalid_poc (re_blake3 env) an now vb b witnesses w)"

text \<open>A tick handles the beacons that are ready; the attempts of one that ends in an error are
  raised. A panic of a handler ends the task. The handlers of a tick run concurrently, here one
  after the other in the order of the list.\<close>

fun handle_beacons ::
  "('b, 'p, 'z) run_env_scheme \<Rightarrow> runner \<Rightarrow> (nat \<Rightarrow> 'p answers) \<Rightarrow> timestamp \<Rightarrow> nat \<Rightarrow> (report \<times> timestamp \<times> i32) list \<Rightarrow>
   'p iot_world \<Rightarrow> 'p iot_world option" where
  "handle_beacons env rn ans now n [] w = Some w"
| "handle_beacons env rn ans now n (row # rows) w =
     (case handle_beacon_report env rn (ans n) now row w of
        (Inr (), w') \<Rightarrow> handle_beacons env rn ans now (Suc n) rows w'
      | (Inl e, w') \<Rightarrow>
          if e = RunnerPanic then None
          else handle_beacons env rn ans now (Suc n) rows (snd (bump_attempts (ans n) (rp_id (fst row)) now w')))"

definition handle_db_tick ::
  "('b, 'p, 'z) run_env_scheme \<Rightarrow> runner \<Rightarrow> bool \<Rightarrow> (nat \<Rightarrow> 'p answers) \<Rightarrow> timestamp \<Rightarrow> entropy list \<Rightarrow> 'p iot_world \<Rightarrow> 'p iot_world option" where
  "handle_db_tick env rn read_ok ans now entropies w =
     (if read_ok then handle_beacons env rn ans now 0 (get_next_beacons now (rn_beacon_retries rn) entropies (w_reports w)) w
      else Some w)"

definition handle_denylist_tick ::
  "(bytes \<Rightarrow> deny_filter option) \<Rightarrow> (deny_filter \<Rightarrow> 'k \<Rightarrow> bool) \<Rightarrow> 'k list \<Rightarrow>
   'e + u64 \<Rightarrow> (string \<times> ('e + bytes)) list \<Rightarrow> runner \<Rightarrow> runner" where
  "handle_denylist_tick from_bytes verifies sign_keys new_tag assets rn =
     rn\<lparr>rn_deny_list := fst (update_to_latest from_bytes verifies sign_keys new_tag assets (rn_deny_list rn))\<rparr>"

section \<open>Reward units\<close>

lemma decay_bounds:
  assumes "decimal_laws D" "d_powu D POC_REWARD_DECAY_RATE n = Some r" "0 < n"
  shows "0 \<le> r \<and> r \<le> 8 / 10"
proof -
  obtain m where n: "n = Suc m" using assms(3) gr0_implies_Suc by blast
  define c :: rat where "c = 8 / 10"
  have c: "0 \<le> c" "c < 1" by (simp_all add: c_def)
  have "c ^ m \<le> 1" using power_le_one [OF c(1)] c(2) by simp
  then have p: "0 \<le> c ^ n" "c ^ n \<le> c" using c mult_left_le [of "c ^ m" c] by (simp_all add: n)
  then have "in_range (c ^ n)" using c(2) by simp
  then have "rounds_to (c ^ n) r"
    using assms(1,2) unfolding decimal_laws_def POC_REWARD_DECAY_RATE_def c_def by blast
  moreover have "representable (8 / 10)" using representable_frac [of 8 1] by simp
  ultimately show ?thesis
    using rounds_to_between [of "c ^ n" r 0 c] p unfolding c_def by simp
qed

lemma d_sub_bounds:
  assumes "decimal_laws D" "representable lo" "representable hi" "lo \<le> x - y" "x - y \<le> hi" "in_range lo" "in_range hi"
  shows "lo \<le> d_sub D x y \<and> d_sub D x y \<le> hi"
proof -
  have "in_range (x - y)" using assms(4-7) by linarith
  then have "rounds_to (x - y) (d_sub D x y)" using assms(1) unfolding decimal_laws_def by blast
  then show ?thesis using rounds_to_between assms(2-5) by blast
qed

lemma beaconer_unit_bounds:
  assumes "decimal_laws D" "poc_beaconer_reward_unit D n = Inr u"
  shows "0 \<le> u \<and> u \<le> 2"
proof -
  have "\<exists>x. u = round_dp SCALING_PRECISION x \<and> 0 \<le> x \<and> x \<le> 2"
  proof (cases "n \<le> WITNESS_REDUNDANCY")
    case True
    then have "unat n \<le> 4" by (simp add: WITNESS_REDUNDANCY_def word_le_nat_alt)
    then have "of_nat (unat n) \<le> (of_nat 4 :: rat)" unfolding of_nat_le_iff .
    then have q: "0 \<le> of_nat (unat n) / (4 :: rat)" "of_nat (unat n) / (4 :: rat) \<le> 2" by (simp_all del: of_nat_unat)
    have "u = round_dp SCALING_PRECISION 0 \<or> u = round_dp SCALING_PRECISION (of_nat (unat n) / 4)" using assms(2) True
      by (auto simp: poc_beaconer_reward_unit_def WITNESS_REDUNDANCY_def split: if_splits)
    then show ?thesis using q by (metis order_refl zero_le_numeral)
  next
    case False
    then have n: "0 < unat (n - WITNESS_REDUNDANCY)" "n \<noteq> 0"
      by (auto simp: unat_gt_0 WITNESS_REDUNDANCY_def)
    obtain r where r: "d_powu D POC_REWARD_DECAY_RATE (unat (n - WITNESS_REDUNDANCY)) = Some r"
      "u = round_dp SCALING_PRECISION (min HIP15_TX_REWARD_UNIT_CAP (d_sub D 2 r))"
      using assms(2) False n by (auto simp: poc_beaconer_reward_unit_def split: option.splits)
    have "0 \<le> r \<and> r \<le> 8 / 10" using decay_bounds [OF assms(1) r(1) n(1)] .
    then have "0 \<le> d_sub D 2 r \<and> d_sub D 2 r \<le> 2" using d_sub_bounds [OF assms(1), of 0 2 2 r] by simp
    then show ?thesis using r(2) by (auto simp: HIP15_TX_REWARD_UNIT_CAP_def)
  qed
  then show ?thesis using round_dp_bounds [of 0 _ 2] by auto
qed

lemma witness_unit_bounds:
  assumes "decimal_laws D" "poc_per_witness_reward_unit D n = Inr u"
  shows "0 \<le> u \<and> u \<le> 1 \<and> of_nat (unat n) * u \<le> 4 + of_nat (unat n) / 10 ^ 4"
proof (cases "n \<le> WITNESS_REDUNDANCY")
  case True
  then have "unat n \<le> 4" by (simp add: WITNESS_REDUNDANCY_def word_le_nat_alt)
  then have "of_nat (unat n) \<le> (of_nat 4 :: rat)" unfolding of_nat_le_iff .
  moreover have "0 \<le> (of_nat (unat n) :: rat)" by (rule of_nat_0_le_iff)
  moreover have "u = 0 \<or> u = 1" using assms(2) True round_dp_bounds [of 0 0 0] round_dp_bounds [of 1 1 1]
    by (auto simp: poc_per_witness_reward_unit_def split: if_splits intro: order_antisym)
  ultimately show ?thesis by (auto simp del: of_nat_unat)
next
  case False
  define N :: rat where "N = of_nat (unat n)"
  have n: "0 < unat (n - WITNESS_REDUNDANCY)" "n \<noteq> 0" "5 \<le> unat n"
    using False by (auto simp: unat_gt_0 WITNESS_REDUNDANCY_def word_le_nat_alt)
  obtain r where r: "d_powu D POC_REWARD_DECAY_RATE (unat (n - WITNESS_REDUNDANCY)) = Some r"
    "u = round_dp SCALING_PRECISION (min HIP15_TX_REWARD_UNIT_CAP (d_div D (d_sub D 4 (d_sub D 1 r)) N))"
    using assms(2) False n by (auto simp: poc_per_witness_reward_unit_def WITNESS_REDUNDANCY_def N_def split: option.splits)
  have "0 \<le> r \<and> r \<le> 8 / 10" using decay_bounds [OF assms(1) r(1) n(1)] .
  then have a: "0 \<le> d_sub D 1 r \<and> d_sub D 1 r \<le> 1" using d_sub_bounds [OF assms(1), of 0 1 1 r] by simp
  define x where "x = d_sub D 4 (d_sub D 1 r)"
  have rep: "representable 3" "representable 4" using representable_int [of 3] representable_int [of 4] by simp_all
  have x: "3 \<le> x" "x \<le> 4" using d_sub_bounds [OF assms(1) rep, of 4 "d_sub D 1 r"] a unfolding x_def by simp_all
  have N: "5 \<le> N" using n(3) unfolding N_def by (metis of_nat_le_iff of_nat_numeral)
  define q where "q = x / N"
  have q: "0 \<le> q" "q \<le> 1" "N * q = x" using x N unfolding q_def by (simp_all add: divide_le_eq_1)
  have "N \<noteq> 0" "in_range q" using N q by simp_all
  then have div: "rounds_to q (d_div D x N)" using assms(1) unfolding decimal_laws_def q_def by blast
  have d: "0 \<le> d_div D x N" "d_div D x N \<le> 1" using rounds_to_between [OF div, of 0 1] q by simp_all
  have "\<bar>q\<bar> * 10 ^ 9 + 1 < 2 ^ 96" using q by simp
  from rounds_to_error [OF div _ this] have "\<bar>d_div D x N - q\<bar> \<le> 1 / 10 ^ 9" by simp
  then have e: "d_div D x N \<le> q + 1 / 10 ^ 9" by linarith
  have u: "u = round_dp SCALING_PRECISION (d_div D x N)" using r(2) d(2) by (simp add: x_def HIP15_TX_REWARD_UNIT_CAP_def min_def)
  have "\<bar>u - d_div D x N\<bar> \<le> 1 / 20000" using round_dp_error [of SCALING_PRECISION "d_div D x N"] by (simp add: u SCALING_PRECISION_def)
  then have "u \<le> d_div D x N + 1 / 20000" unfolding abs_le_iff by simp
  then have "u \<le> q + 1 / 10 ^ 4" using e by simp
  then have "N * u \<le> N * (q + 1 / 10 ^ 4)" using N by (intro mult_left_mono) simp_all
  also have "\<dots> = x + N / 10 ^ 4" using q(3) by (simp add: distrib_left)
  finally have "N * u \<le> 4 + N / 10 ^ 4" using x(2) by simp
  then show ?thesis using round_dp_bounds [of 0 "d_div D x N" 1] d unfolding u N_def by simp
qed

section \<open>Saving shares twice\<close>

definition share_key :: "poc_share \<Rightarrow> iot_key \<times> bytes" where
  "share_key s = (ps_hotspot s, ps_poc_id s)"

definition save_shares :: "poc_share list \<Rightarrow> poc_share list \<Rightarrow> poc_share list" where
  "save_shares ss t = foldl (\<lambda>t s. fst (save_poc_share s t)) t ss"

lemma save_poc_share_key:
  "fst (save_poc_share s []) = [s]"
  "fst (save_poc_share s (r # rs)) = (if share_key r = share_key s then s # rs else r # fst (save_poc_share s rs))"
  by (simp, cases r, cases s, simp add: share_key_def split_beta Let_def)

declare save_poc_share.simps [simp del] save_poc_share_key [simp]

declare save_poc_share.simps [simp del]

lemma save_poc_share_eq:
  assumes "distinct (map share_key t)"
  shows "fst (save_poc_share s t) =
    (if share_key s \<in> share_key ` set t then map (\<lambda>r. if share_key r = share_key s then s else r) t else t @ [s])"
  using assms
proof (induction t)
  case (Cons r t)
  then have "map (\<lambda>r. if share_key r = share_key s then s else r) t = t" if "share_key r = share_key s"
    using that by (intro map_idI) (auto simp: image_iff)
  then show ?case using Cons by auto
qed simp

lemma save_poc_share_keys:
  assumes "distinct (map share_key t)"
  shows "map share_key (fst (save_poc_share s t)) =
    (if share_key s \<in> share_key ` set t then map share_key t else map share_key t @ [share_key s])"
  unfolding save_poc_share_eq [OF assms] by simp

lemma save_poc_share_lookup:
  assumes "distinct (map share_key t)"
  shows "map_of (map (\<lambda>r. (share_key r, r)) (fst (save_poc_share s t))) k =
    (if k = share_key s then Some s else map_of (map (\<lambda>r. (share_key r, r)) t) k)"
  by (induction t) auto

lemma save_shares_distinct: "distinct (map share_key t) \<Longrightarrow> distinct (map share_key (save_shares ss t))"
proof (induction ss arbitrary: t)
  case (Cons s ss)
  have "distinct (map share_key (fst (save_poc_share s t)))"
    using Cons.prems unfolding save_poc_share_keys [OF Cons.prems] by auto
  then show ?case using Cons.IH by (simp add: save_shares_def)
qed (simp add: save_shares_def)

lemma save_shares_known:
  assumes "distinct (map share_key t)" "share_key ` set ss \<subseteq> share_key ` set t"
  shows "map share_key (save_shares ss t) = map share_key t"
  using assms
proof (induction ss arbitrary: t)
  case (Cons s ss)
  let ?t = "fst (save_poc_share s t)"
  have k: "map share_key ?t = map share_key t" using save_poc_share_keys [OF Cons.prems(1), of s] Cons.prems(2) by simp
  then have "share_key ` set ?t = share_key ` set t" "distinct (map share_key ?t)" using Cons.prems(1) by (metis list.set_map, simp)
  then show ?case using Cons k by (simp add: save_shares_def)
qed (simp add: save_shares_def)

lemma save_shares_saved: "distinct (map share_key t) \<Longrightarrow> share_key ` set ss \<subseteq> share_key ` set (save_shares ss t) \<and>
  share_key ` set t \<subseteq> share_key ` set (save_shares ss t)"
proof (induction ss arbitrary: t)
  case (Cons s ss)
  let ?t = "fst (save_poc_share s t)"
  have k: "map share_key ?t = (if share_key s \<in> share_key ` set t then map share_key t else map share_key t @ [share_key s])"
    using save_poc_share_keys [OF Cons.prems] .
  have "set (map share_key ?t) = insert (share_key s) (share_key ` set t)" unfolding k by auto
  moreover have "distinct (map share_key ?t)" using Cons.prems unfolding k by auto
  ultimately show ?case using Cons.IH [of ?t] by (auto simp: save_shares_def)
qed (simp add: save_shares_def)

lemma save_shares_lookup:
  "distinct (map share_key t) \<Longrightarrow> map_of (map (\<lambda>r. (share_key r, r)) (save_shares ss t)) k =
    (case find (\<lambda>s. share_key s = k) (rev ss) of Some s \<Rightarrow> Some s | None \<Rightarrow> map_of (map (\<lambda>r. (share_key r, r)) t) k)"
proof (induction ss arbitrary: t)
  case (Cons s ss)
  let ?t = "fst (save_poc_share s t)"
  have "distinct (map share_key ?t)" using Cons.prems unfolding save_poc_share_keys [OF Cons.prems] by auto
  note IH = Cons.IH [OF this]
  have f: "find P (xs @ ys) = (case find P xs of Some x \<Rightarrow> Some x | None \<Rightarrow> find P ys)" for P and xs ys :: "poc_share list"
    by (induction xs) auto
  have "save_shares (s # ss) t = save_shares ss ?t" by (simp add: save_shares_def)
  then show ?case using IH save_poc_share_lookup [OF Cons.prems, of s k] by (simp add: f split: option.splits)
qed (simp add: save_shares_def)

lemma table_ext:
  assumes "map share_key t = map share_key t'" "distinct (map share_key t)"
    "\<And>k. map_of (map (\<lambda>r. (share_key r, r)) t) k = map_of (map (\<lambda>r. (share_key r, r)) t') k"
  shows "t = t'"
proof (rule nth_equalityI)
  show len: "length t = length t'" using assms(1) by (metis length_map)
  fix i assume i: "i < length t"
  have look: "map_of (map (\<lambda>r. (share_key r, r)) u) (share_key (u ! i)) = Some (u ! i)"
    if "i < length u" "distinct (map share_key u)" for u
    by (rule map_of_is_SomeI) (use that in \<open>auto simp: comp_def\<close>)
  have "share_key (t ! i) = share_key (t' ! i)" using assms(1) i len by (metis nth_map)
  then show "t ! i = t' ! i" using look [of t] look [of t'] i len assms by (metis option.inject)
qed

lemma save_shares_twice:
  assumes "distinct (map share_key t)"
  shows "save_shares ss (save_shares ss t) = save_shares ss t"
proof (rule table_ext)
  let ?t = "save_shares ss t"
  have d: "distinct (map share_key ?t)" by (rule save_shares_distinct [OF assms])
  have "share_key ` set ss \<subseteq> share_key ` set ?t" using save_shares_saved [OF assms] by simp
  then show "map share_key (save_shares ss ?t) = map share_key ?t" by (rule save_shares_known [OF d])
  then show "distinct (map share_key (save_shares ss ?t))" using d by simp
  show "map_of (map (\<lambda>r. (share_key r, r)) (save_shares ss ?t)) k = map_of (map (\<lambda>r. (share_key r, r)) ?t) k" for k
    unfolding save_shares_lookup [OF d] save_shares_lookup [OF assms] by (simp split: option.split)
qed

section \<open>What a run of the handler does\<close>

text \<open>The part of a report that the handlers of a beacon never change.\<close>

definition report_body :: "report \<Rightarrow> bytes \<times> bytes \<times> bytes \<times> bytes \<times> report_type \<times> iot_status" where
  "report_body r = (rp_id r, rp_remote_entropy r, rp_packet_data r, rp_report_data r, rp_type r, rp_status r)"

lemma update_attempts_bodies:
  "update_attempts key now t = Some t' \<Longrightarrow> map report_body t' = map report_body t"
  by (auto simp: update_attempts_def report_body_def split: if_splits)

lemma bump_attempts_effect:
  assumes "bump_attempts an key now w = (res, w')"
  shows "\<exists>reports. w' = w\<lparr>w_reports := reports\<rparr> \<and> map report_body reports = map report_body (w_reports w)"
proof (cases "an_attempts an \<and> update_attempts key now (w_reports w) \<noteq> None")
  case True
  then obtain t where t: "update_attempts key now (w_reports w) = Some t" by blast
  show ?thesis using assms True t update_attempts_bodies [OF t] by (intro exI [of _ t]) (simp add: bump_attempts_def)
next
  case False
  then have "w' = w" using assms by (auto simp: bump_attempts_def split: if_splits option.splits)
  then show ?thesis by (intro exI [of _ "w_reports w"]) simp
qed

text \<open>A run of the handler decides a beacon by writing a proof or an invalid beacon, at most one,
  and the reports of its packet are removed only then.\<close>

definition decides :: "beacon_ingest \<Rightarrow> 'p iot_world \<Rightarrow> 'p iot_world \<Rightarrow> iot_poc list \<Rightarrow> invalid_beacon list \<Rightarrow> bool" where
  "decides b w w' pocs invalids \<longleftrightarrow>
     w_pocs w' = w_pocs w @ pocs \<and> w_invalid_beacons w' = w_invalid_beacons w @ invalids \<and>
     (\<exists>ws. w_invalid_witnesses w' = w_invalid_witnesses w @ ws) \<and> length pocs + length invalids \<le> 1 \<and>
     list_all (\<lambda>p. bv_report (ip_beacon p) = bi_report b \<and> bv_received (ip_beacon p) = bi_received b) pocs \<and>
     list_all (\<lambda>i. ivb_report i = bi_report b \<and> ivb_received i = bi_received b) invalids \<and>
     (map report_body (w_reports w') = map report_body (w_reports w) \<or>
      w_reports w' = delete_poc (br_data (bi_report b)) (w_reports w) \<and> length pocs + length invalids = 1)"

lemma decides_nothing:
  "w_pocs w' = w_pocs w \<Longrightarrow> w_invalid_beacons w' = w_invalid_beacons w \<Longrightarrow> w_invalid_witnesses w' = w_invalid_witnesses w \<Longrightarrow>
   map report_body (w_reports w') = map report_body (w_reports w) \<Longrightarrow> decides b w w' [] []"
  by (simp add: decides_def)

lemma handle_valid_poc_decides:
  assumes "handle_valid_poc blake3 an now vb selected unselected w = (res, w')"
    "bv_report vb = bi_report b" "bv_received vb = bi_received b"
  shows "\<exists>pocs. decides b w w' pocs []"
proof -
  let ?p = "\<lparr>ip_id = beacon_report_id blake3 (bv_report vb) (bv_received vb), ip_beacon = vb, ip_selected = selected, ip_unselected = unselected\<rparr>"
  consider "decides b w w' [] []" | "decides b w w' [?p] []"
  proof (cases "an_save_shares an \<and> \<not> an_write_poc an")
    case True
    then have "decides b w w' [] []" using assms(1)
      by (auto simp: handle_valid_poc_def Let_def dest!: bump_attempts_effect intro!: decides_nothing)
    then show ?thesis by (rule that(1))
  next
    case False
    then have "decides b w w' [] [] \<or> decides b w w' [?p] []" using assms
      by (auto simp: handle_valid_poc_def remove_poc_def Let_def decides_def split: if_splits)
    then show ?thesis using that by blast
  qed
  then show ?thesis by cases blast+
qed

lemma invalid_beacon_of_simps [simp]:
  "ivb_report (invalid_beacon_of vb b) = bi_report b" "ivb_received (invalid_beacon_of vb b) = bi_received b"
  by (simp_all add: invalid_beacon_of_def split: option.splits)

lemma handle_invalid_poc_decides:
  assumes "handle_invalid_poc blake3 an now vb b witnesses w = (res, w')"
  shows "\<exists>invalids. decides b w w' [] invalids"
proof (cases "an_write_beacon an")
  case True
  then have "decides b w w' [] [invalid_beacon_of vb b]" using assms
    by (auto simp: handle_invalid_poc_def remove_poc_def Let_def decides_def split: if_splits)
  then show ?thesis by blast
next
  case False
  then have "decides b w w' [] []" using assms
    by (auto simp: handle_invalid_poc_def dest!: bump_attempts_effect intro!: decides_nothing)
  then show ?thesis by blast
qed

lemma decides_regions [simp]: "decides b (w\<lparr>w_regions := r\<rparr>) w' ps is = decides b w w' ps is"
  by (simp add: decides_def)

lemma reward_poc_decides:
  assumes "reward_poc env rn an now p vb info w = (res, w')"
  shows "\<exists>pocs. decides (p_beacon p) w w' pocs []"
proof -
  obtain valid invalid where f: "filter_witnesses (verify_witnesses env (rn_density rn) (rn_gateways rn) (rn_deny_list rn) p info) = (valid, invalid)"
    by fastforce
  obtain selected surplus where s: "sort_and_split_witnesses (unat (rn_max_witnesses rn)) valid = (selected, surplus)" by fastforce
  have none: "decides (p_beacon p) w w [] []" by (rule decides_nothing) simp_all
  show ?thesis
    using assms none
    by (auto simp: reward_poc_def f s Let_def split: sum.splits option.splits) (erule handle_valid_poc_decides; simp)+
qed

lemma handle_beacon_report_decides:
  assumes "re_decode_beacon env (rp_report_data db_beacon) = Some b"
    "handle_beacon_report env rn an now (db_beacon, e_start, version) w = (res, w')"
  shows "\<exists>pocs invalids. decides b w w' pocs invalids"
proof -
  let ?ws = "decode_all (re_decode_witness env) (get_witnesses_for_beacon (rp_packet_data db_beacon) (rn_witness_retries rn) (w_reports w))"
  have none: "decides b w (w\<lparr>w_regions := r\<rparr>) [] []" "decides b w w [] []" for r by (rule decides_nothing; simp)+
  have new [simp]: "p_beacon (new_poc b ws e_start version) = b" for ws by (simp add: new_poc_def)
  show ?thesis
  proof (cases "an_read_witnesses an \<and> ?ws \<noteq> None")
    case True
    then obtain ws where ws: "?ws = Some ws" "an_read_witnesses an" by blast
    show ?thesis using assms ws none
      by (auto simp: handle_beacon_report_def Let_def split: option.splits prod.splits sum.splits verification_status.splits
        dest!: reward_poc_decides handle_invalid_poc_decides) blast+
  next
    case False
    then have "w' = w" using assms by (auto simp: handle_beacon_report_def split: option.splits if_splits)
    then show ?thesis using none(2) by blast
  qed
qed

text \<open>C10: whatever fails, a run of the handler for a beacon writes at most one record for it, a proof of
  coverage or an invalid beacon that carries the beacon and the time it was received, and
  either keeps every report or, having written the record, removes exactly those of the packet.\<close>

theorem reports_deleted_only_when_decided:
  assumes "re_decode_beacon env (rp_report_data db_beacon) = Some b"
    "handle_beacon_report env rn an now (db_beacon, e_start, version) w = (res, w')"
  shows "\<exists>pocs invalids. decides b w w' pocs invalids"
  by (rule handle_beacon_report_decides [OF assms])

section \<open>A run without failures\<close>

definition all_ok :: "'p answers \<Rightarrow> bool" where
  "all_ok an \<longleftrightarrow> an_read_witnesses an \<and> an_read_last_beacon an \<and> an_save_shares an \<and> an_write_poc an \<and>
     an_write_beacon an \<and> an_update_last_beacon an \<and> an_delete an \<and> (\<forall>r. \<exists>p. an_region an r = Inr p)"

lemma resolve_region_ok:
  assumes "\<forall>r. \<exists>p. service r = Inr p"
  shows "\<exists>cache' p. resolve_region_info cache service reg = (cache', Inr p)"
proof -
  obtain p where "service reg = Inr p" using assms by blast
  then show ?thesis by (cases "cache reg") (auto simp: resolve_region_info_def)
qed

lemma do_beacon_verifications_no_panic:
  assumes "\<forall>t. pe_trunc env interval t \<noteq> None"
  shows "do_beacon_verifications env dl es ee v lb b info params interval \<noteq> Inl PocPanic"
proof -
  from assms have "\<forall>t. \<exists>y. pe_trunc env interval t = Some y" by simp
  then obtain bucket where "pe_trunc env interval t = Some (bucket t)" for t by metis
  then show ?thesis
    by (auto simp: do_beacon_verifications_def verify_denylist_def verify_entropy_def verify_gw_capability_def
      verify_beacon_schedule_def verify_beacon_payload_def result_simps split: option.splits if_splits)
qed

lemma verify_beacon_ok:
  assumes "\<forall>t. pe_trunc env interval t \<noteq> None" "\<forall>r. \<exists>p. service r = Inr p"
  shows "\<exists>cache' vb. verify_beacon env density gateways cache service (read_last_beacon table) interval dl p = Some (cache', Inr vb) \<and>
    (vb_result vb = StatusInvalid \<or> (\<exists>info scale. vb = beacon_valid info scale))"
proof (cases "gateways (br_pub_key (bi_report (p_beacon p)))")
  case None
  then show ?thesis by (simp add: verify_beacon_def)
next
  case gw: (Some info)
  show ?thesis
  proof (cases "gi_metadata info")
    case None
    then show ?thesis using gw by (simp add: verify_beacon_def)
  next
    case (Some md)
    obtain c params where r: "resolve_region_info cache service (gm_region md) = (c, Inr params)"
      using resolve_region_ok [OF assms(2)] by blast
    let ?d = "do_beacon_verifications env dl (p_entropy_start p) (p_entropy_end p) (p_entropy_version p)
      (last_beacon_get table (br_pub_key (bi_report (p_beacon p)))) (p_beacon p) info params interval"
    have "?d \<noteq> Inl PocPanic" by (rule do_beacon_verifications_no_panic [OF assms(1)])
    then consider "?d = Inr ()" | reason details where "?d = Inl (Rejected reason details)"
      by (cases ?d) (auto, metis poc_stop.exhaust)
    then show ?thesis
    proof cases
      case 1
      then have "verify_beacon env density gateways cache service (read_last_beacon table) interval dl p =
          Some (c, Inr (beacon_valid info (case density (gm_location md) of Some s \<Rightarrow> s | None \<Rightarrow> DEFAULT_TX_SCALE)))"
        by (simp add: verify_beacon_def gw Some r read_last_beacon_def Let_def split: unit.split)
      then show ?thesis by (intro exI conjI disjI2) (assumption, rule refl)
    next
      case 2
      then show ?thesis by (simp add: verify_beacon_def gw Some r read_last_beacon_def Let_def)
    qed
  qed
qed

lemma units_defined:
  assumes "\<forall>n. d_powu D POC_REWARD_DECAY_RATE n \<noteq> None"
  shows "\<exists>u. poc_beaconer_reward_unit D n = Inr u" "\<exists>u. poc_per_witness_reward_unit D n = Inr u"
proof -
  from assms have "\<forall>n. \<exists>y. d_powu D POC_REWARD_DECAY_RATE n = Some y" by simp
  then obtain decay where "d_powu D POC_REWARD_DECAY_RATE n = Some (decay n)" for n by metis
  then show "\<exists>u. poc_beaconer_reward_unit D n = Inr u" "\<exists>u. poc_per_witness_reward_unit D n = Inr u"
    by (auto simp: poc_beaconer_reward_unit_def poc_per_witness_reward_unit_def)
qed

lemma handle_valid_poc_ok:
  assumes "all_ok an" "handle_valid_poc blake3 an now vb selected unselected w = (res, w')"
  shows "res = Inr () \<and> w_reports w' = delete_poc (br_data (bv_report vb)) (w_reports w) \<and>
    (\<exists>q. w_pocs w' = w_pocs w @ [q]) \<and> w_invalid_beacons w' = w_invalid_beacons w"
  using assms by (auto simp: handle_valid_poc_def all_ok_def remove_poc_def Let_def)

lemma handle_invalid_poc_ok:
  assumes "all_ok an" "handle_invalid_poc blake3 an now vb b witnesses w = (res, w')"
  shows "res = Inr () \<and> w_reports w' = delete_poc (br_data (bi_report b)) (w_reports w) \<and>
    length (w_pocs w') + length (w_invalid_beacons w') = Suc (length (w_pocs w) + length (w_invalid_beacons w))"
  using assms by (auto simp: handle_invalid_poc_def all_ok_def remove_poc_def Let_def)

lemma reward_poc_ok:
  assumes "all_ok an" "\<forall>n. d_powu (re_decimal env) POC_REWARD_DECAY_RATE n \<noteq> None"
    "reward_poc env rn an now p (beacon_valid info scale) info w = (res, w')"
  shows "res = Inr () \<and> w_reports w' = delete_poc (br_data (bi_report (p_beacon p))) (w_reports w) \<and>
    (\<exists>q. w_pocs w' = w_pocs w @ [q]) \<and> w_invalid_beacons w' = w_invalid_beacons w"
proof -
  obtain valid invalid where f: "filter_witnesses (verify_witnesses env (rn_density rn) (rn_gateways rn) (rn_deny_list rn) p info) = (valid, invalid)"
    by fastforce
  obtain selected surplus where s: "sort_and_split_witnesses (unat (rn_max_witnesses rn)) valid = (selected, surplus)" by fastforce
  let ?n = "of_nat (length selected) :: u32"
  obtain ub uw where u: "poc_beaconer_reward_unit (re_decimal env) ?n = Inr ub" "poc_per_witness_reward_unit (re_decimal env) ?n = Inr uw"
    using units_defined [OF assms(2)] by meson
  have scale: "vb_hex_scale (beacon_valid info scale) = Some scale" by (simp add: beacon_valid_def)
  show ?thesis using assms(3) handle_valid_poc_ok [OF assms(1)]
    by (fastforce simp: reward_poc_def f s u scale Let_def split: prod.splits)
qed


section \<open>The selected witnesses\<close>

lemma handle_valid_poc_writes:
  assumes "handle_valid_poc blake3 an now vb selected unselected w = (res, w')" "w_pocs w' = w_pocs w @ [q]"
  shows "q = \<lparr>ip_id = beacon_report_id blake3 (bv_report vb) (bv_received vb), ip_beacon = vb, ip_selected = selected, ip_unselected = unselected\<rparr>"
proof (cases "an_save_shares an \<and> \<not> an_write_poc an")
  case True
  then have "w_pocs w' = w_pocs w" using assms(1) by (auto simp: handle_valid_poc_def Let_def dest!: bump_attempts_effect)
  then show ?thesis using assms(2) by simp
next
  case False
  then show ?thesis using assms by (auto simp: handle_valid_poc_def remove_poc_def Let_def split: if_splits)
qed

lemma sort_and_split_spec:
  assumes "sort_and_split_witnesses m valid = (selected, surplus)"
  shows "mset selected + mset surplus = mset valid \<and> length selected = min m (length valid) \<and>
    (\<forall>s \<in> set selected. \<forall>u \<in> set surplus. vw_received s \<le> vw_received u)"
proof (cases "length valid \<le> m")
  case True
  then show ?thesis using assms by (auto simp: sort_and_split_witnesses_def)
next
  case False
  let ?s = "sort_key vw_received valid"
  have eq: "selected = take m ?s" "surplus = drop m ?s" using assms False by (simp_all add: sort_and_split_witnesses_def Let_def)
  have "selected @ surplus = ?s" unfolding eq by (rule append_take_drop_id)
  moreover have "mset ?s = mset valid" "sorted (map vw_received ?s)" by simp_all
  ultimately have "mset (selected @ surplus) = mset valid" "sorted (map vw_received (selected @ surplus))" by (simp_all only:)
  moreover have "length selected = min m (length valid)" unfolding eq by simp
  ultimately show ?thesis by (simp add: sorted_append image_iff)
qed

lemma filter_witnesses_spec:
  assumes "filter_witnesses verified = (valid, invalid)"
  shows "mset valid + mset invalid = mset (filter (\<lambda>v. vw_reason v \<noteq> SelfWitness) verified) \<and>
    (\<forall>v \<in> set valid. vw_status v = StatusValid) \<and> (\<forall>v \<in> set invalid. vw_status v = StatusInvalid)"
proof -
  let ?i = "filter (\<lambda>v. vw_reason v \<noteq> SelfWitness) verified"
  have "(filter_witness r = FilterInclude) = (r \<noteq> SelfWitness)" for r by (cases r) (simp_all add: filter_witness_def)
  then have split: "valid = filter (\<lambda>v. vw_status v = StatusValid) ?i" "invalid = filter (\<lambda>v. vw_status v \<noteq> StatusValid) ?i"
    using assms by (simp_all add: filter_witnesses_def partition_filter_conv comp_def)
  have "mset (filter P xs) + mset (filter (\<lambda>x. \<not> P x) xs) = mset xs" for P and xs :: "verified_witness list"
    by (induction xs) auto
  from this [of "\<lambda>v. vw_status v = StatusValid" ?i] have "mset valid + mset invalid = mset ?i" unfolding split .
  moreover have "vw_status v \<noteq> StatusValid \<Longrightarrow> vw_status v = StatusInvalid" for v :: verified_witness by (cases "vw_status v") simp_all
  then have "\<forall>v \<in> set valid. vw_status v = StatusValid" "\<forall>v \<in> set invalid. vw_status v = StatusInvalid" unfolding split by auto
  ultimately show ?thesis by blast
qed

text \<open>C18: a proof that is written lists, but for the witness reports of the beaconer itself, every witness
  report once; the selected ones are valid, at most as many as are paid, carry the reward unit of
  their number, and are the earliest received: a valid witness is left out only when the list is full and
  then it was received no earlier than any selected one.\<close>

theorem poc_selects_earliest_valid:
  assumes "reward_poc env rn an now p vb info w = (res, w')" "w_pocs w' = w_pocs w @ [q]"
    "verified = verify_witnesses env (rn_density rn) (rn_gateways rn) (rn_deny_list rn) p info"
  shows "image_mset vw_report (mset (ip_selected q) + mset (ip_unselected q)) =
      image_mset vw_report (mset (filter (\<lambda>v. vw_reason v \<noteq> SelfWitness) verified)) \<and>
    length (ip_selected q) \<le> unat (rn_max_witnesses rn) \<and>
    (\<forall>s \<in> set (ip_selected q). vw_status s = StatusValid \<and>
       poc_per_witness_reward_unit (re_decimal env) (of_nat (length (ip_selected q))) = Inr (vw_reward_unit s)) \<and>
    (\<forall>u \<in> set (ip_unselected q). vw_status u = StatusValid \<longrightarrow>
       length (ip_selected q) = unat (rn_max_witnesses rn) \<and> (\<forall>s \<in> set (ip_selected q). vw_received s \<le> vw_received u))"
proof -
  obtain valid invalid where f: "filter_witnesses verified = (valid, invalid)" by fastforce
  obtain selected surplus where s: "sort_and_split_witnesses (unat (rn_max_witnesses rn)) valid = (selected, surplus)" by fastforce
  have q: "\<exists>unit_value. q = \<lparr>ip_id = ip_id q, ip_beacon = ip_beacon q, ip_selected = map (set_reward_unit unit_value) selected, ip_unselected = surplus @ invalid\<rparr>
      \<and> poc_per_witness_reward_unit (re_decimal env) (of_nat (length selected)) = Inr unit_value"
    using assms(1,2) handle_valid_poc_writes
    by (fastforce simp: reward_poc_def f s Let_def assms(3) [symmetric] split: sum.splits option.splits)
  then obtain u where sel: "ip_selected q = map (set_reward_unit u) selected" "ip_unselected q = surplus @ invalid"
    "poc_per_witness_reward_unit (re_decimal env) (of_nat (length selected)) = Inr u" by (metis iot_poc.select_convs(3,4))
  note fs = filter_witnesses_spec [OF f] and ss = sort_and_split_spec [OF s]
  have sub: "set selected \<subseteq> set valid" "set surplus \<subseteq> set valid" using ss by (metis set_mset_mset set_mset_union Un_upper1 Un_upper2)+
  have keeps: "vw_report (set_reward_unit u v) = vw_report v" "vw_status (set_reward_unit u v) = vw_status v"
    "vw_received (set_reward_unit u v) = vw_received v" for v by (cases "vw_status v"; simp add: set_reward_unit_def)+
  have unit_of: "vw_status v = StatusValid \<Longrightarrow> vw_reward_unit (set_reward_unit u v) = u" for v by (simp add: set_reward_unit_def)
  have "image_mset vw_report (mset (ip_selected q)) = image_mset vw_report (mset selected)" unfolding sel by (simp add: multiset.map_comp comp_def keeps)
  then have all: "image_mset vw_report (mset (ip_selected q) + mset (ip_unselected q)) = image_mset vw_report (mset valid + mset invalid)"
    using ss unfolding sel(2) by (metis (no_types, lifting) image_mset_union mset_append union_assoc)
  have len: "length selected \<le> unat (rn_max_witnesses rn)" using ss by simp
  have "length surplus = length valid - length selected" using ss by (metis add_diff_cancel_left' size_mset size_union)
  then have "surplus \<noteq> [] \<Longrightarrow> length selected = unat (rn_max_witnesses rn)"
    using ss unfolding length_greater_0_conv [symmetric] by linarith
  then have full: "v \<in> set surplus \<Longrightarrow> length selected = unat (rn_max_witnesses rn)" for v by (metis empty_iff list.set(1))
  have order: "\<forall>s \<in> set selected. \<forall>v \<in> set surplus. vw_received s \<le> vw_received v" using ss by blast
  show ?thesis using fs all len full order sub unit_of by (auto simp: sel keeps subset_iff)
qed

section \<open>Retries and reward units\<close>

lemma handle_valid_poc_shares:
  assumes "an_save_shares an" "handle_valid_poc blake3 an now vb selected unselected w = (res, w')"
  shows "w_shares w' = save_shares (shares_from_poc \<lparr>ip_id = beacon_report_id blake3 (bv_report vb) (bv_received vb), ip_beacon = vb,
    ip_selected = selected, ip_unselected = unselected\<rparr>) (w_shares w)"
proof (cases "an_write_poc an")
  case True
  then show ?thesis using assms by (auto simp: handle_valid_poc_def remove_poc_def save_shares_def Let_def split: if_splits)
next
  case False
  then show ?thesis using assms by (auto simp: handle_valid_poc_def save_shares_def Let_def dest!: bump_attempts_effect)
qed

text \<open>C36: when the proof of coverage could not be written and the same beacon is handled again, the reward
  shares and the written proofs are those of a single run.\<close>

theorem retry_saves_same_shares:
  assumes "distinct (map share_key (w_shares w))" "an_save_shares an" "\<not> an_write_poc an" "an_save_shares an'"
    "handle_valid_poc blake3 an now vb selected unselected w = (res, w\<^sub>1)"
    "handle_valid_poc blake3 an' now' vb selected unselected w\<^sub>1 = (res', w\<^sub>2)"
    "handle_valid_poc blake3 an' now' vb selected unselected w = (res'', w\<^sub>3)"
  shows "w_shares w\<^sub>2 = w_shares w\<^sub>3 \<and> w_pocs w\<^sub>2 = w_pocs w\<^sub>3"
proof -
  note once = handle_valid_poc_shares [OF assms(2,5)] and twice = handle_valid_poc_shares [OF assms(4,6)]
    and direct = handle_valid_poc_shares [OF assms(4,7)]
  have shares: "w_shares w\<^sub>2 = w_shares w\<^sub>3" unfolding once twice direct by (rule save_shares_twice [OF assms(1)])
  have pocs1: "w_pocs w\<^sub>1 = w_pocs w" using assms(2,3,5) by (auto simp: handle_valid_poc_def Let_def dest!: bump_attempts_effect)
  have "w_pocs w\<^sub>2 = w_pocs w\<^sub>3"
  proof (cases "an_write_poc an'")
    case True
    then show ?thesis using assms(4,6,7) pocs1 by (auto simp: handle_valid_poc_def remove_poc_def Let_def split: if_splits)
  next
    case False
    then show ?thesis using assms(4,6,7) pocs1 by (auto simp: handle_valid_poc_def Let_def dest!: bump_attempts_effect)
  qed
  then show ?thesis using shares by blast
qed

text \<open>The unit of a beaconer is between zero and two, that of a witness between zero and one, and the units
  of all selected witnesses together exceed four by no more than the rounding to four places.\<close>

theorem reward_units_bounded:
  assumes "decimal_laws D" "poc_beaconer_reward_unit D n = Inr beaconer_unit" "poc_per_witness_reward_unit D n = Inr witness_unit"
  shows "0 \<le> beaconer_unit \<and> beaconer_unit \<le> 2 \<and> 0 \<le> witness_unit \<and> witness_unit \<le> 1 \<and>
    of_nat (unat n) * witness_unit \<le> 4 + of_nat (unat n) / 10 ^ 4"
  using beaconer_unit_bounds [OF assms(1,2)] witness_unit_bounds [OF assms(1,3)] by blast

section \<open>Well-formed tables\<close>

text \<open>Rows have unique identifiers; a witness is never pending, a report in the table was not yet judged, and the
  number of attempts is a 32-bit integer that is not negative.\<close>

definition report_ok :: "report \<Rightarrow> bool" where
  "report_ok r \<longleftrightarrow> (case rp_type r of WitnessReport \<Rightarrow> rp_status r = IotReady | BeaconReport \<Rightarrow> rp_status r \<in> {IotPending, IotReady}) \<and>
     0 \<le> rp_attempts r \<and> rp_attempts r < 2 ^ 31"

definition table_ok :: "report list \<Rightarrow> bool" where
  "table_ok t \<longleftrightarrow> distinct (map rp_id t) \<and> list_all report_ok t"

definition bindings_ok :: "insert_bindings \<Rightarrow> bool" where
  "bindings_ok b \<longleftrightarrow> (case ib_type b of WitnessReport \<Rightarrow> ib_status b = IotReady | BeaconReport \<Rightarrow> ib_status b = IotPending)"

lemma insert_into_ok: "table_ok t \<Longrightarrow> bindings_ok b \<Longrightarrow> table_ok (insert_into now b t)"
  by (cases "ib_type b") (auto simp: table_ok_def insert_into_def bindings_ok_def report_ok_def)

lemma bulk_insert_ok: "table_ok t \<Longrightarrow> list_all bindings_ok bs \<Longrightarrow> table_ok (bulk_insert now bs t)"
  unfolding bulk_insert_def by (induction bs arbitrary: t) (simp_all add: insert_into_ok)

lemma filter_ok: "table_ok t \<Longrightarrow> table_ok (filter P t)"
  by (auto simp: table_ok_def list_all_iff distinct_map_filter)

lemma map_ok:
  assumes "table_ok t" "\<And>r. report_ok r \<Longrightarrow> r \<in> set t \<Longrightarrow> report_ok (f r)" "\<And>r. rp_id (f r) = rp_id r"
  shows "table_ok (map f t)"
  using assms by (auto simp: table_ok_def list_all_iff comp_def)

lemma pending_to_ready_ok: "table_ok t \<Longrightarrow> table_ok (pending_beacons_to_ready now t)"
  unfolding pending_beacons_to_ready_def by (rule map_ok) (auto simp: report_ok_def)

lemma update_attempts_ok: "table_ok t \<Longrightarrow> update_attempts key now t = Some t' \<Longrightarrow> table_ok t'"
  by (auto simp: update_attempts_def report_ok_def not_le split: if_splits report_type.splits intro!: map_ok)

text \<open>Every operation that the verifier performs on the table of reports keeps it well-formed.\<close>

theorem report_table_well_formed:
  assumes "table_ok t" "list_all bindings_ok bs"
  shows "table_ok (bulk_insert now bs t) \<and> table_ok (delete_poc packet t) \<and> table_ok (delete_report key t) \<and>
    table_ok (pending_beacons_to_ready now t) \<and> (\<forall>t'. update_attempts key now t = Some t' \<longrightarrow> table_ok t')"
  using assms bulk_insert_ok pending_to_ready_ok update_attempts_ok by (auto simp: delete_poc_def delete_report_def filter_ok)

section \<open>A concrete run\<close>

definition sample_run_env :: "(nat, nat) run_env" where
  "sample_run_env = poc_env.extend sample_poc_env
     (run_env.fields exact_decimal (\<lambda>d. d) (\<lambda>d. if d = [7] then Some sample_beacon else None) (\<lambda>d. Some (sample_witness d)))"

definition sample_runner :: runner where
  "sample_runner = \<lparr>rn_beacon_interval = seconds 100, rn_max_witnesses = 14, rn_beacon_retries = 5, rn_witness_retries = 5,
     rn_deny_list = sample_deny_list, rn_gateways = (\<lambda>k. Some (sample_gateway k)), rn_density = Map.empty\<rparr>"

definition sample_answers :: "nat answers" where
  "sample_answers = \<lparr>an_region = (\<lambda>_. Inr 0), an_read_witnesses = True, an_read_last_beacon = True, an_save_shares = True,
     an_write_poc = True, an_write_beacon = True, an_write_witness = (\<lambda>_. True), an_update_last_beacon = True, an_delete = True,
     an_attempts = True\<rparr>"

definition sample_row :: "bytes \<Rightarrow> report_type \<Rightarrow> report" where
  "sample_row d kind = \<lparr>rp_id = d, rp_remote_entropy = [], rp_packet_data = [7], rp_report_data = d, rp_type = kind,
     rp_status = IotReady, rp_attempts = 0, rp_timestamp = 0, rp_last_processed = 0, rp_created = 0\<rparr>"

definition sample_world :: "nat iot_world" where
  "sample_world = \<lparr>w_reports = [sample_row [7] BeaconReport, sample_row [2] WitnessReport], w_last_beacons = [], w_shares = [],
     w_regions = Map.empty, w_pocs = [], w_invalid_beacons = [], w_invalid_witnesses = []\<rparr>"

definition sample_valid_beacon :: valid_beacon where
  "sample_valid_beacon = \<lparr>bv_received = 0, bv_location = None, bv_gain = 0, bv_elevation = 0, bv_hex_scale = 1,
     bv_report = bi_report sample_beacon, bv_reward_unit = 1\<rparr>"

lemma sample_env_simps [simp]:
  "re_decimal sample_run_env = exact_decimal" "re_decode_beacon sample_run_env [7] = Some sample_beacon"
  "re_decode_witness sample_run_env d = Some (sample_witness d)"
  "d' \<noteq> 0 \<Longrightarrow> pe_trunc sample_run_env d' t = Some (t - t mod d')"
  by (simp_all add: sample_run_env_def sample_poc_env_def run_env.defs poc_env.defs)

lemma sample_all_ok: "all_ok sample_answers"
  by (simp add: all_ok_def sample_answers_def)

lemma reports_deleted_only_when_decided_witness:
  "\<exists>pocs invalids. decides sample_beacon sample_world
     (snd (handle_beacon_report sample_run_env sample_runner sample_answers 0 (sample_row [7] BeaconReport, seconds 5, 1) sample_world)) pocs invalids"
  by (rule reports_deleted_only_when_decided [OF _ prod.collapse [symmetric]]) (simp add: sample_row_def)


lemma poc_selects_earliest_valid_witness:
  "\<exists>q. w_pocs (snd (reward_poc sample_run_env sample_runner sample_answers 0 sample_poc (beacon_valid (sample_gateway [1]) 1)
        (sample_gateway [1]) sample_world)) = [q] \<and> length (ip_selected q) \<le> 14 \<and>
     image_mset vw_report (mset (ip_selected q) + mset (ip_unselected q)) =
       image_mset vw_report (mset (filter (\<lambda>v. vw_reason v \<noteq> SelfWitness)
         (verify_witnesses sample_run_env Map.empty (\<lambda>k. Some (sample_gateway k)) sample_deny_list sample_poc (sample_gateway [1]))))"
proof -
  let ?run = "reward_poc sample_run_env sample_runner sample_answers 0 sample_poc (beacon_valid (sample_gateway [1]) 1) (sample_gateway [1]) sample_world"
  have run: "?run = (fst ?run, snd ?run)" by simp
  have "\<forall>n. d_powu (re_decimal sample_run_env) POC_REWARD_DECAY_RATE n \<noteq> None" by (simp add: exact_decimal_def)
  from reward_poc_ok [OF sample_all_ok this run] obtain q where q: "w_pocs (snd ?run) = w_pocs sample_world @ [q]" by blast
  have "w_pocs sample_world = []" "unat (rn_max_witnesses sample_runner) = 14" "rn_density sample_runner = Map.empty"
    "rn_gateways sample_runner = (\<lambda>k. Some (sample_gateway k))" "rn_deny_list sample_runner = sample_deny_list"
    by (simp_all add: sample_world_def sample_runner_def)
  then show ?thesis using poc_selects_earliest_valid [OF run q refl] q by (intro exI [of _ q]) simp
qed

lemma retry_saves_same_shares_witness:
  "w_shares (snd (handle_valid_poc (\<lambda>d. d) sample_answers 5 sample_valid_beacon [] []
      (snd (handle_valid_poc (\<lambda>d. d) (sample_answers\<lparr>an_write_poc := False\<rparr>) 0 sample_valid_beacon [] [] sample_world)))) =
    w_shares (snd (handle_valid_poc (\<lambda>d. d) sample_answers 5 sample_valid_beacon [] [] sample_world))"
  by (rule retry_saves_same_shares [OF _ _ _ _ prod.collapse [symmetric] prod.collapse [symmetric] prod.collapse [symmetric], THEN conjunct1])
    (simp_all add: sample_world_def sample_answers_def)

lemma reward_units_bounded_witness:
  "\<exists>u v. poc_beaconer_reward_unit exact_decimal 4 = Inr u \<and> poc_per_witness_reward_unit exact_decimal 4 = Inr v \<and> u \<le> 2 \<and> 4 * v \<le> 4 + 4 / 10 ^ 4"
proof -
  obtain u v where u: "poc_beaconer_reward_unit exact_decimal 4 = Inr u" "poc_per_witness_reward_unit exact_decimal 4 = Inr v"
    using units_defined [of exact_decimal 4] by (auto simp: exact_decimal_def)
  from reward_units_bounded [OF exact_decimal_laws this] u show ?thesis by auto
qed

lemma report_table_well_formed_witness:
  "table_ok (delete_poc [9] [sample_row [7] BeaconReport, sample_row [2] WitnessReport])"
  by (rule report_table_well_formed [of _ "[]", THEN conjunct2, THEN conjunct1])
    (simp_all add: table_ok_def report_ok_def sample_row_def)

end
