(* ===== verification/Iot_Loader.thy ===== *)
theory Iot_Loader
  imports Iot_Runner File_Store
begin

text \<open>
  The parts of the IoT verifier that fill and empty the table of reports besides the runner,
  after \<open>src/iot_verifier/src/loader.rs\<close>, \<open>meta.rs\<close>, \<open>entropy_loader.rs\<close> and \<open>purger.rs\<close>: the windows of
  time that the report loader reads, the filter over the packets of the beacons of a window,
  the rows it inserts, the loading of entropy, and the purging of stale reports. The decoding of
  messages, the hash of a packet and the filter are parameters; a store says which files
  are listed, what they hold and whether a transaction commits.
\<close>

section \<open>The table meta\<close>

definition u64_from_str :: "string \<Rightarrow> u64 option" where
  "u64_from_str s =
     (let ds = (case s of c # cs \<Rightarrow> if c = CHR ''+'' then cs else s | [] \<Rightarrow> [])
      in if list_all is_digit ds then u64_from_digits ds else None)"

definition meta_last_timestamp :: "(timestamp \<Rightarrow> bool) \<Rightarrow> string \<Rightarrow> (string \<rightharpoonup> string) \<Rightarrow> timestamp option" where
  "meta_last_timestamp rep key meta =
     (case meta key of
        None \<Rightarrow> None
      | Some v \<Rightarrow>
          (case u64_from_str v of
             None \<Rightarrow> None
           | Some ms \<Rightarrow> (case to_timestamp_millis rep ms of Inl e \<Rightarrow> None | Inr t \<Rightarrow> Some t)))"

definition meta_update_last_timestamp :: "string \<Rightarrow> timestamp \<Rightarrow> (string \<rightharpoonup> string) \<Rightarrow> (string \<rightharpoonup> string)" where
  "meta_update_last_timestamp key t meta = meta(key \<mapsto> show_int (t div 1000000))"

section \<open>The loader\<close>

definition REPORTS_META_NAME :: string where "REPORTS_META_NAME = ''report''"

record loader =
  lo_window_width :: duration
  lo_rollup_time :: duration
  lo_max_lookback :: duration
  lo_gateways :: "iot_key \<rightharpoonup> gateway_info"

text \<open>The window of a tick, or none when it is too narrow.\<close>

definition tick_window :: "loader \<Rightarrow> timestamp \<Rightarrow> timestamp option \<Rightarrow> (timestamp \<times> timestamp) option" where
  "tick_window lo now latest =
     (let window_default_lookback = now - lo_window_width lo * 4;
          window_max_lookback = now - lo_max_lookback lo;
          after = max (case latest of Some t \<Rightarrow> t | None \<Rightarrow> window_default_lookback) window_max_lookback;
          before_max = after + lo_window_width lo;
          before = min (now - lo_window_width lo * 3) before_max
      in if before - after < lo_window_width lo then None else Some (after, before))"

text \<open>The hash of the packet data and the filter built of the hashes of a window are parameters, with the decoding
  of messages.\<close>

record load_env =
  le_decode_beacon :: "bytes \<Rightarrow> beacon_ingest option"
  le_decode_witness :: "bytes \<Rightarrow> witness_ingest option"
  le_blake3 :: "bytes \<Rightarrow> bytes"
  le_key_hash :: "bytes \<Rightarrow> u64"
  le_xor_filter :: "u64 list \<Rightarrow> u64 \<Rightarrow> bool"

definition check_valid_gateway :: "loader \<Rightarrow> iot_key \<Rightarrow> bool" where
  "check_valid_gateway lo key \<longleftrightarrow> lo_gateways lo key \<noteq> None"

definition verify_witness_packet_data :: "load_env \<Rightarrow> bytes \<Rightarrow> (u64 \<Rightarrow> bool) \<Rightarrow> bool" where
  "verify_witness_packet_data env packet filter_contains = filter_contains (le_key_hash env packet)"

definition beacon_bindings :: "load_env \<Rightarrow> bytes \<Rightarrow> beacon_ingest \<Rightarrow> insert_bindings" where
  "beacon_bindings env buf b = \<lparr>ib_id = beacon_ingest_id (le_blake3 env) b, ib_remote_entropy = br_remote_entropy (bi_report b),
     ib_packet_data = br_data (bi_report b), ib_buf = buf, ib_received = bi_received b, ib_type = BeaconReport, ib_status = IotPending\<rparr>"

definition witness_bindings :: "load_env \<Rightarrow> bytes \<Rightarrow> witness_ingest \<Rightarrow> insert_bindings" where
  "witness_bindings env buf w = \<lparr>ib_id = witness_ingest_id (le_blake3 env) w, ib_remote_entropy = [],
     ib_packet_data = wr_data (wi_report w), ib_buf = buf, ib_received = wi_received w, ib_type = WitnessReport, ib_status = IotReady\<rparr>"

text \<open>The row to insert and the hashes to add to the filter. A message that cannot be decoded is an error, which is logged.\<close>

definition handle_report ::
  "load_env \<Rightarrow> loader \<Rightarrow> string \<Rightarrow> (u64 \<Rightarrow> bool) option \<Rightarrow> bytes \<Rightarrow> (run_error + insert_bindings option) \<times> u64 list" where
  "handle_report env lo kind xor_filter buf =
     (case file_type_from_str kind of
        None \<Rightarrow> (Inl DecodeError, [])
      | Some IotBeaconIngestReportFile \<Rightarrow>
          (case le_decode_beacon env buf of
             None \<Rightarrow> (Inl DecodeError, [])
           | Some b \<Rightarrow>
               if check_valid_gateway lo (br_pub_key (bi_report b))
               then (Inr (Some (beacon_bindings env buf b)), [le_key_hash env (br_data (bi_report b))])
               else (Inr None, []))
      | Some IotWitnessIngestReportFile \<Rightarrow>
          (case le_decode_witness env buf of
             None \<Rightarrow> (Inl DecodeError, [])
           | Some w \<Rightarrow>
               (case xor_filter of
                  None \<Rightarrow> (Inr None, [])
                | Some f \<Rightarrow>
                    if verify_witness_packet_data env (wr_data (wi_report w)) f
                    then if check_valid_gateway lo (wr_pub_key (wi_report w)) then (Inr (Some (witness_bindings env buf w)), []) else (Inr None, [])
                    else (Inr None, [])))
      | Some _ \<Rightarrow> (Inr None, []))"

text \<open>The messages of a file are inserted in one transaction, which fails as a whole; the hashes are collected either
  way. Files and their chunks are processed concurrently in the code and in order here.\<close>

definition file_bindings :: "load_env \<Rightarrow> loader \<Rightarrow> string \<Rightarrow> (u64 \<Rightarrow> bool) option \<Rightarrow> (unit + bytes) list \<Rightarrow> insert_bindings list \<times> u64 list" where
  "file_bindings env lo kind xor_filter msgs =
     (let results = map (handle_report env lo kind xor_filter) (List.map_filter (\<lambda>m. case m of Inl _ \<Rightarrow> None | Inr b \<Rightarrow> Some b) msgs)
      in (List.map_filter (\<lambda>(r, _). case r of Inl _ \<Rightarrow> None | Inr b \<Rightarrow> b) results, concat (map snd results)))"

record load_store =
  st_list :: "file_type \<Rightarrow> timestamp \<Rightarrow> timestamp \<Rightarrow> unit + file_info list"
  st_stream :: "file_info \<Rightarrow> unit + (unit + bytes) list"
  st_commit :: "file_info \<Rightarrow> bool"

definition process_load_file ::
  "load_env \<Rightarrow> loader \<Rightarrow> load_store \<Rightarrow> timestamp \<Rightarrow> (u64 \<Rightarrow> bool) option \<Rightarrow> file_info \<Rightarrow> report list \<times> u64 list \<Rightarrow> report list \<times> u64 list" where
  "process_load_file env lo st now xor_filter info acc =
     (case st_stream st info of
        Inl e \<Rightarrow> acc
      | Inr msgs \<Rightarrow>
          (let (bindings, hashes) = file_bindings env lo (fi_prefix info) xor_filter msgs
           in (if st_commit st info then bulk_insert now bindings (fst acc) else fst acc, snd acc @ hashes)))"

definition process_events ::
  "load_env \<Rightarrow> loader \<Rightarrow> load_store \<Rightarrow> timestamp \<Rightarrow> file_type \<Rightarrow> timestamp \<Rightarrow> timestamp \<Rightarrow> (u64 \<Rightarrow> bool) option \<Rightarrow> report list \<Rightarrow> report list \<times> u64 list" where
  "process_events env lo st now kind after before xor_filter reports =
     (case st_list st kind after before of
        Inl e \<Rightarrow> (reports, [])
      | Inr infos \<Rightarrow> foldl (\<lambda>acc info. process_load_file env lo st now xor_filter info acc) (reports, []) infos)"

definition process_window ::
  "load_env \<Rightarrow> loader \<Rightarrow> load_store \<Rightarrow> timestamp \<Rightarrow> timestamp \<Rightarrow> timestamp \<Rightarrow> report list \<Rightarrow> report list" where
  "process_window env lo st now after before reports =
     (let (reports, xor_data) = process_events env lo st now IotBeaconIngestReportFile after before None reports;
          beacon_packet_data = remdups_adj (sort xor_data)
      in if beacon_packet_data = [] then reports
         else fst (process_events env lo st now IotWitnessIngestReportFile
                (after - (lo_rollup_time lo + seconds 120)) (before + (lo_rollup_time lo + seconds 120))
                (Some (le_xor_filter env beacon_packet_data)) reports))"

record tick_answers =
  ta_read_meta :: bool
  ta_write_meta :: bool
  ta_ready :: bool

definition handle_report_tick ::
  "load_env \<Rightarrow> (timestamp \<Rightarrow> bool) \<Rightarrow> loader \<Rightarrow> load_store \<Rightarrow> tick_answers \<Rightarrow> timestamp \<Rightarrow> report list \<times> (string \<rightharpoonup> string) \<Rightarrow>
   (run_error + unit) \<times> report list \<times> (string \<rightharpoonup> string)" where
  "handle_report_tick env rep lo st ta now db =
     (case db of (reports, meta) \<Rightarrow>
        if \<not> ta_read_meta ta then (Inl DbError, reports, meta)
        else case tick_window lo now (meta_last_timestamp rep REPORTS_META_NAME meta) of
               None \<Rightarrow> (Inr (), reports, meta)
             | Some (after, before) \<Rightarrow>
                 let reports = process_window env lo st now after before reports
                 in if \<not> ta_write_meta ta then (Inl DbError, reports, meta)
                    else let meta = meta_update_last_timestamp REPORTS_META_NAME before meta
                         in if \<not> ta_ready ta then (Inl DbError, reports, meta)
                            else (Inr (), pending_beacons_to_ready now reports, meta))"

section \<open>The entropy loader\<close>

record entropy_report =
  er_data :: bytes
  er_timestamp :: timestamp
  er_version :: u32

definition handle_entropy_file :: "(bytes \<Rightarrow> bytes) \<Rightarrow> timestamp \<Rightarrow> entropy_report list \<Rightarrow> entropy list \<Rightarrow> entropy list" where
  "handle_entropy_file blake3 now reports table =
     foldl (\<lambda>t r. insert_entropy now (blake3 (er_data r)) (er_data r) (er_timestamp r) (ucast (er_version r)) t) table reports"

section \<open>The purger\<close>

record purger =
  pu_base_stale :: duration
  pu_beacon_stale :: duration
  pu_witness_stale :: duration
  pu_entropy_stale :: duration

text \<open>How the calls of a tick end: the two queries, the sinks for the \<open>n\<close>-th report, the commits of sinks and of
  transactions, and the removal of entropy.\<close>

record purge_answers =
  pa_read :: bool
  pa_write_beacon :: "nat \<Rightarrow> bool"
  pa_write_witness :: "nat \<Rightarrow> bool"
  pa_commit_beacons :: bool
  pa_commit_witnesses :: bool
  pa_purge_entropy :: bool

definition stale_beacon :: "beacon_ingest \<Rightarrow> invalid_beacon" where
  "stale_beacon b = \<lparr>ivb_received = bi_received b, ivb_reason = Stale, ivb_details = None, ivb_report = bi_report b,
     ivb_location = None, ivb_gain = 0, ivb_elevation = 0\<rparr>"

definition stale_witness :: "witness_ingest \<Rightarrow> invalid_witness" where
  "stale_witness w = \<lparr>ivw_received = wi_received w, ivw_reason = Stale, ivw_details = None, ivw_report = wi_report w, ivw_side = WitnessSide\<rparr>"

text \<open>The reports of the transaction that purges stale beacons and what was written; a report that cannot be decoded or
  written stays.\<close>

definition handle_purged_beacon ::
  "load_env \<Rightarrow> bool \<Rightarrow> report \<Rightarrow> report list \<times> invalid_beacon list \<Rightarrow> report list \<times> invalid_beacon list" where
  "handle_purged_beacon env write_ok r acc =
     (case le_decode_beacon env (rp_report_data r) of
        None \<Rightarrow> acc
      | Some b \<Rightarrow>
          if write_ok then (delete_report (beacon_ingest_id (le_blake3 env) b) (fst acc), snd acc @ [stale_beacon b]) else acc)"

definition handle_purged_witness ::
  "load_env \<Rightarrow> bool \<Rightarrow> report \<Rightarrow> report list \<times> invalid_witness list \<Rightarrow> report list \<times> invalid_witness list" where
  "handle_purged_witness env write_ok r acc =
     (case le_decode_witness env (rp_report_data r) of
        None \<Rightarrow> acc
      | Some w \<Rightarrow>
          if write_ok then (delete_report (witness_ingest_id (le_blake3 env) w) (fst acc), snd acc @ [stale_witness w]) else acc)"

definition purge_beacons :: "load_env \<Rightarrow> (nat \<Rightarrow> bool) \<Rightarrow> report list \<Rightarrow> report list \<Rightarrow> report list \<times> invalid_beacon list" where
  "purge_beacons env write_ok stale reports = foldl (\<lambda>acc (n, r). handle_purged_beacon env (write_ok n) r acc) (reports, []) (enumerate 0 stale)"

definition purge_witnesses :: "load_env \<Rightarrow> (nat \<Rightarrow> bool) \<Rightarrow> report list \<Rightarrow> report list \<Rightarrow> report list \<times> invalid_witness list" where
  "purge_witnesses env write_ok stale reports = foldl (\<lambda>acc (n, r). handle_purged_witness env (write_ok n) r acc) (reports, []) (enumerate 0 stale)"

text \<open>A tick: the stale beacons, then the stale witnesses, then the entropy. When a commit fails the transaction is rolled
  back and the tick ends; what was written to the sinks stays written.\<close>

definition purger_tick ::
  "load_env \<Rightarrow> purger \<Rightarrow> purge_answers \<Rightarrow> timestamp \<Rightarrow> entropy list \<Rightarrow> 'p iot_world \<Rightarrow> (run_error + unit) \<times> entropy list \<times> 'p iot_world" where
  "purger_tick env pu pa now entropies w =
     (if \<not> pa_read pa then (Inl DbError, entropies, w)
      else let (reports, written) = purge_beacons env (pa_write_beacon pa)
                 (get_stale_beacons now (pu_base_stale pu + pu_beacon_stale pu) (w_reports w)) (w_reports w);
               w = w\<lparr>w_invalid_beacons := w_invalid_beacons w @ written\<rparr>
           in if \<not> pa_commit_beacons pa then (Inl DbError, entropies, w)
              else let w = w\<lparr>w_reports := reports\<rparr>;
                       (reports, written) = purge_witnesses env (pa_write_witness pa)
                         (get_stale_witnesses now (pu_base_stale pu + pu_witness_stale pu) (w_reports w)) (w_reports w);
                       w = w\<lparr>w_invalid_witnesses := w_invalid_witnesses w @ written\<rparr>
                   in if \<not> pa_commit_witnesses pa then (Inl DbError, entropies, w)
                      else (Inr (), if pa_purge_entropy pa then purge_entropy now (pu_base_stale pu + pu_entropy_stale pu) entropies else entropies,
                            w\<lparr>w_reports := reports\<rparr>))"

text \<open>The loader and the runner decode and hash alike.\<close>

definition load_env_of :: "('b, 'p, 'z) run_env_scheme \<Rightarrow> (bytes \<Rightarrow> u64) \<Rightarrow> (u64 list \<Rightarrow> u64 \<Rightarrow> bool) \<Rightarrow> load_env" where
  "load_env_of env key_hash xor_filter = \<lparr>le_decode_beacon = re_decode_beacon env, le_decode_witness = re_decode_witness env,
     le_blake3 = re_blake3 env, le_key_hash = key_hash, le_xor_filter = xor_filter\<rparr>"

section \<open>Windows of the loader\<close>

lemma meta_roundtrip:
  assumes "0 \<le> t" "t div 1000000 < 2 ^ 63" "rep (t - t mod 1000000)"
  shows "meta_last_timestamp rep key (meta_update_last_timestamp key t meta) = Some (t - t mod 1000000)"
proof -
  define n where "n = nat (t div 1000000)"
  have n: "n < 2 ^ 63" "int n = t div 1000000" using assms by (simp_all add: n_def pos_imp_zdiv_nonneg_iff)
  have s: "show_int (t div 1000000) = show_nat n" using assms(1) by (simp add: show_int_def n_def pos_imp_zdiv_nonneg_iff not_less)
  obtain c cs where c: "show_nat n = c # cs" "is_digit c" using show_nat_facts [of n] by (cases "show_nat n") auto
  then have "c \<noteq> CHR ''+''" by (auto simp: is_digit_def)
  then have "u64_from_str (show_nat n) = Some (of_nat n)"
    using show_nat_facts [of n] n c by (simp add: u64_from_str_def u64_from_digits_def)
  moreover have "unat (of_nat n :: u64) = n" using n by (simp add: unat_of_nat)
  then have "to_timestamp_millis rep (of_nat n) = Inr (t - t mod 1000000)"
    using n assms(3) by (simp add: to_timestamp_millis_def Let_def minus_mod_eq_mult_div mult.commute del: of_nat_unat)
  ultimately show ?thesis by (simp add: meta_last_timestamp_def meta_update_last_timestamp_def s)
qed

lemma tick_window_Some:
  assumes "tick_window lo now latest = Some (a, b)" "0 \<le> lo_window_width lo"
  shows "b = a + lo_window_width lo \<and> a + 4 * lo_window_width lo \<le> now"
  using assms by (auto simp: tick_window_def Let_def split: if_splits)

text \<open>C39: every window that the loader reads has the configured width and ends at least three widths in the past; after
  a tick that read a window, the next tick, if it comes within the longest lookback, starts its window at the end of that one
  cut to the millisecond, so that no file between the two is missed, and reads it as soon as four widths have passed.\<close>

theorem loader_windows_leave_no_gap:
  assumes "0 < lo_window_width lo"
    "handle_report_tick env rep lo st ta now (reports, meta) = (Inr (), reports', meta')"
    "tick_window lo now (meta_last_timestamp rep REPORTS_META_NAME meta) = Some (a, b)"
    "0 \<le> b" "b div 1000000 < 2 ^ 63" "rep (b - b mod 1000000)" "now' - lo_max_lookback lo \<le> b - b mod 1000000"
  shows "b = a + lo_window_width lo \<and> b + 3 * lo_window_width lo \<le> now \<and>
    tick_window lo now' (meta_last_timestamp rep REPORTS_META_NAME meta') =
      (if b - b mod 1000000 + 4 * lo_window_width lo \<le> now'
       then Some (b - b mod 1000000, b - b mod 1000000 + lo_window_width lo) else None)"
proof -
  have "meta' = meta_update_last_timestamp REPORTS_META_NAME b meta"
    using assms(2,3) by (auto simp: handle_report_tick_def Let_def split: if_splits)
  then have "meta_last_timestamp rep REPORTS_META_NAME meta' = Some (b - b mod 1000000)" using meta_roundtrip assms(4-6) by simp
  moreover have "max (b - b mod 1000000) (now' - lo_max_lookback lo) = b - b mod 1000000" using assms(7) by simp
  ultimately show ?thesis using tick_window_Some [OF assms(3)] assms(1) by (auto simp: tick_window_def Let_def)
qed

section \<open>Witnesses of the beacons of a window\<close>

lemma insert_into_ids: "rp_id ` set (insert_into now b t) = insert (ib_id b) (rp_id ` set t)"
  by (auto simp: insert_into_def)

lemma bulk_insert_ids: "rp_id ` set (bulk_insert now bs t) = rp_id ` set t \<union> ib_id ` set bs"
proof (induction bs arbitrary: t)
  case (Cons b bs)
  have "bulk_insert now (b # bs) t = bulk_insert now bs (insert_into now b t)" by (simp add: bulk_insert_def)
  then show ?case using Cons by (auto simp: insert_into_ids)
qed (simp add: bulk_insert_def)

lemma process_load_file_mono:
  "rp_id ` set (fst acc) \<subseteq> rp_id ` set (fst (process_load_file env lo st now f info acc)) \<and>
   set (snd acc) \<subseteq> set (snd (process_load_file env lo st now f info acc))"
  by (auto simp: process_load_file_def bulk_insert_ids split: sum.splits prod.splits)

lemma process_files_mono:
  "rp_id ` set (fst acc) \<subseteq> rp_id ` set (fst (foldl (\<lambda>acc info. process_load_file env lo st now f info acc) acc infos)) \<and>
   set (snd acc) \<subseteq> set (snd (foldl (\<lambda>acc info. process_load_file env lo st now f info acc) acc infos))"
proof (induction infos arbitrary: acc)
  case (Cons info infos)
  then show ?case using process_load_file_mono [of acc env lo st now f info] by (simp del: split_paired_All) (meson order_trans)
qed simp

lemma process_files_member:
  assumes "info \<in> set infos" "st_stream st info = Inr msgs"
  shows "set (snd (file_bindings env lo (fi_prefix info) f msgs)) \<subseteq>
      set (snd (foldl (\<lambda>acc info. process_load_file env lo st now f info acc) acc infos))"
    "st_commit st info \<Longrightarrow> ib_id ` set (fst (file_bindings env lo (fi_prefix info) f msgs)) \<subseteq>
      rp_id ` set (fst (foldl (\<lambda>acc info. process_load_file env lo st now f info acc) acc infos))"
proof -
  let ?files = "foldl (\<lambda>acc info. process_load_file env lo st now f info acc)"
  obtain xs ys where "infos = xs @ info # ys" using split_list [OF assms(1)] by blast
  then have e: "?files acc infos = ?files (process_load_file env lo st now f info (?files acc xs)) ys" by simp
  let ?acc = "process_load_file env lo st now f info (?files acc xs)"
  note mono = process_files_mono [of ?acc env lo st now f ys]
  have "set (snd (file_bindings env lo (fi_prefix info) f msgs)) \<subseteq> set (snd ?acc)"
    using assms(2) by (auto simp: process_load_file_def split: prod.splits)
  then show "set (snd (file_bindings env lo (fi_prefix info) f msgs)) \<subseteq> set (snd (?files acc infos))"
    unfolding e using mono [THEN conjunct2] by (rule subset_trans)
  assume "st_commit st info"
  then have "ib_id ` set (fst (file_bindings env lo (fi_prefix info) f msgs)) \<subseteq> rp_id ` set (fst ?acc)"
    using assms(2) by (auto simp: process_load_file_def bulk_insert_ids split: prod.splits)
  then show "ib_id ` set (fst (file_bindings env lo (fi_prefix info) f msgs)) \<subseteq> rp_id ` set (fst (?files acc infos))"
    unfolding e using mono [THEN conjunct1] by (rule subset_trans)
qed

text \<open>C24: when a beacon of a known gateway is read in a window and a witness report of a known gateway with the same data lies in a
  file of the widened window that is committed, the witness report is in the table after the window; the filter may be any that contains
  what it was built of.\<close>

theorem witnesses_of_beacons_loaded:
  assumes "\<forall>ks k. k \<in> set ks \<longrightarrow> le_xor_filter env ks k"
    "st_list st IotBeaconIngestReportFile after before = Inr bfiles" "bfile \<in> set bfiles" "st_stream st bfile = Inr bmsgs" "Inr bbuf \<in> set bmsgs"
    "fi_prefix bfile = to_str IotBeaconIngestReportFile" "le_decode_beacon env bbuf = Some b" "lo_gateways lo (br_pub_key (bi_report b)) \<noteq> None"
    "st_list st IotWitnessIngestReportFile (after - (lo_rollup_time lo + seconds 120)) (before + (lo_rollup_time lo + seconds 120)) = Inr wfiles"
    "wfile \<in> set wfiles" "st_stream st wfile = Inr wmsgs" "Inr wbuf \<in> set wmsgs" "st_commit st wfile"
    "fi_prefix wfile = to_str IotWitnessIngestReportFile" "le_decode_witness env wbuf = Some w" "lo_gateways lo (wr_pub_key (wi_report w)) \<noteq> None"
    "wr_data (wi_report w) = br_data (bi_report b)"
  shows "witness_ingest_id (le_blake3 env) w \<in> rp_id ` set (process_window env lo st now after before reports)"
proof -
  let ?h = "le_key_hash env (br_data (bi_report b))"
  let ?acc = "process_events env lo st now IotBeaconIngestReportFile after before None reports"
  have "?h \<in> set (snd (file_bindings env lo (fi_prefix bfile) None bmsgs))"
    using assms(5-8) unfolding file_bindings_def Let_def
    by (force simp: handle_report_def file_type_roundtrip [of IotBeaconIngestReportFile, simplified] check_valid_gateway_def map_filter_def)
  then have h: "?h \<in> set (snd ?acc)"
    using process_files_member(1) [OF assms(3,4), of env lo None now "(reports, [])"] assms(2) by (auto simp: process_events_def)
  let ?keys = "remdups_adj (sort (snd ?acc))"
  have "?h \<in> set ?keys" using h by simp
  then have keys: "?h \<in> set ?keys" "?keys \<noteq> []" by (assumption, metis empty_iff list.set(1))
  let ?f = "Some (le_xor_filter env ?keys)"
  have "witness_ingest_id (le_blake3 env) w \<in> ib_id ` set (fst (file_bindings env lo (fi_prefix wfile) ?f wmsgs))"
    using assms(1,12,14-17) keys(1) unfolding file_bindings_def Let_def
    by (force simp: handle_report_def file_type_roundtrip [of IotWitnessIngestReportFile, simplified] check_valid_gateway_def
      verify_witness_packet_data_def map_filter_def witness_bindings_def image_iff)
  then have "witness_ingest_id (le_blake3 env) w \<in> rp_id ` set (fst (process_events env lo st now IotWitnessIngestReportFile
      (after - (lo_rollup_time lo + seconds 120)) (before + (lo_rollup_time lo + seconds 120)) ?f (fst ?acc)))"
    using process_files_member(2) [OF assms(10,11,13), of env lo ?f now "(fst ?acc, [])"] assms(9) by (auto simp: process_events_def)
  then show ?thesis using keys(2) by (simp add: process_window_def Let_def split_beta)
qed

section \<open>Examples\<close>

definition sample_load_env :: load_env where
  "sample_load_env = load_env_of sample_run_env (\<lambda>_. 0) (\<lambda>ks k. k \<in> set ks)"

definition sample_loader :: loader where
  "sample_loader = \<lparr>lo_window_width = seconds 300, lo_rollup_time = seconds 60, lo_max_lookback = seconds 3600, lo_gateways = (\<lambda>k. Some (sample_gateway k))\<rparr>"

definition sample_store :: load_store where
  "sample_store = \<lparr>st_list = (\<lambda>kind a b. Inr [file_info_of (to_str kind) a]), st_stream = (\<lambda>_. Inr [Inr [7]]), st_commit = (\<lambda>_. True)\<rparr>"

definition sample_tick :: tick_answers where
  "sample_tick = \<lparr>ta_read_meta = True, ta_write_meta = True, ta_ready = True\<rparr>"

theorem loader_windows_leave_no_gap_witness:
  "tick_window sample_loader (seconds 2600) (meta_last_timestamp (\<lambda>_. True) REPORTS_META_NAME
     (snd (snd (handle_report_tick sample_load_env (\<lambda>_. True) sample_loader sample_store sample_tick (seconds 2000) ([], Map.empty))))) =
   Some (seconds 1100, seconds 1400)"
proof -
  have w: "tick_window sample_loader (seconds 2000) (meta_last_timestamp (\<lambda>_. True) REPORTS_META_NAME Map.empty) = Some (seconds 800, seconds 1100)"
    by (simp add: tick_window_def meta_last_timestamp_def sample_loader_def)
  have ok: "handle_report_tick sample_load_env (\<lambda>_. True) sample_loader sample_store sample_tick (seconds 2000) ([], Map.empty) = (Inr (), reports, meta) \<longleftrightarrow>
     (reports, meta) = snd (handle_report_tick sample_load_env (\<lambda>_. True) sample_loader sample_store sample_tick (seconds 2000) ([], Map.empty))" for reports meta
    unfolding handle_report_tick_def using w by (auto simp: sample_tick_def Let_def)
  have "handle_report_tick sample_load_env (\<lambda>_. True) sample_loader sample_store sample_tick (seconds 2000) ([], Map.empty) =
     (Inr (), fst (snd (handle_report_tick sample_load_env (\<lambda>_. True) sample_loader sample_store sample_tick (seconds 2000) ([], Map.empty))),
      snd (snd (handle_report_tick sample_load_env (\<lambda>_. True) sample_loader sample_store sample_tick (seconds 2000) ([], Map.empty))))"
    by (rule ok [THEN iffD2]) simp
  from loader_windows_leave_no_gap [OF _ this w, of "seconds 2600"] show ?thesis by (simp add: sample_loader_def)
qed

theorem witnesses_of_beacons_loaded_witness:
  "witness_ingest_id (\<lambda>d. d) (sample_witness [7]) \<in>
   rp_id ` set (process_window sample_load_env sample_loader sample_store 0 (seconds 800) (seconds 1100) [])"
proof -
  have env: "le_blake3 sample_load_env = (\<lambda>d. d)" "le_decode_beacon sample_load_env [7] = Some sample_beacon"
    "le_decode_witness sample_load_env [7] = Some (sample_witness [7])" "\<forall>ks k. k \<in> set ks \<longrightarrow> le_xor_filter sample_load_env ks k"
    by (simp_all add: sample_load_env_def load_env_of_def sample_run_env_def run_env.defs poc_env.defs)
  show ?thesis
    unfolding env(1) [symmetric]
    by (rule witnesses_of_beacons_loaded [OF env(4), where b = sample_beacon and bbuf = "[7]" and bmsgs = "[Inr [7]]" and
        bfile = "file_info_of (to_str IotBeaconIngestReportFile) (seconds 800)" and bfiles = "[file_info_of (to_str IotBeaconIngestReportFile) (seconds 800)]" and
        wbuf = "[7]" and wmsgs = "[Inr [7]]" and wfile = "file_info_of (to_str IotWitnessIngestReportFile) (seconds 620)" and
        wfiles = "[file_info_of (to_str IotWitnessIngestReportFile) (seconds 620)]"])
      (simp_all add: env sample_store_def sample_loader_def file_info_of_def sample_beacon_def sample_witness_def)
qed

end
