(* ===== verification/Iot_System.thy ===== *)
theory Iot_System
  imports Iot_Loader
begin

text \<open>
  The IoT verifier as a whole: the report loader, the entropy loader, the runner and the purger
  run in any order over the shared tables, and any of their calls may fail. The rows of
  the table decode to the identifier and the packet they are stored under, and no report that was
  inserted leaves the table before a record with its packet was written.
\<close>

section \<open>The verifier as a whole\<close>

text \<open>The identifier and the packet of the reports of a table.\<close>

definition report_keys :: "report list \<Rightarrow> (bytes \<times> bytes) set" where
  "report_keys t = (\<lambda>r. (rp_id r, rp_packet_data r)) ` set t"

text \<open>The queue holds the beacons that a tick of the runner has read; a ghost field holds every report that was inserted.\<close>

record 'p verifier =
  vs_world :: "'p iot_world"
  vs_entropy :: "entropy list"
  vs_meta :: "string \<rightharpoonup> string"
  vs_queue :: "(report \<times> timestamp \<times> i32) list"
  vs_inserted :: "(bytes \<times> bytes) set"

text \<open>The loader, the entropy loader, the purger and the handlers of a tick of the runner run in any order, each with its own
  configuration, caches and failures at the time. A beacon that was read stays in the queue until it is handled, or a
  handler panics and its task ends, or the service stops.\<close>

inductive verifier_step ::
  "('b, 'p, 'z) run_env_scheme \<Rightarrow> load_env \<Rightarrow> (timestamp \<Rightarrow> bool) \<Rightarrow> 'p verifier \<Rightarrow> 'p verifier \<Rightarrow> bool" for env le rep where
  loaded: "handle_report_tick le rep lo st ta now (w_reports (vs_world s), vs_meta s) = (res, reports, meta) \<Longrightarrow>
    verifier_step env le rep s (s\<lparr>vs_world := (vs_world s)\<lparr>w_reports := reports\<rparr>, vs_meta := meta, vs_inserted := vs_inserted s \<union> report_keys reports\<rparr>)"
| entropy_loaded: "verifier_step env le rep s (s\<lparr>vs_entropy := handle_entropy_file (re_blake3 env) now ers (vs_entropy s)\<rparr>)"
| fetched: "verifier_step env le rep s (s\<lparr>vs_queue := get_next_beacons now (rn_beacon_retries (rn :: runner)) (vs_entropy s) (w_reports (vs_world s))\<rparr>)"
| handled: "row \<in> set (vs_queue s) \<Longrightarrow> handle_beacon_report env rn an now row (vs_world s) = (Inr (), w) \<Longrightarrow>
    verifier_step env le rep s (s\<lparr>vs_world := w, vs_queue := remove1 row (vs_queue s)\<rparr>)"
| failed: "row \<in> set (vs_queue s) \<Longrightarrow> handle_beacon_report env rn an now row (vs_world s) = (Inl e, w) \<Longrightarrow> e \<noteq> RunnerPanic \<Longrightarrow>
    verifier_step env le rep s (s\<lparr>vs_world := snd (bump_attempts an (rp_id (fst row)) now w), vs_queue := remove1 row (vs_queue s)\<rparr>)"
| panicked: "row \<in> set (vs_queue s) \<Longrightarrow> handle_beacon_report env rn an now row (vs_world s) = (Inl RunnerPanic, w) \<Longrightarrow>
    verifier_step env le rep s (s\<lparr>vs_world := w, vs_queue := []\<rparr>)"
| purged: "purger_tick le pu pa now (vs_entropy s) (vs_world s) = (res, entropies, w) \<Longrightarrow>
    verifier_step env le rep s (s\<lparr>vs_world := w, vs_entropy := entropies\<rparr>)"
| stopped: "verifier_step env le rep s (s\<lparr>vs_queue := []\<rparr>)"

definition verifier_start :: "'p verifier" where
  "verifier_start = \<lparr>vs_world = \<lparr>w_reports = [], w_last_beacons = [], w_shares = [], w_regions = Map.empty, w_pocs = [], w_invalid_beacons = [],
     w_invalid_witnesses = []\<rparr>, vs_entropy = [], vs_meta = Map.empty, vs_queue = [], vs_inserted = {}\<rparr>"

inductive verifier_reachable :: "('b, 'p, 'z) run_env_scheme \<Rightarrow> load_env \<Rightarrow> (timestamp \<Rightarrow> bool) \<Rightarrow> 'p verifier \<Rightarrow> bool" for env le rep where
  verifier_init: "verifier_reachable env le rep verifier_start"
| verifier_next: "verifier_reachable env le rep s \<Longrightarrow> verifier_step env le rep s t \<Longrightarrow> verifier_reachable env le rep t"

section \<open>Rows decode to what they say\<close>

definition decodes :: "load_env \<Rightarrow> report_type \<Rightarrow> bytes \<Rightarrow> bytes \<Rightarrow> bytes \<Rightarrow> bool" where
  "decodes le kind key packet buf \<longleftrightarrow>
     (case kind of
        BeaconReport \<Rightarrow> (\<exists>b. le_decode_beacon le buf = Some b \<and> packet = br_data (bi_report b) \<and> key = beacon_ingest_id (le_blake3 le) b)
      | WitnessReport \<Rightarrow> (\<exists>w. le_decode_witness le buf = Some w \<and> packet = wr_data (wi_report w) \<and> key = witness_ingest_id (le_blake3 le) w))"

definition row_ok :: "load_env \<Rightarrow> report \<Rightarrow> bool" where
  "row_ok le r \<longleftrightarrow> decodes le (rp_type r) (rp_id r) (rp_packet_data r) (rp_report_data r)"

definition rows_ok :: "load_env \<Rightarrow> report list \<Rightarrow> bool" where
  "rows_ok le t \<longleftrightarrow> distinct (map rp_id t) \<and> (\<forall>r \<in> set t. row_ok le r)"

definition same_rows :: "report list \<Rightarrow> report list \<Rightarrow> bool" where
  "same_rows t t' \<longleftrightarrow> map (\<lambda>r. (rp_id r, rp_packet_data r, rp_report_data r, rp_type r)) t = map (\<lambda>r. (rp_id r, rp_packet_data r, rp_report_data r, rp_type r)) t'"

lemma same_rows_keeps:
  assumes "same_rows t t'"
  shows "report_keys t = report_keys t'" "rows_ok le t = rows_ok le t'"
proof -
  let ?b = "\<lambda>r. (rp_id r, rp_packet_data r, rp_report_data r, rp_type r)"
  have e: "map ?b t = map ?b t'" using assms by (simp add: same_rows_def)
  have keys: "report_keys u = (\<lambda>(k, d, _, _). (k, d)) ` set (map ?b u)" for u by (auto simp: report_keys_def image_iff)
  show "report_keys t = report_keys t'" by (simp only: keys e)
  have rows: "rows_ok le u = (distinct (map fst (map ?b u)) \<and> (\<forall>(k, d, buf, kind) \<in> set (map ?b u). decodes le kind k d buf))" for u
    by (auto simp: rows_ok_def row_ok_def comp_def)
  show "rows_ok le t = rows_ok le t'" by (simp only: rows e)
qed

lemma same_bodies: "map report_body t = map report_body t' \<Longrightarrow> same_rows t t'"
proof -
  assume "map report_body t = map report_body t'"
  then have "map ((\<lambda>(k, _, d, buf, kind, _). (k, d, buf, kind)) \<circ> report_body) t = map ((\<lambda>(k, _, d, buf, kind, _). (k, d, buf, kind)) \<circ> report_body) t'"
    unfolding map_map [symmetric] by simp
  then show ?thesis by (simp add: same_rows_def report_body_def comp_def)
qed

lemma rows_ok_filter: "rows_ok le t \<Longrightarrow> rows_ok le (filter P t)"
  by (auto simp: rows_ok_def distinct_map_filter)

section \<open>The loader keeps the table in order\<close>

definition binding_ok :: "load_env \<Rightarrow> insert_bindings \<Rightarrow> bool" where
  "binding_ok le b \<longleftrightarrow> decodes le (ib_type b) (ib_id b) (ib_packet_data b) (ib_buf b)"

lemma insert_into_rows: "rows_ok le t \<Longrightarrow> binding_ok le b \<Longrightarrow> rows_ok le (insert_into now b t) \<and> report_keys t \<subseteq> report_keys (insert_into now b t)"
  by (auto simp: rows_ok_def row_ok_def binding_ok_def insert_into_def report_keys_def)

lemma bulk_insert_rows:
  "rows_ok le t \<Longrightarrow> list_all (binding_ok le) bs \<Longrightarrow> rows_ok le (bulk_insert now bs t) \<and> report_keys t \<subseteq> report_keys (bulk_insert now bs t)"
proof (induction bs arbitrary: t)
  case (Cons b bs)
  have "rows_ok le (insert_into now b t) \<and> report_keys t \<subseteq> report_keys (insert_into now b t)" using insert_into_rows Cons.prems by simp
  then show ?case using Cons.IH [of "insert_into now b t"] Cons.prems by (auto simp: bulk_insert_def)
qed (simp add: bulk_insert_def)

lemma handle_report_binding: "handle_report le lo kind f buf = (Inr (Some b), hs) \<Longrightarrow> binding_ok le b"
  by (auto simp: handle_report_def binding_ok_def decodes_def beacon_bindings_def witness_bindings_def
    split: option.splits file_type.splits if_splits)

lemma file_bindings_ok: "list_all (binding_ok le) (fst (file_bindings le lo kind f msgs))"
  by (auto simp: file_bindings_def Let_def list_all_iff map_filter_def split: sum.splits intro: handle_report_binding [OF sym])

lemma process_files_rows:
  "rows_ok le (fst acc) \<Longrightarrow> rows_ok le (fst (foldl (\<lambda>acc info. process_load_file le lo st now f info acc) acc infos)) \<and>
   report_keys (fst acc) \<subseteq> report_keys (fst (foldl (\<lambda>acc info. process_load_file le lo st now f info acc) acc infos))"
proof (induction infos arbitrary: acc)
  case (Cons info infos)
  let ?acc = "process_load_file le lo st now f info acc"
  have "rows_ok le (fst ?acc) \<and> report_keys (fst acc) \<subseteq> report_keys (fst ?acc)"
    using Cons.prems file_bindings_ok bulk_insert_rows by (auto simp: process_load_file_def split_beta Let_def split: sum.splits)
  then show ?case using Cons.IH [of ?acc] by (simp del: split_paired_All) (meson order_trans)
qed simp

lemma process_events_rows:
  "rows_ok le t \<Longrightarrow> rows_ok le (fst (process_events le lo st now kind a b f t)) \<and> report_keys t \<subseteq> report_keys (fst (process_events le lo st now kind a b f t))"
  using process_files_rows [of le "(t, [])"] by (auto simp: process_events_def split: sum.splits)

lemma process_window_rows:
  "rows_ok le t \<Longrightarrow> rows_ok le (process_window le lo st now a b t) \<and> report_keys t \<subseteq> report_keys (process_window le lo st now a b t)"
proof -
  assume "rows_ok le t"
  note first = process_events_rows [OF this, of lo st now IotBeaconIngestReportFile a b None]
  let ?u = "fst (process_events le lo st now IotBeaconIngestReportFile a b None t)"
  have second: "rows_ok le (fst (process_events le lo st now k c d f ?u)) \<and> report_keys t \<subseteq> report_keys (fst (process_events le lo st now k c d f ?u))" for k c d f
    using process_events_rows [OF first [THEN conjunct1], of lo st now k c d f] first by (meson order_trans)
  show ?thesis unfolding process_window_def Let_def split_beta using first second by simp
qed

lemma tick_rows:
  assumes "handle_report_tick le rep lo st ta now (t, meta) = (res, t', meta')" "rows_ok le t"
  shows "rows_ok le t' \<and> report_keys t \<subseteq> report_keys t'"
proof (cases "tick_window lo now (meta_last_timestamp rep REPORTS_META_NAME meta)")
  case None
  then show ?thesis using assms by (auto simp: handle_report_tick_def split: if_splits)
next
  case (Some p)
  obtain a b where p: "p = (a, b)" by (cases p)
  have ready: "same_rows u (pending_beacons_to_ready now u)" for u
    by (simp add: same_rows_def pending_beacons_to_ready_def comp_def)
  let ?u = "process_window le lo st now a b t"
  have "t' = t \<or> t' = ?u \<or> t' = pending_beacons_to_ready now ?u"
    using assms(1) Some p by (simp add: handle_report_tick_def Let_def split: if_splits)
  then show ?thesis using assms(2) process_window_rows [OF assms(2), of lo st now a b] same_rows_keeps [OF ready [of ?u]] by fastforce
qed

section \<open>The purger removes what it wrote\<close>

definition decided :: "'p iot_world \<Rightarrow> bytes set" where
  "decided w = (\<lambda>p. br_data (bv_report (ip_beacon p))) ` set (w_pocs w) \<union> (\<lambda>i. br_data (ivb_report i)) ` set (w_invalid_beacons w) \<union>
     (\<lambda>i. wr_data (ivw_report i)) ` set (w_invalid_witnesses w)"

lemma delete_report_keys:
  assumes "rows_ok le t" "rows_ok le u" "set u \<subseteq> set t" "r \<in> set t"
  shows "report_keys u \<subseteq> report_keys (delete_report (rp_id r) u) \<union> {(rp_id r, rp_packet_data r)}"
proof -
  have "r' = r" if "r' \<in> set u" "rp_id r' = rp_id r" for r'
    using assms that inj_onD [of rp_id "set t" r' r] by (auto simp: rows_ok_def distinct_map)
  then show ?thesis by (auto simp: report_keys_def delete_report_def)
qed

lemma purge_fold:
  fixes P :: "nat \<Rightarrow> report \<Rightarrow> report list \<times> 'a list \<Rightarrow> report list \<times> 'a list"
  assumes step: "\<And>n r acc. r \<in> set t \<Longrightarrow> Q r \<Longrightarrow> P n r acc = acc \<or>
      (\<exists>x. P n r acc = (delete_report (rp_id r) (fst acc), snd acc @ [x]) \<and> h x = rp_packet_data r)"
    and t: "rows_ok le t" and stale: "\<And>r. r \<in> set stale \<Longrightarrow> r \<in> set t \<and> Q r"
    and acc: "rows_ok le (fst acc)" "set (fst acc) \<subseteq> set t"
    and res: "foldl (\<lambda>acc (n, r). P n r acc) acc (enumerate k stale) = acc'"
  shows "rows_ok le (fst acc') \<and> (\<exists>xs. snd acc' = snd acc @ xs \<and> report_keys (fst acc) \<subseteq> report_keys (fst acc') \<union> {(k, d). d \<in> h ` set xs})"
  using acc res stale
proof (induction stale arbitrary: acc k)
  case (Cons r stale)
  let ?a = "P k r acc"
  have mem: "r \<in> set t" "Q r" using Cons.prems(4) by auto
  obtain ys where ys: "snd ?a = snd acc @ ys" "rows_ok le (fst ?a)" "set (fst ?a) \<subseteq> set t"
      "report_keys (fst acc) \<subseteq> report_keys (fst ?a) \<union> {(k, d). d \<in> h ` set ys}"
  proof (cases "?a = acc")
    case False
    then obtain x where x: "?a = (delete_report (rp_id r) (fst acc), snd acc @ [x])" "h x = rp_packet_data r" using step [OF mem] by blast
    have "report_keys (fst acc) \<subseteq> report_keys (fst ?a) \<union> {(k, d). d \<in> h ` set [x]}"
      using delete_report_keys [OF t Cons.prems(1) Cons.prems(2) mem(1)] x by auto
    then show ?thesis using that [of "[x]"] x(1) Cons.prems(1,2) by (auto simp: delete_report_def rows_ok_filter)
  qed (use that [of "[]"] Cons.prems in auto)
  have "foldl (\<lambda>acc (n, r). P n r acc) ?a (enumerate (Suc k) stale) = acc'" using Cons.prems(3) by simp
  from Cons.IH [OF ys(2,3) this] Cons.prems(4) obtain xs where xs: "rows_ok le (fst acc')" "snd acc' = snd ?a @ xs"
      "report_keys (fst ?a) \<subseteq> report_keys (fst acc') \<union> {(k, d). d \<in> h ` set xs}" by auto
  have "report_keys (fst acc) \<subseteq> report_keys (fst acc') \<union> {(k, d). d \<in> h ` set (ys @ xs)}" using ys(4) xs(3) by auto
  then show ?case using xs(1,2) ys(1) by (metis append_assoc)
qed auto

lemma purge_beacons_rows:
  assumes "rows_ok le t" "purge_beacons le ok (get_stale_beacons now p t) t = (t', written)"
  shows "rows_ok le t' \<and> report_keys t \<subseteq> report_keys t' \<union> {(k, d). d \<in> (\<lambda>i. br_data (ivb_report i)) ` set written}"
proof -
  have step: "handle_purged_beacon le (ok n) r acc = acc \<or> (\<exists>x. handle_purged_beacon le (ok n) r acc = (delete_report (rp_id r) (fst acc), snd acc @ [x]) \<and>
      br_data (ivb_report x) = rp_packet_data r)" if "r \<in> set t" "rp_type r = BeaconReport" for n r acc
  proof -
    have "row_ok le r" using that assms(1) by (simp add: rows_ok_def)
    with that(2) obtain b where "le_decode_beacon le (rp_report_data r) = Some b" "rp_packet_data r = br_data (bi_report b)" "rp_id r = beacon_ingest_id (le_blake3 le) b"
      by (auto simp: row_ok_def decodes_def)
    then show ?thesis by (simp add: handle_purged_beacon_def stale_beacon_def)
  qed
  have stale: "r \<in> set t \<and> rp_type r = BeaconReport" if "r \<in> set (get_stale_beacons now p t)" for r
    using that by (simp add: get_stale_beacons_def get_stale_reports_def)
  have res: "foldl (\<lambda>acc (n, r). handle_purged_beacon le (ok n) r acc) (t, []) (enumerate 0 (get_stale_beacons now p t)) = (t', written)"
    using assms(2) by (simp add: purge_beacons_def)
  have start: "rows_ok le (fst (t, []))" "set (fst (t, [])) \<subseteq> set t" using assms(1) by simp_all
  show ?thesis
    using purge_fold [where h = "\<lambda>i. br_data (ivb_report i)" and P = "\<lambda>n r acc. handle_purged_beacon le (ok n) r acc" and Q = "\<lambda>r. rp_type r = BeaconReport"
      and acc = "(t, [])" and acc' = "(t', written)", OF step assms(1) stale start res] by simp
qed

lemma purge_witnesses_rows:
  assumes "rows_ok le t" "purge_witnesses le ok (get_stale_witnesses now p t) t = (t', written)"
  shows "rows_ok le t' \<and> report_keys t \<subseteq> report_keys t' \<union> {(k, d). d \<in> (\<lambda>i. wr_data (ivw_report i)) ` set written}"
proof -
  have step: "handle_purged_witness le (ok n) r acc = acc \<or> (\<exists>x. handle_purged_witness le (ok n) r acc = (delete_report (rp_id r) (fst acc), snd acc @ [x]) \<and>
      wr_data (ivw_report x) = rp_packet_data r)" if "r \<in> set t" "rp_type r = WitnessReport" for n r acc
  proof -
    have "row_ok le r" using that assms(1) by (simp add: rows_ok_def)
    with that(2) obtain b where "le_decode_witness le (rp_report_data r) = Some b" "rp_packet_data r = wr_data (wi_report b)" "rp_id r = witness_ingest_id (le_blake3 le) b"
      by (auto simp: row_ok_def decodes_def)
    then show ?thesis by (simp add: handle_purged_witness_def stale_witness_def)
  qed
  have stale: "r \<in> set t \<and> rp_type r = WitnessReport" if "r \<in> set (get_stale_witnesses now p t)" for r
    using that by (simp add: get_stale_witnesses_def get_stale_reports_def)
  have res: "foldl (\<lambda>acc (n, r). handle_purged_witness le (ok n) r acc) (t, []) (enumerate 0 (get_stale_witnesses now p t)) = (t', written)"
    using assms(2) by (simp add: purge_witnesses_def)
  have start: "rows_ok le (fst (t, []))" "set (fst (t, [])) \<subseteq> set t" using assms(1) by simp_all
  show ?thesis
    using purge_fold [where h = "\<lambda>i. wr_data (ivw_report i)" and P = "\<lambda>n r acc. handle_purged_witness le (ok n) r acc" and Q = "\<lambda>r. rp_type r = WitnessReport"
      and acc = "(t, [])" and acc' = "(t', written)", OF step assms(1) stale start res] by simp
qed

lemma purger_tick_rows:
  assumes "purger_tick le pu pa now es w = (res, es', w')" "rows_ok le (w_reports w)"
  shows "rows_ok le (w_reports w') \<and> decided w \<subseteq> decided w' \<and>
    report_keys (w_reports w) \<subseteq> report_keys (w_reports w') \<union> {(k, d). d \<in> decided w'}"
proof -
  obtain t1 bs where b: "purge_beacons le (pa_write_beacon pa) (get_stale_beacons now (pu_base_stale pu + pu_beacon_stale pu) (w_reports w)) (w_reports w) = (t1, bs)"
    by fastforce
  obtain t2 ws where ww: "purge_witnesses le (pa_write_witness pa) (get_stale_witnesses now (pu_base_stale pu + pu_witness_stale pu) t1) t1 = (t2, ws)" by fastforce
  have w': "w' \<in> {w, w\<lparr>w_invalid_beacons := w_invalid_beacons w @ bs\<rparr>,
      w\<lparr>w_invalid_beacons := w_invalid_beacons w @ bs, w_reports := t1, w_invalid_witnesses := w_invalid_witnesses w @ ws\<rparr>,
      w\<lparr>w_invalid_beacons := w_invalid_beacons w @ bs, w_invalid_witnesses := w_invalid_witnesses w @ ws, w_reports := t2\<rparr>}"
    using assms(1) by (auto simp: purger_tick_def b ww Let_def split: if_splits)
  note r1 = purge_beacons_rows [OF assms(2) b]
  note r2 = purge_witnesses_rows [OF r1 [THEN conjunct1] ww]
  have mono: "decided w \<subseteq> decided w'" using w' by (auto simp: decided_def)
  show ?thesis
  proof (cases "w_reports w' = w_reports w")
    case True
    then show ?thesis using mono assms(2) by auto
  next
    case False
    then have w'': "w' = w\<lparr>w_invalid_beacons := w_invalid_beacons w @ bs, w_reports := t1, w_invalid_witnesses := w_invalid_witnesses w @ ws\<rparr> \<or>
        w' = w\<lparr>w_invalid_beacons := w_invalid_beacons w @ bs, w_invalid_witnesses := w_invalid_witnesses w @ ws, w_reports := t2\<rparr>" using w' by auto
    have "(\<lambda>i. br_data (ivb_report i)) ` set bs \<subseteq> decided w'" "(\<lambda>i. wr_data (ivw_report i)) ` set ws \<subseteq> decided w'"
      using w'' by (auto simp: decided_def)
    then have "report_keys (w_reports w) \<subseteq> report_keys t1 \<union> {(k, d). d \<in> decided w'}" "report_keys t1 \<subseteq> report_keys t2 \<union> {(k, d). d \<in> decided w'}"
      using r1 r2 by blast+
    then show ?thesis using w'' r1 r2 mono by auto
  qed
qed

lemma decides_rows:
  assumes "decides b w w' pocs invalids" "rows_ok le (w_reports w)"
  shows "rows_ok le (w_reports w') \<and> decided w \<subseteq> decided w' \<and>
    report_keys (w_reports w) \<subseteq> report_keys (w_reports w') \<union> {(k, d). d \<in> decided w'}"
proof -
  have mono: "decided w \<subseteq> decided w'" using assms(1) by (auto simp: decides_def decided_def)
  consider "map report_body (w_reports w') = map report_body (w_reports w)"
    | "w_reports w' = delete_poc (br_data (bi_report b)) (w_reports w)" "length pocs + length invalids = 1"
    using assms(1) by (auto simp: decides_def)
  then show ?thesis
  proof cases
    case 1
    then show ?thesis using same_rows_keeps [OF same_bodies [OF 1]] mono assms(2) by auto
  next
    case 2
    have "br_data (bi_report b) \<in> decided w'" using assms(1) 2(2)
      by (cases pocs; cases invalids) (auto simp: decides_def decided_def)
    then show ?thesis using 2(1) mono assms(2) by (auto simp: delete_poc_def rows_ok_filter report_keys_def)
  qed
qed

lemma bump_attempts_rows:
  "rows_ok le (w_reports w) \<Longrightarrow> rows_ok le (w_reports (snd (bump_attempts an key now w))) \<and> decided (snd (bump_attempts an key now w)) = decided w \<and>
    report_keys (w_reports (snd (bump_attempts an key now w))) = report_keys (w_reports w)"
proof -
  assume ok: "rows_ok le (w_reports w)"
  obtain t where t: "snd (bump_attempts an key now w) = w\<lparr>w_reports := t\<rparr>" "map report_body t = map report_body (w_reports w)"
    using bump_attempts_effect [of an key now w "fst (bump_attempts an key now w)" "snd (bump_attempts an key now w)"] by auto
  show ?thesis using same_rows_keeps [OF same_bodies [OF t(2)]] ok t(1) by (simp add: decided_def)
qed

definition accounted :: "load_env \<Rightarrow> 'p verifier \<Rightarrow> bool" where
  "accounted le s \<longleftrightarrow> rows_ok le (w_reports (vs_world s)) \<and> (\<forall>(r, _) \<in> set (vs_queue s). rp_type r = BeaconReport \<and> row_ok le r) \<and>
     vs_inserted s \<subseteq> report_keys (w_reports (vs_world s)) \<union> {(k, d). d \<in> decided (vs_world s)}"

lemma handled_rows:
  assumes "accounted (load_env_of env key_hash xor_filter) s" "row \<in> set (vs_queue s)" "handle_beacon_report env rn an now row (vs_world s) = (res, w)"
  shows "rows_ok (load_env_of env key_hash xor_filter) (w_reports w) \<and> vs_inserted s \<subseteq> report_keys (w_reports w) \<union> {(k, d). d \<in> decided w}"
proof -
  obtain r t v where row: "row = (r, t, v)" by (cases row)
  have "rp_type r = BeaconReport \<and> row_ok (load_env_of env key_hash xor_filter) r" using assms(1,2) row by (auto simp: accounted_def)
  then obtain b where "re_decode_beacon env (rp_report_data r) = Some b" by (auto simp: row_ok_def decodes_def load_env_of_def)
  from handle_beacon_report_decides [OF this assms(3) [unfolded row]] obtain pocs invalids where "decides b (vs_world s) w pocs invalids" by blast
  from decides_rows [OF this] assms(1) show ?thesis unfolding accounted_def by blast
qed

lemma step_accounted:
  assumes "verifier_step env le rep s t" "accounted le s" "le = load_env_of env key_hash xor_filter"
  shows "accounted le t"
  using assms(1)
proof cases
  case (loaded lo st ta now res reports meta)
  then show ?thesis using assms(2) tick_rows [OF loaded(2)] by (auto simp: accounted_def decided_def)
next
  case (handled row rn an now w)
  have "set (remove1 row (vs_queue s)) \<subseteq> set (vs_queue s)" by (rule set_remove1_subset)
  then show ?thesis using handled assms handled_rows [of env key_hash xor_filter s row rn an now "Inr ()" w] by (auto simp: accounted_def)
next
  case (failed row rn an now e w)
  have "set (remove1 row (vs_queue s)) \<subseteq> set (vs_queue s)" by (rule set_remove1_subset)
  moreover note handled_rows [OF assms(2) [unfolded assms(3)] failed(2,3)]
  ultimately show ?thesis using failed assms bump_attempts_rows [of le w an "rp_id (fst row)" now] by (auto simp: accounted_def)
next
  case (panicked row rn an now w)
  then show ?thesis using handled_rows [OF assms(2) [unfolded assms(3)] panicked(2,3)] assms(3) by (auto simp: accounted_def)
next
  case (purged pu pa now res es w)
  then show ?thesis using assms(2) purger_tick_rows [OF purged(2)] unfolding accounted_def by (simp, blast)
next
  case (fetched now rn)
  then show ?thesis using assms(2) by (auto simp: accounted_def get_next_beacons_def rows_ok_def dest!: in_set_takeD)
qed (use assms(2) in \<open>auto simp: accounted_def\<close>)

lemma reachable_accounted:
  "verifier_reachable env le rep s \<Longrightarrow> le = load_env_of env key_hash xor_filter \<Longrightarrow> accounted le s"
proof (induction rule: verifier_reachable.induct)
  case verifier_init
  then show ?case by (simp add: accounted_def verifier_start_def rows_ok_def)
qed (blast intro: step_accounted)



end
