(* ===== verification/Iot_Rewarder.thy ===== *)
theory Iot_Rewarder
  imports Iot_Rewards
begin

text \<open>
  The rewarder of the IoT network, \<open>src/iot_verifier/src/rewarder.rs\<close>: the stages of an epoch over the shares of
  \<open>Iot_Rewards\<close>, the check that the data of the period is complete, and a turn of the loop, an instance of
  \<open>epoch_rewarder\<close>. The lemmas account for the pools, and say that the periods follow each other.
\<close>

section \<open>The stages of an epoch\<close>

definition IOT_REWARDS_NOT_CURRENT_DELAY_PERIOD :: int where "IOT_REWARDS_NOT_CURRENT_DELAY_PERIOD = 5"

datatype iot_unallocated = IotUnallocatedPoc | IotUnallocatedOperation | IotUnallocatedOracle

datatype iot_reward = IotGatewayReward gateway_reward | OperationalReward nat | IotUnallocated iot_unallocated nat

record iot_reward_share =
  is_period :: "u64 \<times> u64"
  is_reward :: iot_reward

type_synonym iot_tables = "poc_share list \<times> dc_share list"

datatype iot_query = QueryDataChecks | QueryShares | QueryDcShares | QueryAggregate

text \<open>How the calls of a tick end, with the time at which the sleep is computed.\<close>

record iot_answers =
  ia_price :: "u64 option"
  ia_query :: "iot_query \<Rightarrow> bool"
  ia_later :: timestamp
  ia_epoch :: epoch_answers

definition iot_unallocated_share :: "timestamp \<times> timestamp \<Rightarrow> iot_unallocated \<Rightarrow> nat \<Rightarrow> iot_reward_share list" where
  "iot_unallocated_share period ty amount =
     (if amount > 0 then [\<lparr>is_period = encode_period period, is_reward = IotUnallocated ty amount\<rparr>] else [])"

definition iot_pool :: "decimal_ops \<Rightarrow> timestamp \<times> timestamp \<Rightarrow> rat" where
  "iot_pool D period =
     (let d = snd period - fst period; (beacon, witness) = get_scheduled_poc_tokens D d 0
      in d_add D (d_add D beacon witness) (get_scheduled_dc_tokens D d))"

definition gateway_rewards :: "decimal_ops \<Rightarrow> timestamp \<times> timestamp \<Rightarrow> rat \<Rightarrow> iot_tables \<Rightarrow> (u64 \<times> gateway_reward) list" where
  "gateway_rewards D period price t =
     (let shares = aggregate_reward_shares D (fst t) (snd t) period;
          (beacon, witness, dc) = calculate_rewards_per_share D shares period price
      in into_iot_reward_shares D shares beacon witness dc)"

definition iot_reward_poc_and_dc ::
  "decimal_ops \<Rightarrow> iot_answers \<Rightarrow> timestamp \<times> timestamp \<Rightarrow> rat \<Rightarrow> iot_tables \<Rightarrow> epoch_error + iot_reward_share list" where
  "iot_reward_poc_and_dc D ia period price t =
     (if \<not> ia_query ia QueryAggregate then Inl (EpochDb DbSql)
      else let rs = gateway_rewards D period price t
           in Inr (map (\<lambda>(_, r). \<lparr>is_period = encode_period period, is_reward = IotGatewayReward r\<rparr>) rs @
                iot_unallocated_share period IotUnallocatedPoc
                  (unallocated_amount D (iot_pool D period) (foldl (\<lambda>acc (n, _). acc + n) 0 rs))))"

definition ops_pool :: "decimal_ops \<Rightarrow> timestamp \<times> timestamp \<Rightarrow> rat" where
  "ops_pool D period = get_scheduled_ops_fund_tokens D (snd period - fst period)"

definition reward_operational :: "decimal_ops \<Rightarrow> timestamp \<times> timestamp \<Rightarrow> iot_reward_share list" where
  "reward_operational D period =
     (let allocated = to_u64_or_0 (trunc_int (ops_pool D period))
      in \<lparr>is_period = encode_period period, is_reward = OperationalReward allocated\<rparr> #
           iot_unallocated_share period IotUnallocatedOperation (unallocated_amount D (ops_pool D period) (of_nat allocated)))"

definition iot_oracle_pool :: "decimal_ops \<Rightarrow> timestamp \<times> timestamp \<Rightarrow> rat" where
  "iot_oracle_pool D period = get_scheduled_oracle_tokens D (snd period - fst period)"

definition iot_reward_oracles :: "decimal_ops \<Rightarrow> timestamp \<times> timestamp \<Rightarrow> iot_reward_share list" where
  "iot_reward_oracles D period =
     iot_unallocated_share period IotUnallocatedOracle (unallocated_amount D (iot_oracle_pool D period) 0)"

section \<open>The loop\<close>

definition iot_reward_epoch ::
  "decimal_ops \<Rightarrow> iot_answers \<Rightarrow> scheduler \<Rightarrow> rat \<Rightarrow> (iot_tables, iot_reward_share) reward_world \<Rightarrow>
   (epoch_error + unit) \<times> (iot_tables, iot_reward_share) reward_world" where
  "iot_reward_epoch D ia sc price w =
     (let period = sc_period sc in
      run_epoch (ia_epoch ia) sc
        [iot_reward_poc_and_dc D ia period price (rw_tables w), Inr (reward_operational D period), Inr (iot_reward_oracles D period)]
        (clear_rewarded_shares (fst period)) w)"

definition data_current_check ::
  "(timestamp \<Rightarrow> bool) \<Rightarrow> (iot_query \<Rightarrow> bool) \<Rightarrow> (string \<rightharpoonup> string) \<Rightarrow> timestamp \<times> timestamp \<Rightarrow> iot_tables \<Rightarrow> db_error + bool" where
  "data_current_check rep query meta period t =
     (case (if query QueryDataChecks then fetch_rewarded_timestamp rep ''disable_complete_data_checks_until'' meta else Inl DbSql) of
        Inl e \<Rightarrow> Inl e
      | Inr until \<Rightarrow>
          if snd period \<ge> until then
            if \<not> query QueryShares then Inl DbSql
            else if filter (\<lambda>s. ps_timestamp s \<ge> snd period) (fst t) = [] then Inr False
            else if \<not> query QueryDcShares then Inl DbSql
            else Inr (filter (\<lambda>s. ds_timestamp s \<ge> snd period) (snd t) \<noteq> [])
          else Inr True)"

definition iot_sleep :: "scheduler \<Rightarrow> timestamp \<Rightarrow> epoch_error + duration" where
  "iot_sleep sc now = (case sleep_duration sc now of Inl _ \<Rightarrow> Inl EpochSleep | Inr d \<Rightarrow> Inr d)"

definition iot_tick ::
  "decimal_ops \<Rightarrow> (timestamp \<Rightarrow> bool) \<Rightarrow> duration \<Rightarrow> duration \<Rightarrow> iot_answers \<Rightarrow> timestamp \<Rightarrow>
   (iot_tables, iot_reward_share) reward_world \<Rightarrow> (epoch_error + duration) \<times> (iot_tables, iot_reward_share) reward_world" where
  "iot_tick D rep len offset ia now w =
     (case fetch_rewarded_timestamp rep LAST_REWARDED_END_TIME (rw_meta w) of
        Inl e \<Rightarrow> (Inl (EpochDb e), w)
      | Inr last_end \<Rightarrow>
          (case fetch_rewarded_timestamp rep NEXT_REWARDED_END_TIME (rw_meta w) of
             Inl e \<Rightarrow> (Inl (EpochDb e), w)
           | Inr next_end \<Rightarrow>
               let sc = new_scheduler len last_end next_end offset in
               if should_reward sc now then
                 (case ia_price ia of
                    None \<Rightarrow> (Inl EpochPrice, w)
                  | Some price \<Rightarrow>
                      (case data_current_check rep (ia_query ia) (rw_meta w) (sc_period sc) (rw_tables w) of
                         Inl e \<Rightarrow> (Inl (EpochDb e), w)
                       | Inr False \<Rightarrow> (Inr (minutes IOT_REWARDS_NOT_CURRENT_DELAY_PERIOD), w)
                       | Inr True \<Rightarrow>
                           (case iot_reward_epoch D ia sc (of_nat (unat price)) w of
                              (Inl e, w) \<Rightarrow> (Inl e, w)
                            | (Inr _, w) \<Rightarrow> (iot_sleep sc (ia_later ia), w))))
               else (iot_sleep sc (ia_later ia), w)))"

section \<open>Periods\<close>

lemma iot_tick_effect:
  assumes "iot_tick D rep len offset ia now w = (res, w')"
  shows "rw_meta w' = rw_meta w \<and> eo_manifests (rw_out w') = eo_manifests (rw_out w) \<or> period_advanced rep len offset now w w'"
proof (cases "w' = w")
  case False
  then obtain a b p r where run: "fetch_rewarded_timestamp rep LAST_REWARDED_END_TIME (rw_meta w) = Inr a"
      "fetch_rewarded_timestamp rep NEXT_REWARDED_END_TIME (rw_meta w) = Inr b" "should_reward (new_scheduler len a b offset) now"
      "iot_reward_epoch D ia (new_scheduler len a b offset) p w = (r, w')"
    using assms by (auto simp: iot_tick_def Let_def split: sum.splits if_splits bool.splits prod.splits option.splits)
  show ?thesis by (rule run_epoch_advances [OF run(4) [unfolded iot_reward_epoch_def Let_def] refl run(3,1,2)])
qed simp

interpretation iot_epochs: epoch_rewarder "iot_tick D rep len offset" rep len offset for D rep len offset
  by unfold_locales (rule iot_tick_effect)

text \<open>C14: the periods the IoT rewarder pays follow each other without gap and without overlap, each of the configured length, over every sequence of
  ticks, changes of the tables and restarts; the manifests are those of these periods, in their order, at most one for each.\<close>

theorem iot_periods_contiguous:
  assumes "epoch_reachable (iot_tick D rep len offset) rep w\<^sub>0 (w, ps)" "0 < len" "len mod nanos_per_sec = 0"
    "rw_meta w\<^sub>0 LAST_REWARDED_END_TIME = Some (show_int a)" "rw_meta w\<^sub>0 NEXT_REWARDED_END_TIME = Some (show_int b)"
    "eo_manifests (rw_out w\<^sub>0) = []"
  shows "(\<forall>i < length ps. ps ! i = (if i = 0 then seconds a else seconds b + int (i - 1) * len, seconds b + int i * len)) \<and>
    subseq (map fst (eo_manifests (rw_out w))) (map encode_period ps)"
  using iot_epochs.periods_contiguous [OF assms(1), of "(seconds a, seconds b)"] assms(2-) by simp

section \<open>What an epoch pays\<close>

fun iot_reward_amount :: "iot_reward \<Rightarrow> nat" where
  "iot_reward_amount (IotGatewayReward r) = gr_beacon r + gr_witness r + gr_dc r"
| "iot_reward_amount (OperationalReward n) = n"
| "iot_reward_amount (IotUnallocated _ n) = n"

definition iot_amounts :: "iot_reward_share list \<Rightarrow> nat" where
  "iot_amounts rs = sum_list (map (\<lambda>s. iot_reward_amount (is_reward s)) rs)"

definition gateway_amounts :: "(u64 \<times> gateway_reward) list \<Rightarrow> nat list" where
  "gateway_amounts rs = map (\<lambda>(_, r). gr_beacon r + gr_witness r + gr_dc r) rs"

lemma iot_amounts_append [simp]: "iot_amounts (xs @ ys) = iot_amounts xs + iot_amounts ys"
  by (simp add: iot_amounts_def)

lemma iot_unallocated_amounts [simp]: "iot_amounts (iot_unallocated_share period ty n) = n"
  by (simp add: iot_amounts_def iot_unallocated_share_def)

lemma gateway_total:
  "foldl (\<lambda>acc (n, _). acc + n) 0 (gateway_rewards D period price t) = allocated_sum (gateway_amounts (gateway_rewards D period price t))"
proof -
  have each: "n = of_nat (gr_beacon r + gr_witness r + gr_dc r)" if "(n, r) \<in> set (gateway_rewards D period price t)" for n r
    using that by (auto simp: gateway_rewards_def into_iot_reward_shares_def Let_def add.commute add.left_commute split: prod.splits)
  have "foldl (\<lambda>acc (n, _). acc + n) a rs = foldl (\<lambda>acc n. acc + of_nat n) a (gateway_amounts rs)"
    if "\<forall>(n, r) \<in> set rs. n = of_nat (gr_beacon r + gr_witness r + gr_dc r)" for a :: u64 and rs
    using that by (induction rs arbitrary: a) (auto simp: gateway_amounts_def)
  from this [of "gateway_rewards D period price t" 0] show ?thesis unfolding allocated_sum_def using each by blast
qed

lemma iot_stage_amounts:
  assumes "decimal_laws D" "representable (iot_pool D period)" "0 \<le> iot_pool D period" "iot_pool D period < 2 ^ 64"
    "sum_list (gateway_amounts (gateway_rewards D period price t)) < 2 ^ 64" "iot_reward_poc_and_dc D ia period price t = Inr rs"
  shows "int (iot_amounts rs) = max (int (sum_list (gateway_amounts (gateway_rewards D period price t)))) \<lfloor>iot_pool D period\<rfloor>"
proof -
  let ?g = "gateway_rewards D period price t"
  have paid: "iot_amounts (map (\<lambda>(_, r). \<lparr>is_period = p, is_reward = IotGatewayReward r\<rparr>) xs) = sum_list (gateway_amounts xs)" for p xs
    by (induction xs) (auto simp: iot_amounts_def gateway_amounts_def)
  have "iot_amounts rs = sum_list (gateway_amounts ?g) + unallocated_amount D (iot_pool D period) (allocated_sum (gateway_amounts ?g))"
    using assms(6) paid [of "encode_period period" ?g] by (auto simp: iot_reward_poc_and_dc_def Let_def gateway_total split: if_splits)
  then show ?thesis using pool_accounted [OF assms(1-5)] by simp
qed

lemma operational_amounts:
  assumes "decimal_laws D" "representable (ops_pool D period)" "0 \<le> ops_pool D period" "ops_pool D period < 2 ^ 64"
  shows "int (iot_amounts (reward_operational D period)) = \<lfloor>ops_pool D period\<rfloor>"
proof -
  let ?P = "ops_pool D period"
  have n: "int (to_u64_or_0 (trunc_int ?P)) = \<lfloor>?P\<rfloor>" using assms(3,4) by (simp add: trunc_int_def to_u64_or_0_def floor_less_iff)
  have small: "sum_list [to_u64_or_0 (trunc_int ?P)] < 2 ^ 64" by (simp add: to_u64_or_0_def) linarith
  have "int (to_u64_or_0 (trunc_int ?P)) + int (unallocated_amount D ?P (of_nat (to_u64_or_0 (trunc_int ?P)))) = \<lfloor>?P\<rfloor>"
    using pool_accounted [OF assms small] n by (simp add: allocated_sum_def)
  then show ?thesis by (simp add: reward_operational_def Let_def iot_amounts_def [of "_ # _"]) (simp add: iot_amounts_def [symmetric])
qed

lemma iot_oracle_amounts:
  assumes "decimal_laws D" "representable (iot_oracle_pool D period)" "0 \<le> iot_oracle_pool D period" "iot_oracle_pool D period < 2 ^ 64"
  shows "int (iot_amounts (iot_reward_oracles D period)) = \<lfloor>iot_oracle_pool D period\<rfloor>"
  using pool_accounted [OF assms, of "[]"] assms(3) by (simp add: iot_reward_oracles_def allocated_sum_def)

definition iot_pool_fits :: "rat \<Rightarrow> bool" where
  "iot_pool_fits P \<longleftrightarrow> representable P \<and> 0 \<le> P \<and> P < 2 ^ 64"

text \<open>C13: when an epoch of the IoT network ends without error, its manifest names the rewards of all its pools: what gateways are paid and what is written as unallocated
  make up the whole pool for beacons, witnesses and data without its fraction, or what gateways are paid if that is more; the operational
  fund and the oracles get exactly their pools without the fraction.\<close>

theorem iot_epoch_accounted:
  assumes "decimal_laws D" "iot_reward_epoch D ia sc price w = (Inr (), w')" "eo_sink (rw_out w) = []" "period = sc_period sc"
    "iot_pool_fits (iot_pool D period)" "iot_pool_fits (ops_pool D period)" "iot_pool_fits (iot_oracle_pool D period)"
    "paid = sum_list (gateway_amounts (gateway_rewards D period price (rw_tables w)))" "paid < 2 ^ 64"
  shows "\<exists>gateways ops oracles.
    eo_manifests (rw_out w') = eo_manifests (rw_out w) @ [(encode_period period, gateways @ ops @ oracles)] \<and>
    int (iot_amounts gateways) = max (int paid) \<lfloor>iot_pool D period\<rfloor> \<and>
    int (iot_amounts ops) = \<lfloor>ops_pool D period\<rfloor> \<and> int (iot_amounts oracles) = \<lfloor>iot_oracle_pool D period\<rfloor>"
proof -
  let ?all = "[iot_reward_poc_and_dc D ia period price (rw_tables w), Inr (reward_operational D period), Inr (iot_reward_oracles D period)]"
  have run: "run_epoch (ia_epoch ia) sc ?all (clear_rewarded_shares (fst period)) w = (Inr (), w')"
    using assms(2) unfolding iot_reward_epoch_def Let_def assms(4) .
  have ok: "\<forall>x \<in> set ?all. \<exists>rs. x = Inr rs" and man: "eo_manifests (rw_out w') = eo_manifests (rw_out w) @
      [(encode_period period, eo_sink (rw_out w) @ concat (map projr ?all))]" using run_epoch_effect [OF run] unfolding assms(4) by auto
  obtain gateways where g: "iot_reward_poc_and_dc D ia period price (rw_tables w) = Inr gateways" using ok by auto
  have "int (iot_amounts gateways) = max (int paid) \<lfloor>iot_pool D period\<rfloor>"
    using iot_stage_amounts [OF assms(1) _ _ _ _ g] assms(5,8,9) by (simp add: iot_pool_fits_def)
  moreover have "int (iot_amounts (reward_operational D period)) = \<lfloor>ops_pool D period\<rfloor>"
    using operational_amounts [OF assms(1)] assms(6) by (simp add: iot_pool_fits_def)
  moreover have "int (iot_amounts (iot_reward_oracles D period)) = \<lfloor>iot_oracle_pool D period\<rfloor>"
    using iot_oracle_amounts [OF assms(1)] assms(7) by (simp add: iot_pool_fits_def)
  moreover have "eo_manifests (rw_out w') = eo_manifests (rw_out w) @
      [(encode_period period, gateways @ reward_operational D period @ iot_reward_oracles D period)]" using man g assms(3) by simp
  ultimately show ?thesis by blast
qed

section \<open>A run of the rewarder\<close>

definition sample_iot_meta :: "string \<rightharpoonup> string" where
  "sample_iot_meta = [LAST_REWARDED_END_TIME \<mapsto> show_int 0, NEXT_REWARDED_END_TIME \<mapsto> show_int 1976400,
     ''disable_complete_data_checks_until'' \<mapsto> show_int 1000000000]"

definition sample_iot_world :: "(iot_tables, iot_reward_share) reward_world" where
  "sample_iot_world = \<lparr>rw_meta = sample_iot_meta, rw_tables = ([], []), rw_out = \<lparr>eo_sink = [], eo_manifests = []\<rparr>\<rparr>"

definition sample_iot_answers :: iot_answers where
  "sample_iot_answers = \<lparr>ia_price = Some 1000000, ia_query = (\<lambda>_. True), ia_later = hours 551,
     ia_epoch = \<lparr>ea_write = (\<lambda>_. True), ea_commit = True, ea_db = True, ea_manifest = True\<rparr>\<rparr>"

abbreviation sample_iot_scheduler :: scheduler where
  "sample_iot_scheduler \<equiv> new_scheduler (hours 549) 0 (hours 549) 0"

lemma sample_iot_epoch:
  "\<exists>w'. iot_reward_epoch exact_decimal sample_iot_answers sample_iot_scheduler price sample_iot_world = (Inr (), w') \<and>
    rw_meta w' = advance_period sample_iot_scheduler sample_iot_meta"
proof -
  let ?p = "sc_period sample_iot_scheduler"
  obtain gw where g: "iot_reward_poc_and_dc exact_decimal sample_iot_answers ?p price (rw_tables sample_iot_world) = Inr gw"
    by (simp add: iot_reward_poc_and_dc_def sample_iot_answers_def Let_def)
  have ok: "\<forall>s \<in> set [Inr gw, Inr (reward_operational exact_decimal ?p), Inr (iot_reward_oracles exact_decimal ?p)]. \<exists>rs. s = Inr rs" by simp
  have ea: "ia_epoch sample_iot_answers = \<lparr>ea_write = (\<lambda>_. True), ea_commit = True, ea_db = True, ea_manifest = True\<rparr>" and
    w: "rw_meta sample_iot_world = sample_iot_meta" by (simp_all add: sample_iot_answers_def sample_iot_world_def)
  show ?thesis unfolding iot_reward_epoch_def Let_def g
    using run_epoch_answered [of "ia_epoch sample_iot_answers", OF _ _ _ ok, of sample_iot_scheduler "clear_rewarded_shares (fst ?p)" sample_iot_world]
    unfolding ea w by auto
qed

lemma round_dp_int: "round_dp dp (of_int n) = of_int n"
  using round_dp_bounds [of n "of_int n" n dp] by simp

lemma sample_iot_pools:
  "iot_pool exact_decimal (0, hours 549) = 1625000000000000" "ops_pool exact_decimal (0, hours 549) = 142187500000000"
  "iot_oracle_pool exact_decimal (0, hours 549) = 142187500000000"
proof -
  have r: "round_dp dp 121875000000000 = 121875000000000" "round_dp dp 487500000000000 = 487500000000000"
    "round_dp dp 1015625000000000 = 1015625000000000" "round_dp dp 142187500000000 = 142187500000000" for dp
    using round_dp_int [of dp 121875000000000] round_dp_int [of dp 487500000000000] round_dp_int [of dp 1015625000000000] round_dp_int [of dp 142187500000000] by simp_all
  show "iot_pool exact_decimal (0, hours 549) = 1625000000000000" "ops_pool exact_decimal (0, hours 549) = 142187500000000"
    "iot_oracle_pool exact_decimal (0, hours 549) = 142187500000000"
    by (simp_all add: iot_pool_def ops_pool_def iot_oracle_pool_def get_scheduled_poc_tokens_def get_scheduled_dc_tokens_def get_scheduled_ops_fund_tokens_def
      get_scheduled_oracle_tokens_def get_tokens_by_duration_def REWARDS_PER_DAY_def exact_decimal_def num_seconds_def r
      BEACON_REWARDS_PER_DAY_PERCENT_def WITNESS_REWARDS_PER_DAY_PERCENT_def DATA_TRANSFER_REWARDS_PER_DAY_PERCENT_def
      OPERATIONS_REWARDS_PER_DAY_PERCENT_def ORACLES_REWARDS_PER_DAY_PERCENT_def)
qed

theorem iot_epoch_accounted_witness:
  "\<exists>w' rs. iot_reward_epoch exact_decimal sample_iot_answers sample_iot_scheduler 1000000 sample_iot_world = (Inr (), w') \<and>
    eo_manifests (rw_out w') = [(encode_period (0, hours 549), rs)] \<and> int (iot_amounts rs) = 1909375000000000"
proof -
  let ?D = exact_decimal
  obtain w' where w': "iot_reward_epoch ?D sample_iot_answers sample_iot_scheduler 1000000 sample_iot_world = (Inr (), w')" using sample_iot_epoch by blast
  have p: "(0, hours 549) = sc_period sample_iot_scheduler" by (simp add: new_scheduler_def)
  have w: "eo_sink (rw_out sample_iot_world) = []" "eo_manifests (rw_out sample_iot_world) = []" by (simp_all add: sample_iot_world_def)
  have "representable 1625000000000000" "representable 142187500000000"
    using representable_int [of 1625000000000000] representable_int [of 142187500000000] by simp_all
  then have fits: "iot_pool_fits (iot_pool ?D (0, hours 549))" "iot_pool_fits (ops_pool ?D (0, hours 549))" "iot_pool_fits (iot_oracle_pool ?D (0, hours 549))"
    unfolding sample_iot_pools by (simp_all add: iot_pool_fits_def)
  have paid: "0 = sum_list (gateway_amounts (gateway_rewards ?D (0, hours 549) 1000000 (rw_tables sample_iot_world)))"
    by (simp add: gateway_rewards_def Let_def sample_iot_world_def aggregate_reward_shares_def aggregate_poc_shares_def aggregate_dc_shares_def
      into_iot_reward_shares_def gateway_amounts_def split: prod.splits)
  obtain gw ops oracles where m: "eo_manifests (rw_out w') = [(encode_period (0, hours 549), gw @ ops @ oracles)]"
    "int (iot_amounts gw) = max (int 0) \<lfloor>iot_pool ?D (0, hours 549)\<rfloor>" "int (iot_amounts ops) = \<lfloor>ops_pool ?D (0, hours 549)\<rfloor>"
    "int (iot_amounts oracles) = \<lfloor>iot_oracle_pool ?D (0, hours 549)\<rfloor>"
    using iot_epoch_accounted [OF exact_decimal_laws w' w(1) p fits paid] unfolding w(2) append_Nil by (auto simp del: fst_conv snd_conv)
  have "int (iot_amounts (gw @ ops @ oracles)) = 1909375000000000" using m(2-4) unfolding sample_iot_pools by simp
  then show ?thesis using w' m(1) by blast
qed

theorem iot_periods_contiguous_witness:
  "\<exists>w ps. epoch_reachable (iot_tick exact_decimal (\<lambda>_. True) (hours 549) 0) (\<lambda>_. True) sample_iot_world (w, ps) \<and> ps \<noteq> [] \<and> ps ! 0 = (0, hours 549)"
proof -
  let ?tick = "iot_tick exact_decimal (\<lambda>_. True) (hours 549) 0" and ?w = sample_iot_world
  have meta: "rw_meta ?w LAST_REWARDED_END_TIME = Some (show_int 0)" "rw_meta ?w NEXT_REWARDED_END_TIME = Some (show_int 1976400)"
      "rw_meta ?w ''disable_complete_data_checks_until'' = Some (show_int 1000000000)" "eo_manifests (rw_out ?w) = []"
    by (simp_all add: sample_iot_world_def sample_iot_meta_def)
  have f: "fetch_rewarded_timestamp (\<lambda>_. True) LAST_REWARDED_END_TIME (rw_meta ?w) = Inr 0"
    "fetch_rewarded_timestamp (\<lambda>_. True) NEXT_REWARDED_END_TIME (rw_meta ?w) = Inr (hours 549)"
    "fetch_rewarded_timestamp (\<lambda>_. True) ''disable_complete_data_checks_until'' (rw_meta ?w) = Inr (seconds 1000000000)"
    using fetch_stored [of "rw_meta ?w" LAST_REWARDED_END_TIME 0 "\<lambda>_. True"] fetch_stored [of "rw_meta ?w" NEXT_REWARDED_END_TIME 1976400 "\<lambda>_. True"]
      fetch_stored [of "rw_meta ?w" "''disable_complete_data_checks_until''" 1000000000 "\<lambda>_. True"] meta by simp_all
  obtain w' where w': "iot_reward_epoch exact_decimal sample_iot_answers sample_iot_scheduler 1000000 ?w = (Inr (), w')"
    "rw_meta w' = advance_period sample_iot_scheduler sample_iot_meta" using sample_iot_epoch by blast
  have due: "should_reward sample_iot_scheduler (hours 550)" "sc_period sample_iot_scheduler = (0, hours 549)" by (simp_all add: should_reward_def new_scheduler_def)
  have a: "ia_price sample_iot_answers = Some 1000000" "ia_query sample_iot_answers = (\<lambda>_. True)" by (simp_all add: sample_iot_answers_def)
  have cur: "data_current_check (\<lambda>_. True) (\<lambda>_. True) (rw_meta ?w) (0, hours 549) (rw_tables ?w) = Inr True"
    by (simp add: data_current_check_def f)
  have tick: "?tick sample_iot_answers (hours 550) ?w = (iot_sleep sample_iot_scheduler (ia_later sample_iot_answers), w')"
    unfolding iot_tick_def f sum.case Let_def due(2) a option.case cur using due(1) w'(1) by simp
  have "rw_meta w' LAST_REWARDED_END_TIME = Some (show_int 1976400)"
    unfolding w'(2) by (simp add: advance_period_def save_rewarded_timestamp_def meta_store_def new_scheduler_def next_reward_period_def)
  then have "rw_meta w' \<noteq> rw_meta ?w" using meta(1) show_int_i64 [of 0 1976400] by auto
  then have "epoch_step ?tick (\<lambda>_. True) (?w, []) (w', [(0, hours 549)])"
    using epoch_step.ticked [where tick = ?tick, OF tick, of "\<lambda>_. True" "[]"] f by simp
  then have reach: "epoch_reachable ?tick (\<lambda>_. True) ?w (w', [(0, hours 549)])" by (rule epoch_reachable.epoch_next [OF epoch_reachable.epoch_init])
  have "(if (0::nat) = 0 then seconds 0 else seconds 1976400 + int (0 - 1) * hours 549, seconds 1976400 + int 0 * hours 549) = [(0, hours 549)] ! 0"
    using iot_periods_contiguous [OF reach _ _ meta(1,2,4)] by simp
  then show ?thesis using reach by (intro exI [of _ w'] exI [of _ "[(0, hours 549)]"]) simp
qed

end
