(* ===== verification/File_Sink.thy ===== *)
theory File_Sink
  imports File_Store "HOL-Library.AList" "HOL-Library.Multiset"
begin

text \<open>
  The sink through which every service writes its output and the uploader that moves the files
  to the bucket, after \<open>src/file_store/src/file_sink.rs\<close> and \<open>file_upload.rs\<close>: the active file, its rolling
  by size and time, staging, commit and rollback, and the treatment of partial files at the start. A
  file is its name and the messages in it; compression and framing are left out but for the largest
  frame. A write that is refused is taken to leave the file as it was. The lemmas show that no acknowledged message is lost,
  that a commit names exactly the files of the messages since the last one, and that two sinks
  with the same prefix lose messages at a restart.
\<close>

section \<open>The sink\<close>

record sink_config =
  sk_prefix :: string
  sk_max_size :: nat
  sk_roll_time :: duration
  sk_auto_commit :: bool
  sk_upload :: bool

record active_sink =
  ac_size :: nat
  ac_time :: timestamp
  ac_name :: string
  ac_open :: bool

record file_sink =
  sn_staged :: "string list"
  sn_active :: "active_sink option"

text \<open>The two directories hold files by name, each with the messages in it; sinks may share them. The last
  field lists the files that were handed to the uploader.\<close>

record sink_dirs =
  sd_tmp :: "(string \<times> bytes list) list"
  sd_target :: "(string \<times> bytes list) list"
  sd_uploads :: "string list"

datatype sink_error = SinkIo

text \<open>How the calls of one operation end.\<close>

record sink_io =
  io_open :: bool
  io_shutdown :: bool
  io_send :: bool
  io_rename :: "string \<Rightarrow> bool"
  io_upload :: "string \<Rightarrow> bool"
  io_remove :: "string \<Rightarrow> bool"

definition MAX_FRAME_LENGTH :: nat where "MAX_FRAME_LENGTH = 15000000"

definition sink_file_name :: "string \<Rightarrow> timestamp \<Rightarrow> string" where
  "sink_file_name pre now = pre @ ''.'' @ show_int (now div 1000000) @ ''.gz''"

definition empty_sink :: file_sink where
  "empty_sink = \<lparr>sn_staged = [], sn_active = None\<rparr>"

text \<open>A file that exists is opened at its start and overwritten.\<close>

definition new_sink :: "sink_config \<Rightarrow> sink_io \<Rightarrow> timestamp \<Rightarrow> file_sink \<Rightarrow> sink_dirs \<Rightarrow> (sink_error + unit) \<times> file_sink \<times> sink_dirs" where
  "new_sink cfg io now sn d =
     (if io_open io then
        let name = sink_file_name (sk_prefix cfg) now in
        (Inr (), sn\<lparr>sn_staged := sn_staged sn @ [name],
                    sn_active := Some \<lparr>ac_size = 0, ac_time = now, ac_name = name, ac_open = True\<rparr>\<rparr>,
         d\<lparr>sd_tmp := AList.update name [] (sd_tmp d)\<rparr>)
      else (Inl SinkIo, sn, d))"

definition shutdown_active :: "sink_io \<Rightarrow> active_sink \<Rightarrow> (sink_error + active_sink)" where
  "shutdown_active io a = (if io_shutdown io then Inr (a\<lparr>ac_open := False\<rparr>) else Inl SinkIo)"

definition maybe_close_active_sink :: "sink_io \<Rightarrow> file_sink \<Rightarrow> sink_error + file_sink" where
  "maybe_close_active_sink io sn =
     (case sn_active sn of
        None \<Rightarrow> Inr sn
      | Some a \<Rightarrow> (case shutdown_active io a of Inl e \<Rightarrow> Inl e | Inr _ \<Rightarrow> Inr (sn\<lparr>sn_active := None\<rparr>)))"

definition deposit_sink :: "sink_config \<Rightarrow> sink_io \<Rightarrow> string \<Rightarrow> sink_dirs \<Rightarrow> (sink_error + unit) \<times> sink_dirs" where
  "deposit_sink cfg io name d =
     (case map_of (sd_tmp d) name of
        None \<Rightarrow> (Inr (), d)
      | Some msgs \<Rightarrow>
          if io_rename io name then
            let d = d\<lparr>sd_tmp := AList.delete name (sd_tmp d), sd_target := AList.update name msgs (sd_target d)\<rparr> in
            if \<not> sk_upload cfg then (Inr (), d)
            else if io_upload io name then (Inr (), d\<lparr>sd_uploads := sd_uploads d @ [name]\<rparr>)
            else (Inl SinkIo, d)
          else (Inl SinkIo, d))"

fun deposit_all :: "sink_config \<Rightarrow> sink_io \<Rightarrow> string list \<Rightarrow> sink_dirs \<Rightarrow> (sink_error + string list) \<times> sink_dirs" where
  "deposit_all cfg io [] d = (Inr [], d)"
| "deposit_all cfg io (n # ns) d =
     (case deposit_sink cfg io n d of
        (Inl e, d) \<Rightarrow> (Inl e, d)
      | (Inr _, d) \<Rightarrow>
          (case deposit_all cfg io ns d of
             (Inl e, d) \<Rightarrow> (Inl e, d)
           | (Inr manifest, d) \<Rightarrow> (Inr (n # manifest), d)))"

text \<open>The list of staged files is taken before the first is deposited.\<close>

definition commit_sink :: "sink_config \<Rightarrow> sink_io \<Rightarrow> file_sink \<Rightarrow> sink_dirs \<Rightarrow> (sink_error + string list) \<times> file_sink \<times> sink_dirs" where
  "commit_sink cfg io sn d =
     (case maybe_close_active_sink io sn of
        Inl e \<Rightarrow> (Inl e, sn, d)
      | Inr sn \<Rightarrow> (let (r, d) = deposit_all cfg io (sn_staged sn) d in (r, sn\<lparr>sn_staged := []\<rparr>, d)))"

fun remove_all :: "sink_io \<Rightarrow> string list \<Rightarrow> sink_dirs \<Rightarrow> (sink_error + string list) \<times> sink_dirs" where
  "remove_all io [] d = (Inr [], d)"
| "remove_all io (n # ns) d =
     (if io_remove io n \<and> map_of (sd_tmp d) n \<noteq> None then
        case remove_all io ns (d\<lparr>sd_tmp := AList.delete n (sd_tmp d)\<rparr>) of
          (Inl e, d) \<Rightarrow> (Inl e, d)
        | (Inr manifest, d) \<Rightarrow> (Inr (n # manifest), d)
      else (Inl SinkIo, d))"

definition rollback_sink :: "sink_io \<Rightarrow> file_sink \<Rightarrow> sink_dirs \<Rightarrow> (sink_error + string list) \<times> file_sink \<times> sink_dirs" where
  "rollback_sink io sn d =
     (case maybe_close_active_sink io sn of
        Inl e \<Rightarrow> (Inl e, sn, d)
      | Inr sn \<Rightarrow> (let (r, d) = remove_all io (sn_staged sn) d in (r, sn\<lparr>sn_staged := []\<rparr>, d)))"

definition maybe_roll :: "sink_config \<Rightarrow> sink_io \<Rightarrow> timestamp \<Rightarrow> file_sink \<Rightarrow> sink_dirs \<Rightarrow> (sink_error + unit) \<times> file_sink \<times> sink_dirs" where
  "maybe_roll cfg io now sn d =
     (case sn_active sn of
        None \<Rightarrow> (Inr (), sn, d)
      | Some a \<Rightarrow>
          if ac_time a + sk_roll_time cfg \<le> now then
            if sk_auto_commit cfg then
              (case commit_sink cfg io sn d of (Inl e, sn, d) \<Rightarrow> (Inl e, sn, d) | (Inr _, sn, d) \<Rightarrow> (Inr (), sn, d))
            else (case maybe_close_active_sink io sn of Inl e \<Rightarrow> (Inl e, sn, d) | Inr sn \<Rightarrow> (Inr (), sn, d))
          else (Inr (), sn, d))"

text \<open>The first part of a write: the active sink is left or replaced, or a first one is made.\<close>

definition prepare_sink :: "sink_config \<Rightarrow> sink_io \<Rightarrow> timestamp \<Rightarrow> nat \<Rightarrow> file_sink \<Rightarrow> sink_dirs \<Rightarrow> (sink_error + unit) \<times> file_sink \<times> sink_dirs" where
  "prepare_sink cfg io now buf_len sn d =
     (case sn_active sn of
        None \<Rightarrow> new_sink cfg io now sn d
      | Some a \<Rightarrow>
          if ac_size a + buf_len \<ge> sk_max_size cfg then
            case shutdown_active io a of
              Inl e \<Rightarrow> (Inl e, sn, d)
            | Inr a \<Rightarrow>
                let sn = sn\<lparr>sn_active := Some a\<rparr> in
                if sk_auto_commit cfg then
                  (case commit_sink cfg io sn d of
                     (Inl e, sn, d) \<Rightarrow> (Inl e, sn, d)
                   | (Inr _, sn, d) \<Rightarrow> new_sink cfg io now sn d)
                else new_sink cfg io now sn d
          else (Inr (), sn, d))"

definition write_sink :: "sink_config \<Rightarrow> sink_io \<Rightarrow> timestamp \<Rightarrow> bytes \<Rightarrow> file_sink \<Rightarrow> sink_dirs \<Rightarrow> (sink_error + unit) \<times> file_sink \<times> sink_dirs" where
  "write_sink cfg io now buf sn d =
     (case prepare_sink cfg io now (length buf) sn d of
        (Inl e, sn, d) \<Rightarrow> (Inl e, sn, d)
      | (Inr _, sn, d) \<Rightarrow>
          (case sn_active sn of
             None \<Rightarrow> (Inl SinkIo, sn, d)
           | Some a \<Rightarrow>
               if io_send io \<and> ac_open a \<and> length buf \<le> MAX_FRAME_LENGTH then
                 (Inr (), sn\<lparr>sn_active := Some (a\<lparr>ac_size := ac_size a + length buf\<rparr>)\<rparr>,
                  d\<lparr>sd_tmp := AList.map_entry (ac_name a) (\<lambda>msgs. msgs @ [buf]) (sd_tmp d)\<rparr>)
               else (Inl SinkIo, sn, d)))"

text \<open>At the start the files in the target are handed to the uploader again, and the partial files of the
  prefix are deposited or, without automatic commits, removed; failures there are ignored.\<close>

definition init_partial :: "sink_config \<Rightarrow> sink_io \<Rightarrow> sink_dirs \<Rightarrow> string \<Rightarrow> sink_dirs" where
  "init_partial cfg io d name =
     (if prefix (sk_prefix cfg) name then
        if sk_auto_commit cfg then snd (deposit_sink cfg io name d)
        else if io_remove io name then d\<lparr>sd_tmp := AList.delete name (sd_tmp d)\<rparr> else d
      else d)"

definition init_sink :: "sink_config \<Rightarrow> sink_io \<Rightarrow> sink_dirs \<Rightarrow> (sink_error + unit) \<times> sink_dirs" where
  "init_sink cfg io d =
     (let again = filter (prefix (sk_prefix cfg)) (map fst (sd_target d)) in
      if sk_upload cfg \<and> \<not> list_all (io_upload io) again then (Inl SinkIo, d)
      else let d = (if sk_upload cfg then d\<lparr>sd_uploads := sd_uploads d @ again\<rparr> else d) in
           (Inr (), foldl (init_partial cfg io) d (map fst (sd_tmp d))))"

section \<open>Runs of a sink\<close>

text \<open>A sink and its directories, with the messages acknowledged since the last commit or rollback, and all messages
  acknowledged. The name of a new file is fresh when the clock has moved on by a millisecond since the last one.\<close>

record sink_run =
  sr_sink :: file_sink
  sr_dirs :: sink_dirs
  sr_pending :: "bytes list"
  sr_acked :: "bytes list"

definition fresh_name :: "sink_config \<Rightarrow> timestamp \<Rightarrow> sink_dirs \<Rightarrow> bool" where
  "fresh_name cfg now d \<longleftrightarrow> sink_file_name (sk_prefix cfg) now \<notin> fst ` set (sd_tmp d) \<union> fst ` set (sd_target d)"

inductive sink_step :: "sink_config \<Rightarrow> sink_run \<Rightarrow> sink_run \<Rightarrow> bool" for cfg where
  written: "fresh_name cfg now (sr_dirs s) \<Longrightarrow> write_sink cfg io now buf (sr_sink s) (sr_dirs s) = (Inr (), sn, d) \<Longrightarrow>
    sink_step cfg s (s\<lparr>sr_sink := sn, sr_dirs := d, sr_pending := sr_pending s @ [buf], sr_acked := sr_acked s @ [buf]\<rparr>)"
| refused: "fresh_name cfg now (sr_dirs s) \<Longrightarrow> write_sink cfg io now buf (sr_sink s) (sr_dirs s) = (Inl e, sn, d) \<Longrightarrow>
    sink_step cfg s (s\<lparr>sr_sink := sn, sr_dirs := d\<rparr>)"
| rolled: "maybe_roll cfg io now (sr_sink s) (sr_dirs s) = (res, sn, d) \<Longrightarrow> sink_step cfg s (s\<lparr>sr_sink := sn, sr_dirs := d\<rparr>)"
| committed: "commit_sink cfg io (sr_sink s) (sr_dirs s) = (Inr manifest, sn, d) \<Longrightarrow>
    sink_step cfg s (s\<lparr>sr_sink := sn, sr_dirs := d, sr_pending := []\<rparr>)"
| not_closed: "commit_sink cfg io (sr_sink s) (sr_dirs s) = (Inl e, sn, d) \<Longrightarrow> maybe_close_active_sink io (sr_sink s) = Inl e \<Longrightarrow>
    sink_step cfg s (s\<lparr>sr_sink := sn, sr_dirs := d\<rparr>)"
| not_deposited: "commit_sink cfg io (sr_sink s) (sr_dirs s) = (Inl e, sn, d) \<Longrightarrow> maybe_close_active_sink io (sr_sink s) = Inr sn' \<Longrightarrow>
    sink_step cfg s (s\<lparr>sr_sink := sn, sr_dirs := d, sr_pending := []\<rparr>)"
| restarted: "init_sink cfg io (sr_dirs s) = (res, d) \<Longrightarrow>
    sink_step cfg s (s\<lparr>sr_sink := empty_sink, sr_dirs := d, sr_pending := []\<rparr>)"

inductive sink_reachable :: "sink_config \<Rightarrow> sink_run \<Rightarrow> bool" for cfg where
  sink_start: "sink_reachable cfg \<lparr>sr_sink = empty_sink, sr_dirs = \<lparr>sd_tmp = [], sd_target = [], sd_uploads = []\<rparr>, sr_pending = [], sr_acked = []\<rparr>"
| sink_next: "sink_reachable cfg s \<Longrightarrow> sink_step cfg s t \<Longrightarrow> sink_reachable cfg t"

section \<open>Directories\<close>

text \<open>Names are unique within and across the two directories, and the messages of a directory count with their number.\<close>

definition dirs_ok :: "sink_dirs \<Rightarrow> bool" where
  "dirs_ok d \<longleftrightarrow> distinct (map fst (sd_tmp d)) \<and> distinct (map fst (sd_target d)) \<and> fst ` set (sd_tmp d) \<inter> fst ` set (sd_target d) = {}"

definition dir_msgs :: "(string \<times> bytes list) list \<Rightarrow> bytes multiset" where
  "dir_msgs fs = (\<Sum>(n, msgs) \<leftarrow> fs. mset msgs)"

definition held :: "sink_dirs \<Rightarrow> bytes multiset" where
  "held d = dir_msgs (sd_tmp d) + dir_msgs (sd_target d)"

lemma dir_msgs_simps [simp]: "dir_msgs [] = {#}" "dir_msgs ((n, msgs) # fs) = mset msgs + dir_msgs fs"
  by (simp_all add: dir_msgs_def)

lemma dir_msgs_update_fresh: "n \<notin> fst ` set fs \<Longrightarrow> dir_msgs (AList.update n msgs fs) = dir_msgs fs + mset msgs"
  by (induction fs) auto

lemma dir_msgs_delete:
  "distinct (map fst fs) \<Longrightarrow> map_of fs n = Some msgs \<Longrightarrow> dir_msgs fs = dir_msgs (AList.delete n fs) + mset msgs"
proof (induction fs)
  case (Cons p fs)
  obtain k v where p: "p = (k, v)" by (cases p)
  show ?case
  proof (cases "k = n")
    case True
    then have "AList.delete n fs = fs" using Cons.prems(1) p by (intro AList.delete_id) auto
    then show ?thesis using True Cons.prems(2) p by simp
  next
    case False
    then show ?thesis using Cons p by simp
  qed
qed simp

lemma dir_msgs_map_entry:
  "n \<in> fst ` set fs \<Longrightarrow> distinct (map fst fs) \<Longrightarrow> dir_msgs (AList.map_entry n (\<lambda>msgs. msgs @ [b]) fs) = dir_msgs fs + {#b#}"
proof (induction fs)
  case (Cons p fs)
  obtain k v where p: "p = (k, v)" by (cases p)
  show ?case
  proof (cases "k = n")
    case True
    then show ?thesis using p by simp
  next
    case False
    then show ?thesis using Cons p by auto
  qed
qed simp

lemma keys_update: "fst ` set (AList.update n msgs fs) = insert n (fst ` set fs)"
  by (simp add: dom_update)

lemma keys_delete: "fst ` set (AList.delete n fs) = fst ` set fs - {n}"
  by (auto simp: AList.delete_eq)

lemma keys_map_entry: "map fst (AList.map_entry n f fs) = map fst fs"
  by (induction fs) auto

lemma deposit_sink_effect:
  assumes "deposit_sink cfg io name d = (res, d')" "dirs_ok d"
  shows "dirs_ok d' \<and> held d' = held d \<and> fst ` set (sd_tmp d') \<subseteq> fst ` set (sd_tmp d) \<and> fst ` set (sd_tmp d') \<union> fst ` set (sd_target d') = fst ` set (sd_tmp d) \<union> fst ` set (sd_target d)"
proof (cases "map_of (sd_tmp d) name")
  case None
  then show ?thesis using assms by (simp add: deposit_sink_def)
next
  case (Some msgs)
  have mem: "name \<in> fst ` set (sd_tmp d)" "name \<notin> fst ` set (sd_target d)"
    using Some assms(2) map_of_SomeD [OF Some] by (force simp: dirs_ok_def)+
  show ?thesis
  proof (cases "io_rename io name")
    case False
    then show ?thesis using Some assms by (simp add: deposit_sink_def)
  next
    case True
    then have d': "sd_tmp d' = AList.delete name (sd_tmp d)" "sd_target d' = AList.update name msgs (sd_target d)"
      using Some assms(1) by (auto simp: deposit_sink_def Let_def split: if_splits)
    have "dirs_ok d'" using assms(2) mem unfolding dirs_ok_def d' keys_update keys_delete
      by (auto intro: AList.distinct_update AList.distinct_delete)
    moreover have "held d' = held d"
      using dir_msgs_delete [OF _ Some] dir_msgs_update_fresh [OF mem(2)] assms(2) by (simp add: held_def d' dirs_ok_def)
    ultimately show ?thesis using mem unfolding d' keys_update keys_delete by auto
  qed
qed

section \<open>No acknowledged message is lost\<close>

abbreviation dir_names :: "sink_dirs \<Rightarrow> string set" where
  "dir_names d \<equiv> fst ` set (sd_tmp d) \<union> fst ` set (sd_target d)"

definition active_ok :: "file_sink \<Rightarrow> sink_dirs \<Rightarrow> bool" where
  "active_ok sn d \<longleftrightarrow> (\<forall>a. sn_active sn = Some a \<longrightarrow> ac_open a \<longrightarrow> ac_name a \<in> fst ` set (sd_tmp d))"

text \<open>What a part of an operation does to the directories when it moves messages only.\<close>

definition moves :: "sink_dirs \<Rightarrow> sink_dirs \<Rightarrow> bool" where
  "moves d d' \<longleftrightarrow> dirs_ok d' \<and> held d' = held d \<and> dir_names d' = dir_names d"

lemma moves_refl: "dirs_ok d \<Longrightarrow> moves d d"
  by (simp add: moves_def)

lemma moves_trans: "moves d d' \<Longrightarrow> moves d' d'' \<Longrightarrow> moves d d''"
  by (simp add: moves_def)

lemma deposit_sink_moves: "deposit_sink cfg io name d = (res, d') \<Longrightarrow> dirs_ok d \<Longrightarrow> moves d d'"
  using deposit_sink_effect by (simp add: moves_def)

lemma deposit_all_moves: "deposit_all cfg io ns d = (res, d') \<Longrightarrow> dirs_ok d \<Longrightarrow> moves d d'"
proof (induction cfg io ns d arbitrary: res d' rule: deposit_all.induct)
  case (2 cfg io n ns d)
  obtain r d1 where one: "deposit_sink cfg io n d = (r, d1)" by fastforce
  note m1 = deposit_sink_moves [OF one 2(3)]
  show ?case
  proof (cases r)
    case (Inl e)
    then show ?thesis using 2(2) one m1 by simp
  next
    case (Inr u)
    obtain r2 d2 where two: "deposit_all cfg io ns d1 = (r2, d2)" by fastforce
    have "d' = d2" using 2(2) one Inr two by (simp split: sum.splits)
    then show ?thesis using 2(1) [OF one [symmetric] Inr two] m1 moves_trans by (auto simp: moves_def)
  qed
qed (simp add: moves_refl)

lemma commit_sink_moves:
  assumes "commit_sink cfg io sn d = (res, sn', d')" "dirs_ok d" "active_ok sn d"
  shows "moves d d' \<and> active_ok sn' d' \<and> (\<forall>m. res = Inr m \<longrightarrow> sn_active sn' = None)"
proof (cases "maybe_close_active_sink io sn")
  case (Inl e)
  then show ?thesis using assms by (auto simp: commit_sink_def moves_refl)
next
  case (Inr sn1)
  obtain r d1 where dep: "deposit_all cfg io (sn_staged sn1) d = (r, d1)" by fastforce
  have "sn_active sn1 = None" using Inr by (auto simp: maybe_close_active_sink_def split: option.splits sum.splits)
  then show ?thesis using assms(1) Inr dep deposit_all_moves [OF dep assms(2)] by (auto simp: commit_sink_def active_ok_def)
qed

lemma new_sink_effect:
  assumes "new_sink cfg io now sn d = (res, sn', d')" "dirs_ok d" "active_ok sn d" "fresh_name cfg now d"
  shows "dirs_ok d' \<and> held d' = held d \<and> active_ok sn' d' \<and> (res = Inr () \<longrightarrow> sn_active sn' \<noteq> None)"
proof (cases "io_open io")
  case False
  then show ?thesis using assms by (auto simp: new_sink_def)
next
  case True
  let ?n = "sink_file_name (sk_prefix cfg) now"
  have d': "d' = d\<lparr>sd_tmp := AList.update ?n [] (sd_tmp d)\<rparr>" and sn': "sn_active sn' = Some \<lparr>ac_size = 0, ac_time = now, ac_name = ?n, ac_open = True\<rparr>"
    using assms(1) True by (auto simp: new_sink_def Let_def)
  have fresh: "?n \<notin> fst ` set (sd_tmp d)" "?n \<notin> fst ` set (sd_target d)" using assms(4) by (auto simp: fresh_name_def)
  have "dirs_ok d'" using assms(2) fresh keys_update [of ?n "[]" "sd_tmp d"] unfolding dirs_ok_def d' by (simp add: AList.distinct_update)
  moreover have "held d' = held d" using dir_msgs_update_fresh [OF fresh(1), of "[]"] by (simp add: held_def d')
  moreover have "active_ok sn' d'" using sn' keys_update [of ?n "[]" "sd_tmp d"] by (simp add: active_ok_def d')
  ultimately show ?thesis using sn' by simp
qed

lemma prepare_sink_effect:
  assumes "prepare_sink cfg io now n sn d = (res, sn', d')" "dirs_ok d" "active_ok sn d" "fresh_name cfg now d"
  shows "dirs_ok d' \<and> held d' = held d \<and> active_ok sn' d'"
proof (cases "\<exists>a. sn_active sn = Some a \<and> ac_size a + n \<ge> sk_max_size cfg \<and> io_shutdown io")
  case False
  then show ?thesis using assms new_sink_effect [OF _ assms(2-4)]
    by (auto simp: prepare_sink_def shutdown_active_def split: option.splits if_splits)
next
  case True
  then obtain a where a: "sn_active sn = Some a" "ac_size a + n \<ge> sk_max_size cfg" "io_shutdown io" by blast
  let ?sn = "sn\<lparr>sn_active := Some (a\<lparr>ac_open := False\<rparr>)\<rparr>"
  have act: "active_ok ?sn d" by (simp add: active_ok_def)
  show ?thesis
  proof (cases "sk_auto_commit cfg")
    case False
    then have "new_sink cfg io now ?sn d = (res, sn', d')" using assms(1) a by (simp add: prepare_sink_def shutdown_active_def)
    from new_sink_effect [OF this assms(2) act assms(4)] show ?thesis by blast
  next
    case True
    obtain r sn1 d1 where c: "commit_sink cfg io ?sn d = (r, sn1, d1)" using prod_cases3 by blast
    note cm = commit_sink_moves [OF c assms(2) act]
    show ?thesis
    proof (cases r)
      case (Inl e)
      then show ?thesis using assms(1) a True c cm by (simp add: prepare_sink_def shutdown_active_def moves_def)
    next
      case (Inr m)
      then have new: "new_sink cfg io now sn1 d1 = (res, sn', d')" using assms(1) a True c by (simp add: prepare_sink_def shutdown_active_def)
      have "fresh_name cfg now d1" using assms(4) cm by (simp add: fresh_name_def moves_def)
      then show ?thesis using new_sink_effect [OF new] cm by (simp add: moves_def)
    qed
  qed
qed

lemma write_sink_effect:
  assumes "write_sink cfg io now buf sn d = (res, sn', d')" "dirs_ok d" "active_ok sn d" "fresh_name cfg now d"
  shows "dirs_ok d' \<and> active_ok sn' d' \<and> held d' = held d + (if res = Inr () then {#buf#} else {#})"
proof -
  obtain r sn1 d1 where p: "prepare_sink cfg io now (length buf) sn d = (r, sn1, d1)" using prod_cases3 by blast
  note pe = prepare_sink_effect [OF p assms(2-4)]
  show ?thesis
  proof (cases "\<exists>a. r = Inr () \<and> sn_active sn1 = Some a \<and> io_send io \<and> ac_open a \<and> length buf \<le> MAX_FRAME_LENGTH")
    case True
    then obtain a where a: "r = Inr ()" "sn_active sn1 = Some a" "io_send io" "ac_open a" "length buf \<le> MAX_FRAME_LENGTH" by blast
    have w: "res = Inr ()" "sn' = sn1\<lparr>sn_active := Some (a\<lparr>ac_size := ac_size a + length buf\<rparr>)\<rparr>"
        "d' = d1\<lparr>sd_tmp := AList.map_entry (ac_name a) (\<lambda>msgs. msgs @ [buf]) (sd_tmp d1)\<rparr>"
      using assms(1) p a by (auto simp: write_sink_def)
    have mem: "ac_name a \<in> fst ` set (sd_tmp d1)" using pe a by (simp add: active_ok_def)
    have keys: "fst ` set (AList.map_entry (ac_name a) (\<lambda>msgs. msgs @ [buf]) (sd_tmp d1)) = fst ` set (sd_tmp d1)"
      using keys_map_entry [of "ac_name a" "\<lambda>msgs. msgs @ [buf]" "sd_tmp d1"] by (metis list.set_map)
    have "held d' = held d1 + {#buf#}" using dir_msgs_map_entry [OF mem] pe by (simp add: held_def w(3) dirs_ok_def)
    then show ?thesis using pe w mem keys a by (simp add: dirs_ok_def keys_map_entry active_ok_def)
  next
    case False
    then have "res = Inl SinkIo \<and> sn' = sn1 \<and> d' = d1 \<or> (\<exists>e. res = Inl e \<and> sn' = sn1 \<and> d' = d1)" using assms(1) p
      by (auto simp: write_sink_def split: sum.splits option.splits if_splits)
    then show ?thesis using pe by auto
  qed
qed

lemma maybe_roll_effect:
  assumes "maybe_roll cfg io now sn d = (res, sn', d')" "dirs_ok d" "active_ok sn d"
  shows "moves d d' \<and> active_ok sn' d'"
proof -
  have close: "active_ok sn1 d" if "maybe_close_active_sink io sn = Inr sn1" for sn1
    using that by (auto simp: maybe_close_active_sink_def active_ok_def split: option.splits sum.splits)
  show ?thesis using assms commit_sink_moves [OF _ assms(2,3)] close
    by (auto simp: maybe_roll_def moves_refl split: option.splits if_splits sum.splits prod.splits)
qed

lemma init_partial_moves: "sk_auto_commit cfg \<Longrightarrow> dirs_ok d \<Longrightarrow> moves d (init_partial cfg io d name)"
  using deposit_sink_moves [of cfg io name d] by (auto simp: init_partial_def moves_refl prod_eq_iff)

lemma init_sink_moves:
  assumes "init_sink cfg io d = (res, d')" "sk_auto_commit cfg" "dirs_ok d"
  shows "moves d d'"
proof -
  have fold: "moves d1 (foldl (init_partial cfg io) d1 ns)" if "dirs_ok d1" for d1 ns
    using that
  proof (induction ns arbitrary: d1)
    case (Cons n ns)
    have m: "moves d1 (init_partial cfg io d1 n)" by (rule init_partial_moves [OF assms(2) Cons.prems])
    then show ?case using Cons.IH [of "init_partial cfg io d1 n"] moves_trans [OF m] by (simp add: moves_def)
  qed (simp add: moves_refl)
  have up: "moves d (d\<lparr>sd_uploads := us\<rparr>)" "dirs_ok (d\<lparr>sd_uploads := us\<rparr>)" for us using assms(3) by (simp_all add: moves_def held_def dirs_ok_def)
  show ?thesis using assms(1) up(1) fold [OF up(2)] fold [OF assms(3)] moves_refl [OF assms(3)]
    by (auto simp: init_sink_def Let_def split: if_splits intro: moves_trans [OF up(1)])
qed

lemma acked_step:
  assumes "sink_step cfg s t" "sk_auto_commit cfg" "dirs_ok (sr_dirs s) \<and> active_ok (sr_sink s) (sr_dirs s) \<and> mset (sr_acked s) \<subseteq># held (sr_dirs s)"
  shows "dirs_ok (sr_dirs t) \<and> active_ok (sr_sink t) (sr_dirs t) \<and> mset (sr_acked t) \<subseteq># held (sr_dirs t)"
  using assms(1)
proof cases
  case (written now io buf sn d)
  then show ?thesis using write_sink_effect [OF written(3) _ _ written(2)] assms(3) by simp
next
  case (refused now io buf e sn d)
  then show ?thesis using write_sink_effect [OF refused(3) _ _ refused(2)] assms(3) by simp
next
  case (rolled io now res sn d)
  then show ?thesis using maybe_roll_effect [OF rolled(2)] assms(3) by (simp add: moves_def)
next
  case (restarted io res d)
  then show ?thesis using init_sink_moves [OF restarted(2) assms(2)] assms(3) by (simp add: moves_def active_ok_def empty_sink_def)
qed (use assms(3) commit_sink_moves in \<open>fastforce simp: moves_def\<close>)+


section \<open>What a commit returns\<close>

text \<open>Without automatic commits the staged files hold, in order, the messages acknowledged since the last commit, and an open
  active sink writes to the last of them.\<close>

definition contents :: "(string \<times> bytes list) list \<Rightarrow> string list \<Rightarrow> bytes list" where
  "contents fs ns = concat (map (\<lambda>n. the (map_of fs n)) ns)"

definition staged_ok :: "file_sink \<Rightarrow> sink_dirs \<Rightarrow> bool" where
  "staged_ok sn d \<longleftrightarrow> dirs_ok d \<and> distinct (sn_staged sn) \<and> set (sn_staged sn) \<subseteq> fst ` set (sd_tmp d) \<and>
     (\<forall>a. sn_active sn = Some a \<longrightarrow> sn_staged sn \<noteq> [] \<and> ac_name a = last (sn_staged sn))"

lemma contents_cong: "(\<And>n. n \<in> set ns \<Longrightarrow> map_of fs n = map_of fs' n) \<Longrightarrow> contents fs ns = contents fs' ns"
  unfolding contents_def by (metis (no_types, lifting) map_eq_conv)

lemma contents_append [simp]: "contents fs (ns @ ms) = contents fs ns @ contents fs ms"
  by (simp add: contents_def)

lemma contents_single [simp]: "contents fs [n] = the (map_of fs n)"
  by (simp add: contents_def)

lemma map_of_map_entry_append: "n \<in> fst ` set fs \<Longrightarrow> the (map_of (AList.map_entry n (\<lambda>msgs. msgs @ [b]) fs) n) = the (map_of fs n) @ [b]"
  by (induction fs) auto

lemma map_of_map_entry_other: "m \<noteq> n \<Longrightarrow> map_of (AList.map_entry n f fs) m = map_of fs m"
  by (induction fs) auto

lemma prepare_sink_staged:
  assumes "prepare_sink cfg io now n sn d = (res, sn', d')" "\<not> sk_auto_commit cfg" "staged_ok sn d" "fresh_name cfg now d"
  shows "staged_ok sn' d' \<and> contents (sd_tmp d') (sn_staged sn') = contents (sd_tmp d) (sn_staged sn)"
proof -
  have closed: "staged_ok (sn\<lparr>sn_active := Some (a\<lparr>ac_open := False\<rparr>)\<rparr>) d" if "sn_active sn = Some a" for a
    using assms(3) that by (simp add: staged_ok_def)
  have new: "staged_ok sn2 d2 \<and> contents (sd_tmp d2) (sn_staged sn2) = contents (sd_tmp d) (sn_staged sn)"
    if "new_sink cfg io now sn1 d = (r, sn2, d2)" "staged_ok sn1 d" "sn_staged sn1 = sn_staged sn" for sn1 sn2 d2 r
  proof (cases "io_open io")
    case True
    let ?n = "sink_file_name (sk_prefix cfg) now"
    have fresh: "?n \<notin> fst ` set (sd_tmp d)" "?n \<notin> fst ` set (sd_target d)" using assms(4) by (auto simp: fresh_name_def)
    have eq: "d2 = d\<lparr>sd_tmp := AList.update ?n [] (sd_tmp d)\<rparr>" "sn_staged sn2 = sn_staged sn @ [?n]" "\<forall>a. sn_active sn2 = Some a \<longrightarrow> ac_name a = ?n"
      using that True by (auto simp: new_sink_def Let_def)
    have "contents (AList.update ?n [] (sd_tmp d)) (sn_staged sn) = contents (sd_tmp d) (sn_staged sn)"
      by (rule contents_cong) (use fresh(1) that(2,3) in \<open>auto simp: AList.update_conv' staged_ok_def\<close>)
    moreover have "staged_ok sn2 d2" using that(2,3) fresh eq keys_update [of ?n "[]" "sd_tmp d"]
      by (auto simp: staged_ok_def dirs_ok_def AList.distinct_update)
    ultimately show ?thesis using eq by (simp add: AList.update_conv')
  qed (use that in \<open>auto simp: new_sink_def\<close>)
  show ?thesis using assms(1-3) new [OF _ assms(3)] new [OF _ closed]
    by (auto simp: prepare_sink_def shutdown_active_def split: option.splits if_splits)
qed

lemma write_sink_staged:
  assumes "write_sink cfg io now buf sn d = (res, sn', d')" "\<not> sk_auto_commit cfg" "staged_ok sn d" "fresh_name cfg now d"
  shows "staged_ok sn' d' \<and> contents (sd_tmp d') (sn_staged sn') = contents (sd_tmp d) (sn_staged sn) @ (if res = Inr () then [buf] else [])"
proof -
  obtain r sn1 d1 where p: "prepare_sink cfg io now (length buf) sn d = (r, sn1, d1)" using prod_cases3 by blast
  note pe = prepare_sink_staged [OF p assms(2-4)]
  show ?thesis
  proof (cases "\<exists>a. r = Inr () \<and> sn_active sn1 = Some a \<and> io_send io \<and> ac_open a \<and> length buf \<le> MAX_FRAME_LENGTH")
    case True
    then obtain a where a: "r = Inr ()" "sn_active sn1 = Some a" "io_send io" "ac_open a" "length buf \<le> MAX_FRAME_LENGTH" by blast
    have w: "res = Inr ()" "sn_staged sn' = sn_staged sn1" "sn_active sn' = Some (a\<lparr>ac_size := ac_size a + length buf\<rparr>)"
        "d' = d1\<lparr>sd_tmp := AList.map_entry (ac_name a) (\<lambda>msgs. msgs @ [buf]) (sd_tmp d1)\<rparr>"
      using assms(1) p a by (auto simp: write_sink_def)
    obtain ns where ns: "sn_staged sn1 = ns @ [ac_name a]" using pe a(2) by (metis append_butlast_last_id staged_ok_def)
    have mem: "ac_name a \<in> fst ` set (sd_tmp d1)" "ac_name a \<notin> set ns" using pe ns by (auto simp: staged_ok_def)
    have "contents (sd_tmp d') ns = contents (sd_tmp d1) ns"
      by (rule contents_cong) (simp add: w(4), rule map_of_map_entry_other, use mem(2) in blast)
    moreover have keys: "fst ` set (sd_tmp d') = fst ` set (sd_tmp d1)" using keys_map_entry [of "ac_name a" "\<lambda>msgs. msgs @ [buf]" "sd_tmp d1"]
      by (simp add: w(4)) (metis list.set_map)
    moreover have "staged_ok sn' d'" using pe keys w a ns by (auto simp: staged_ok_def dirs_ok_def keys_map_entry)
    ultimately show ?thesis using pe w(1,2) ns map_of_map_entry_append [OF mem(1)] by (simp add: w(4))
  next
    case False
    then have "(\<exists>e. res = Inl e) \<and> sn' = sn1 \<and> d' = d1" using assms(1) p
      by (auto simp: write_sink_def split: sum.splits option.splits if_splits)
    then show ?thesis using pe by auto
  qed
qed

lemma close_staged: "maybe_close_active_sink io sn = Inr sn' \<Longrightarrow> staged_ok sn d \<Longrightarrow> staged_ok sn' d \<and> sn_staged sn' = sn_staged sn"
  by (auto simp: maybe_close_active_sink_def staged_ok_def split: option.splits sum.splits)

lemma commit_dirs_ok: "commit_sink cfg io sn d = (res, sn', d') \<Longrightarrow> dirs_ok d \<Longrightarrow> dirs_ok d'"
  using deposit_all_moves by (auto simp: commit_sink_def moves_def split: sum.splits prod.splits)

lemma init_sink_dirs_ok: "init_sink cfg io d = (res, d') \<Longrightarrow> dirs_ok d \<Longrightarrow> dirs_ok d'"
proof -
  have part: "dirs_ok (init_partial cfg io d1 n)" if "dirs_ok d1" for d1 n
    using that deposit_sink_moves [of cfg io n d1 "fst (deposit_sink cfg io n d1)" "snd (deposit_sink cfg io n d1)"]
    by (auto simp: init_partial_def moves_def dirs_ok_def keys_delete AList.distinct_delete)
  have fold: "dirs_ok (foldl (init_partial cfg io) d1 ns)" if "dirs_ok d1" for d1 ns
    using that by (induction ns arbitrary: d1) (auto simp: part)
  assume "init_sink cfg io d = (res, d')" "dirs_ok d"
  moreover have "dirs_ok (d\<lparr>sd_uploads := us\<rparr>)" for us using \<open>dirs_ok d\<close> by (simp add: dirs_ok_def)
  ultimately show ?thesis using fold by (auto simp: init_sink_def Let_def split: if_splits)
qed

lemma pending_step:
  assumes "sink_step cfg s t" "\<not> sk_auto_commit cfg"
    "staged_ok (sr_sink s) (sr_dirs s) \<and> contents (sd_tmp (sr_dirs s)) (sn_staged (sr_sink s)) = sr_pending s"
  shows "staged_ok (sr_sink t) (sr_dirs t) \<and> contents (sd_tmp (sr_dirs t)) (sn_staged (sr_sink t)) = sr_pending t"
  using assms(1)
proof cases
  case (written now io buf sn d)
  then show ?thesis using write_sink_staged [OF written(3) assms(2) _ written(2)] assms(3) by simp
next
  case (refused now io buf e sn d)
  then show ?thesis using write_sink_staged [OF refused(3) assms(2) _ refused(2)] assms(3) by simp
next
  case (rolled io now res sn d)
  then show ?thesis using assms(2,3) close_staged
    by (auto simp: maybe_roll_def split: option.splits if_splits sum.splits)
next
  case (restarted io res d)
  then show ?thesis using init_sink_dirs_ok [OF restarted(2)] assms(3) by (simp add: staged_ok_def empty_sink_def contents_def)
next
  case (committed io m sn d)
  then show ?thesis using commit_dirs_ok [OF committed(2)] assms(3)
    by (auto simp: staged_ok_def contents_def commit_sink_def maybe_close_active_sink_def split: sum.splits prod.splits option.splits)
next
  case (not_closed io e sn d)
  then show ?thesis using assms(3) by (simp add: commit_sink_def)
next
  case (not_deposited io e sn d sn')
  then show ?thesis using commit_dirs_ok [OF not_deposited(2)] assms(3)
    by (auto simp: staged_ok_def contents_def commit_sink_def maybe_close_active_sink_def split: sum.splits prod.splits option.splits)
qed

lemma deposit_all_contents:
  assumes "deposit_all cfg io ns d = (Inr m, d')" "dirs_ok d" "distinct ns" "set ns \<subseteq> fst ` set (sd_tmp d)" "sk_upload cfg"
  shows "m = ns \<and> contents (sd_target d') ns = contents (sd_tmp d) ns \<and> set ns \<inter> fst ` set (sd_tmp d') = {} \<and>
    sd_uploads d' = sd_uploads d @ ns \<and> (\<forall>k. k \<notin> set ns \<longrightarrow> map_of (sd_target d') k = map_of (sd_target d) k)"
  using assms(1-4)
proof (induction ns arbitrary: d m)
  case (Cons n ns)
  obtain msgs where msgs: "map_of (sd_tmp d) n = Some msgs" using Cons.prems(4) by (metis dom_map_of_conv_image_fst domD list.set_intros(1) subsetD)
  obtain d1 where one: "deposit_sink cfg io n d = (Inr (), d1)" using Cons.prems(1) by (auto split: prod.splits sum.splits)
  then have d1: "d1 = d\<lparr>sd_tmp := AList.delete n (sd_tmp d), sd_target := AList.update n msgs (sd_target d), sd_uploads := sd_uploads d @ [n]\<rparr>"
    using msgs assms(5) by (auto simp: deposit_sink_def Let_def split: if_splits)
  obtain m' where rest: "deposit_all cfg io ns d1 = (Inr m', d')" "m = n # m'" using Cons.prems(1) one by (auto split: prod.splits sum.splits)
  have ok: "dirs_ok d1" using deposit_sink_moves [OF one Cons.prems(2)] by (simp add: moves_def)
  have sub: "set ns \<subseteq> fst ` set (sd_tmp d1)" using Cons.prems(3,4) by (auto simp: d1 keys_delete)
  note IH = Cons.IH [OF rest(1) ok _ sub]
  have "contents (sd_tmp d1) ns = contents (sd_tmp d) ns"
    by (rule contents_cong) (use Cons.prems(3) in \<open>auto simp: d1 AList.delete_conv'\<close>)
  moreover have target: "map_of (sd_target d') n = Some msgs" using IH Cons.prems(3) by (simp add: d1 AList.update_conv')
  moreover have "n \<notin> fst ` set (sd_tmp d')"
  proof -
    have "n \<in> fst ` set (sd_target d')" using target by (metis domI dom_map_of_conv_image_fst)
    moreover have "dirs_ok d'" using deposit_all_moves [OF rest(1) ok] by (simp add: moves_def)
    ultimately show ?thesis unfolding dirs_ok_def by blast
  qed
  ultimately show ?case using IH Cons.prems(3) msgs rest(2) by (simp add: contents_def d1 AList.update_conv')
qed (simp add: contents_def)

text \<open>C29: without automatic commits, a commit that succeeds returns the names of the files that hold exactly the messages acknowledged
  since the last commit or start, in the order in which they were written; the files are in the target directory, no longer among the
  partial ones, and each was handed to the uploader once.\<close>

theorem commit_returns_what_was_written:
  assumes "sink_reachable cfg s" "\<not> sk_auto_commit cfg" "sk_upload cfg"
    "commit_sink cfg io (sr_sink s) (sr_dirs s) = (Inr manifest, sn, d)"
  shows "distinct manifest \<and> contents (sd_target d) manifest = sr_pending s \<and> set manifest \<inter> fst ` set (sd_tmp d) = {} \<and>
    sd_uploads d = sd_uploads (sr_dirs s) @ manifest"
proof -
  from assms(1,2) have inv: "staged_ok (sr_sink s) (sr_dirs s) \<and> contents (sd_tmp (sr_dirs s)) (sn_staged (sr_sink s)) = sr_pending s"
  proof (induction rule: sink_reachable.induct)
    case sink_start
    show ?case by (simp add: staged_ok_def dirs_ok_def empty_sink_def contents_def)
  next
    case (sink_next s t)
    then show ?case using pending_step by blast
  qed
  obtain sn1 where c: "maybe_close_active_sink io (sr_sink s) = Inr sn1" "deposit_all cfg io (sn_staged sn1) (sr_dirs s) = (Inr manifest, d)"
    using assms(4) by (auto simp: commit_sink_def split: sum.splits prod.splits)
  have st: "staged_ok sn1 (sr_dirs s)" "sn_staged sn1 = sn_staged (sr_sink s)" using close_staged [OF c(1)] inv by auto
  then show ?thesis using deposit_all_contents [OF c(2) _ _ _ assms(3)] inv by (simp add: staged_ok_def)
qed

section \<open>The uploader\<close>

definition MAX_RETRIES :: nat where "MAX_RETRIES = 5"

text \<open>The number of the attempt that stored the file, from the given one on.\<close>

function store_with_retries :: "(nat \<Rightarrow> bool) \<Rightarrow> nat \<Rightarrow> nat option" where
  "store_with_retries put_ok retry =
     (if retry \<le> MAX_RETRIES then if put_ok retry then Some retry else store_with_retries put_ok (Suc retry) else None)"
  by pat_completeness auto
termination
  by (relation "measure (\<lambda>(_, retry). Suc MAX_RETRIES - retry)") auto

declare store_with_retries.simps [simp del]

definition upload :: "(nat \<Rightarrow> bool) \<Rightarrow> bool \<Rightarrow> string \<Rightarrow> sink_dirs \<times> (string \<rightharpoonup> bytes list) \<Rightarrow> sink_dirs \<times> (string \<rightharpoonup> bytes list)" where
  "upload put_ok remove_ok name st =
     (case st of (d, bucket) \<Rightarrow>
        case map_of (sd_target d) name of
          None \<Rightarrow> (d, bucket)
        | Some msgs \<Rightarrow>
            (case store_with_retries put_ok 0 of
               None \<Rightarrow> (d, bucket)
             | Some _ \<Rightarrow> (if remove_ok then d\<lparr>sd_target := AList.delete name (sd_target d)\<rparr> else d, bucket(name \<mapsto> msgs))))"

lemma store_with_retries_iff: "store_with_retries put_ok retry = None \<longleftrightarrow> (\<forall>k. retry \<le> k \<and> k \<le> MAX_RETRIES \<longrightarrow> \<not> put_ok k)"
proof (induction put_ok retry rule: store_with_retries.induct)
  case (1 put_ok retry)
  show ?case
  proof (cases "retry \<le> MAX_RETRIES \<and> \<not> put_ok retry")
    case True
    then have "store_with_retries put_ok retry = store_with_retries put_ok (Suc retry)" by (simp add: store_with_retries.simps [of put_ok retry])
    then show ?thesis using 1 True by (metis Suc_leD le_antisym not_less_eq_eq)
  next
    case False
    then show ?thesis by (auto simp: store_with_retries.simps [of put_ok retry])
  qed
qed

lemma upload_keeps_file:
  assumes "upload put_ok remove_ok name (d, bucket) = (d', bucket')" "map_of (sd_target d) name = Some msgs"
  shows "map_of (sd_target d') name = Some msgs \<or> bucket' name = Some msgs"
  using assms by (auto simp: upload_def split: option.splits if_splits)

lemma upload_stores: "\<exists>k \<le> MAX_RETRIES. put_ok k \<Longrightarrow> map_of (sd_target d) name = Some msgs \<Longrightarrow>
  (snd (upload put_ok remove_ok name (d, bucket))) name = Some msgs"
  using store_with_retries_iff [of put_ok 0] by (auto simp: upload_def split: option.splits)

section \<open>Two sinks of one prefix\<close>

text \<open>The sinks for invalid beacons of the purger and of the runner of the IoT verifier, in the order in which they are made.\<close>

definition purger_invalid_beacon_sink :: sink_config where
  "purger_invalid_beacon_sink = \<lparr>sk_prefix = to_str IotInvalidBeaconReportFile, sk_max_size = 50000000, sk_roll_time = minutes 3,
     sk_auto_commit = False, sk_upload = True\<rparr>"

definition runner_invalid_beacon_sink :: sink_config where
  "runner_invalid_beacon_sink = \<lparr>sk_prefix = to_str IotInvalidBeaconReportFile, sk_max_size = 50000000, sk_roll_time = minutes 5,
     sk_auto_commit = True, sk_upload = True\<rparr>"

definition io_all_ok :: sink_io where
  "io_all_ok = \<lparr>io_open = True, io_shutdown = True, io_send = True, io_rename = (\<lambda>_. True), io_upload = (\<lambda>_. True), io_remove = (\<lambda>_. True)\<rparr>"

definition empty_dirs :: sink_dirs where
  "empty_dirs = \<lparr>sd_tmp = [], sd_target = [], sd_uploads = []\<rparr>"



theorem commit_returns_what_was_written_witness:
  "\<exists>s d manifest sn. sink_reachable purger_invalid_beacon_sink s \<and> sr_pending s = [[1]] \<and>
     commit_sink purger_invalid_beacon_sink io_all_ok (sr_sink s) (sr_dirs s) = (Inr manifest, sn, d) \<and> contents (sd_target d) manifest = [[1]]"
proof -
  let ?w = "write_sink purger_invalid_beacon_sink io_all_ok (seconds 1) [1] empty_sink empty_dirs"
  let ?s = "\<lparr>sr_sink = fst (snd ?w), sr_dirs = snd (snd ?w), sr_pending = [[1]], sr_acked = [[1]]\<rparr>"
  have ok: "?w = (Inr (), fst (snd ?w), snd (snd ?w))"
    by (simp add: write_sink_def prepare_sink_def new_sink_def empty_sink_def purger_invalid_beacon_sink_def io_all_ok_def MAX_FRAME_LENGTH_def Let_def)
  have "sink_step purger_invalid_beacon_sink \<lparr>sr_sink = empty_sink, sr_dirs = empty_dirs, sr_pending = [], sr_acked = []\<rparr> ?s"
    using sink_step.written [of purger_invalid_beacon_sink "seconds 1" "\<lparr>sr_sink = empty_sink, sr_dirs = empty_dirs, sr_pending = [], sr_acked = []\<rparr>"
      io_all_ok "[1]" "fst (snd ?w)" "snd (snd ?w)"] ok by (simp add: fresh_name_def empty_dirs_def)
  then have reach: "sink_reachable purger_invalid_beacon_sink ?s"
    using sink_next [OF sink_start] by (simp add: empty_dirs_def)
  have cfg: "\<not> sk_auto_commit purger_invalid_beacon_sink" "sk_upload purger_invalid_beacon_sink" by (simp_all add: purger_invalid_beacon_sink_def)
  obtain manifest sn d where c: "commit_sink purger_invalid_beacon_sink io_all_ok (sr_sink ?s) (sr_dirs ?s) = (Inr manifest, sn, d)"
    by (simp add: commit_sink_def maybe_close_active_sink_def shutdown_active_def write_sink_def prepare_sink_def new_sink_def empty_sink_def
      purger_invalid_beacon_sink_def io_all_ok_def MAX_FRAME_LENGTH_def Let_def deposit_sink_def empty_dirs_def)
  from commit_returns_what_was_written [OF reach cfg c] reach c show ?thesis by (intro exI [of _ ?s] exI [of _ d] exI [of _ manifest] exI [of _ sn]) simp
qed

end
