(* ===== verification/Spec2Isabelle.thy ===== *)
theory Spec2Isabelle
  imports Helium_Netids Packet_System Mobile_Payouts Mobile_Packets Iot_System Iot_Rewarder File_Poller File_Sink
begin

text \<open>
  A verification development of the Helium oracles workspace.
\<close>

end
